(* ===== verification/Cdp_Prelude.thy ===== *)
theory Cdp_Prelude
  imports Complex_Main "HOL-Library.Word"
begin

text \<open>
  Shared ground of the development.

  \<^item> the type of bytes, the Python exceptions that the modelled code can raise, and the
    result type \<open>py_error + 'a\<close> with its sequencing operator;
  \<^item> disk images as functions from byte offsets to bytes, with the two updates every
    component is specified by: overwrite a range with data and zero a range;
  \<^item> the little-endian encoding that the \<^verbatim>\<open>struct\<close> module uses for unsigned fields;
  \<^item> regular files with holes, as \<^verbatim>\<open>os.pread\<close>, \<^verbatim>\<open>os.pwrite\<close>, \<^verbatim>\<open>os.lseek\<close> with
    \<^verbatim>\<open>SEEK_DATA\<close>/\<^verbatim>\<open>SEEK_HOLE\<close> and \<^verbatim>\<open>fallocate(PUNCH_HOLE)\<close> see them;
  \<^item> the interface \<open>byte_store\<close> of everything that behaves like a block of bytes, with the
    facts about sequences of writes that hold for any such store.
\<close>

named_theorems img_simps "reading an image after an update"
named_theorems file_simps "reading a file after a system call"
named_theorems le_simps "lengths and values of little-endian fields"

subsection \<open>Bytes, errors, results\<close>

type_synonym byte = "8 word"
type_synonym bytes = "byte list"
type_synonym image = "nat \<Rightarrow> byte"

datatype py_error =
    ValueError nat            \<comment> \<open>bad record magic, with the offset it is reported at\<close>
  | StructError               \<comment> \<open>\<^verbatim>\<open>struct.error\<close>: a field out of range, a short buffer\<close>
  | IndexError
  | KeyError string
  | TypeError
  | NameError string
  | RuntimeError string
  | SystemExit string
  | OSError
  | NumberError               \<comment> \<open>the \<^verbatim>\<open>ValueError\<close> of \<^verbatim>\<open>int\<close> and \<^verbatim>\<open>float\<close>\<close>
  | JSONDecodeError           \<comment> \<open>the \<^verbatim>\<open>ValueError\<close> of \<^verbatim>\<open>json.load\<close>\<close>
  | AttributeError string
  | ZeroDivisionError
  | CalledProcessError        \<comment> \<open>a command run with \<^verbatim>\<open>check=True\<close> that fails\<close>
  | TimeoutExpired            \<comment> \<open>a command that outlives its \<^verbatim>\<open>timeout\<close>\<close>
  | Diverges                  \<comment> \<open>not an exception: the call never returns\<close>

type_synonym 'a result = "py_error + 'a"

definition bind_result :: "'a result \<Rightarrow> ('a \<Rightarrow> 'b result) \<Rightarrow> 'b result" where
  "bind_result m k = (case m of Inl e \<Rightarrow> Inl e | Inr x \<Rightarrow> k x)"

primrec fold_result :: "('a \<Rightarrow> 's \<Rightarrow> 's result) \<Rightarrow> 'a list \<Rightarrow> 's \<Rightarrow> 's result" where
  "fold_result f [] s = Inr s"
| "fold_result f (x # xs) s = bind_result (f x s) (fold_result f xs)"

subsection \<open>Disk images\<close>

definition img_write :: "image \<Rightarrow> nat \<Rightarrow> bytes \<Rightarrow> image" where
  "img_write m off bs = (\<lambda>x. if off \<le> x \<and> x < off + length bs then bs ! (x - off) else m x)"

definition img_zero :: "image \<Rightarrow> nat \<Rightarrow> nat \<Rightarrow> image" where
  "img_zero m off n = (\<lambda>x. if off \<le> x \<and> x < off + n then 0 else m x)"

definition img_slice :: "image \<Rightarrow> nat \<Rightarrow> nat \<Rightarrow> bytes" where
  "img_slice m off n = map m [off..<off + n]"

subsection \<open>Little-endian unsigned fields\<close>

fun le_bytes :: "nat \<Rightarrow> nat \<Rightarrow> bytes" where
  "le_bytes 0 v = []"
| "le_bytes (Suc n) v = of_nat (v mod 256) # le_bytes n (v div 256)"

fun le_nat :: "bytes \<Rightarrow> nat" where
  "le_nat [] = 0"
| "le_nat (b # bs) = unat b + 256 * le_nat bs"

text \<open>\<^verbatim>\<open>struct.pack\<close> on a format of unsigned fields, given by their widths; a value that does
  not fit its field is a \<^verbatim>\<open>struct.error\<close>, as is a wrong number of values.\<close>

fun struct_pack :: "nat list \<Rightarrow> nat list \<Rightarrow> bytes result" where
  "struct_pack [] [] = Inr []"
| "struct_pack (w # ws) (v # vs) =
     (if v < 256 ^ w
      then bind_result (struct_pack ws vs) (\<lambda>rest. Inr (le_bytes w v @ rest))
      else Inl StructError)"
| "struct_pack _ _ = Inl StructError"

text \<open>\<^verbatim>\<open>struct.unpack_from\<close> at offset 0: the buffer may be longer than the format.\<close>

fun struct_unpack :: "nat list \<Rightarrow> bytes \<Rightarrow> nat list result" where
  "struct_unpack [] bs = Inr []"
| "struct_unpack (w # ws) bs =
     (if length bs < w then Inl StructError
      else bind_result (struct_unpack ws (drop w bs)) (\<lambda>vs. Inr (le_nat (take w bs) # vs)))"

subsection \<open>Files with holes\<close>

text \<open>
  A file has a size, its content (which reads as zero where nothing was written) and the
  set of bytes that lie in allocated blocks, which is what \<^verbatim>\<open>SEEK_DATA\<close> reports. The block
  size is the file system's: writing one byte allocates its whole block.
\<close>

record sfile =
  f_size :: nat
  f_dat :: image
  f_alloc :: "nat \<Rightarrow> bool"
  f_blk :: nat

text \<open>The most bytes that Linux transfers in one \<^verbatim>\<open>write\<close> call, see write(2).\<close>

definition RW_MAX :: nat where
  "RW_MAX = 2147479552"

definition os_truncated :: "nat \<Rightarrow> nat \<Rightarrow> sfile" where
  "os_truncated blk sz = \<lparr>f_size = sz, f_dat = (\<lambda>_. 0), f_alloc = (\<lambda>_. False), f_blk = blk\<rparr>"

definition os_pread :: "sfile \<Rightarrow> nat \<Rightarrow> nat \<Rightarrow> bytes" where
  "os_pread f n off = map (f_dat f) [off..<min (off + n) (f_size f)]"

definition os_pwrite :: "sfile \<Rightarrow> bytes \<Rightarrow> nat \<Rightarrow> sfile" where
  "os_pwrite f buf off =
     (let b = take RW_MAX buf in
      if b = [] then f
      else f\<lparr>f_size := max (f_size f) (off + length b),
             f_dat := img_write (f_dat f) off b,
             f_alloc := (\<lambda>x. f_alloc f x \<or>
               (off div f_blk f \<le> x div f_blk f \<and>
                x div f_blk f \<le> (off + length b - 1) div f_blk f))\<rparr>)"

text \<open>\<^verbatim>\<open>lseek\<close> with \<^verbatim>\<open>SEEK_DATA\<close> fails (\<^verbatim>\<open>ENXIO\<close>, here \<open>None\<close>) when there is no data at or
  after the offset; \<^verbatim>\<open>SEEK_HOLE\<close> fails only at or beyond the end, and there is a virtual hole
  at the end of the file.\<close>

definition seek_data :: "sfile \<Rightarrow> nat \<Rightarrow> nat option" where
  "seek_data f off = find (f_alloc f) [off..<f_size f]"

definition seek_hole :: "sfile \<Rightarrow> nat \<Rightarrow> nat option" where
  "seek_hole f off =
     (if f_size f \<le> off then None
      else (case find (\<lambda>x. \<not> f_alloc f x) [off..<f_size f] of
              None \<Rightarrow> Some (f_size f) | Some h \<Rightarrow> Some h))"

text \<open>A file as a file system keeps it: holes and everything past the end read as zero.\<close>

definition wf_file :: "sfile \<Rightarrow> bool" where
  "wf_file f \<longleftrightarrow> 0 < f_blk f \<and> (\<forall>x. f_dat f x \<noteq> 0 \<longrightarrow> x < f_size f \<and> f_alloc f x)"

subsection \<open>Stores of bytes\<close>

text \<open>
  What a client may rely on in anything that is written by offset: a write changes exactly
  the bytes it covers. \<open>cap\<close> bounds the length of one write.
\<close>

locale byte_store =
  fixes get :: "'s \<Rightarrow> nat \<Rightarrow> byte"
    and put :: "'s \<Rightarrow> nat \<Rightarrow> bytes \<Rightarrow> 's"
    and cap :: nat
  assumes get_put: "length bs \<le> cap \<Longrightarrow>
    get (put s off bs) x = (if off \<le> x \<and> x < off + length bs then bs ! (x - off) else get s x)"
begin

primrec replay :: "(nat \<times> bytes) list \<Rightarrow> 's \<Rightarrow> 's" where
  "replay [] s = s"
| "replay (w # ws) s = replay ws (put s (fst w) (snd w))"

definition capped :: "(nat \<times> bytes) list \<Rightarrow> bool" where
  "capped ws \<longleftrightarrow> list_all (\<lambda>w. length (snd w) \<le> cap) ws"

definition covers :: "nat \<Rightarrow> nat \<times> bytes \<Rightarrow> bool" where
  "covers x w \<longleftrightarrow> fst w \<le> x \<and> x < fst w + length (snd w)"

lemma replay_append: "replay (xs @ ys) s = replay ys (replay xs s)"
  by (induction xs arbitrary: s) auto

lemma replay_untouched:
  "capped ws \<Longrightarrow> list_all (\<lambda>w. \<not> covers x w) ws \<Longrightarrow> get (replay ws s) x = get s x"
  by (induction ws arbitrary: s) (auto simp: capped_def covers_def get_put)

text \<open>The byte read back depends on the store it was written to only where no write covers it.\<close>

lemma replay_cong:
  "capped ws \<Longrightarrow> get s x = get t x \<Longrightarrow> get (replay ws s) x = get (replay ws t) x"
  by (induction ws arbitrary: s t) (auto simp: capped_def get_put)

lemma replay_covered:
  "capped ws \<Longrightarrow> list_ex (covers x) ws \<Longrightarrow> get (replay ws s) x = get (replay ws t) x"
proof (induction ws arbitrary: s t)
  case Nil
  then show ?case by simp
next
  case (Cons w ws)
  show ?case
  proof (cases "covers x w")
    case True
    with Cons.prems(1) have "get (put s (fst w) (snd w)) x = get (put t (fst w) (snd w)) x"
      by (auto simp: capped_def covers_def get_put)
    with Cons.prems(1) show ?thesis
      by (auto simp: capped_def intro!: replay_cong)
  next
    case False
    with Cons show ?thesis by (auto simp: capped_def)
  qed
qed

text \<open>Writing a sequence again over its own result changes nothing.\<close>

lemma replay_idem:
  assumes "capped ws"
  shows "get (replay ws (replay ws s)) x = get (replay ws s) x"
proof (cases "list_ex (covers x) ws")
  case True
  with assms show ?thesis by (rule replay_covered)
next
  case False
  then have "list_all (\<lambda>w. \<not> covers x w) ws"
    by (simp add: list_all_iff list_ex_iff)
  with assms show ?thesis by (simp add: replay_untouched)
qed

end

subsection \<open>Results\<close>

lemma bind_result_simps [simp]:
  "bind_result (Inl e) k = Inl e"
  "bind_result (Inr x) k = k x"
  by (simp_all add: bind_result_def)

lemma bind_result_Inr_iff:
  "bind_result m k = Inr y \<longleftrightarrow> (\<exists>x. m = Inr x \<and> k x = Inr y)"
  by (auto simp: bind_result_def split: sum.splits)

lemma fold_result_append:
  "fold_result f (xs @ ys) s = bind_result (fold_result f xs s) (fold_result f ys)"
proof (induction xs arbitrary: s)
  case (Cons x xs)
  then show ?case by (cases "f x s") auto
qed simp

lemma fold_result_error:
  "fold_result f xs s = Inl e \<Longrightarrow> (\<And>x s e. f x s = Inl e \<Longrightarrow> P e) \<Longrightarrow> P e"
  by (induction xs arbitrary: s) (auto simp: bind_result_def split: sum.splits)

lemma fold_result_invariant:
  assumes step: "\<And>x s s'. x \<in> set xs \<Longrightarrow> P s \<Longrightarrow> f x s = Inr s' \<Longrightarrow> P s'"
    and run: "fold_result f xs s = Inr s'" and start: "P s"
  shows "P s'"
  using assms
proof (induction xs arbitrary: s)
  case (Cons x xs)
  from Cons.prems(2) obtain t where t: "f x s = Inr t" "fold_result f xs t = Inr s'"
    by (auto simp: bind_result_Inr_iff)
  have "P t" using Cons.prems(1) [of x s t] Cons.prems(3) t by simp
  then show ?case using Cons.IH [of t] Cons.prems(1) t by auto
qed simp

subsection \<open>Images\<close>

lemma img_write_apply [img_simps]:
  "img_write m off bs x = (if off \<le> x \<and> x < off + length bs then bs ! (x - off) else m x)"
  by (simp add: img_write_def)

lemma img_zero_apply [img_simps]:
  "img_zero m off n x = (if off \<le> x \<and> x < off + n then 0 else m x)"
  by (simp add: img_zero_def)

lemma img_write_Nil [simp]: "img_write m off [] = m"
  by (auto simp: img_write_def fun_eq_iff)

lemma img_zero_0 [simp]: "img_zero m off 0 = m"
  by (auto simp: img_zero_def fun_eq_iff)

lemma img_write_replicate_0: "img_write m off (replicate n 0) = img_zero m off n"
  by (auto simp: img_write_def img_zero_def fun_eq_iff)

lemma length_img_slice [simp]: "length (img_slice m off n) = n"
  by (simp add: img_slice_def)

lemma nth_img_slice [simp]: "i < n \<Longrightarrow> img_slice m off n ! i = m (off + i)"
  by (simp add: img_slice_def)

lemma img_write_slice [img_simps]:
  "img_write m off (img_slice d off n) x = (if off \<le> x \<and> x < off + n then d x else m x)"
  by (auto simp: img_write_def)

interpretation im: byte_store "\<lambda>m. m" img_write cap for cap
  by unfold_locales (simp add: img_write_def)

subsection \<open>Little-endian fields\<close>

lemma unat_byte_less: "unat (b :: byte) < 256"
proof -
  have "unat b < 2 ^ LENGTH(8)" by (rule unsigned_less)
  then show ?thesis by simp
qed

lemma length_le_bytes [simp, le_simps]: "length (le_bytes n v) = n"
  by (induction n arbitrary: v) auto

lemma le_bytes_add: "le_bytes (m + n) v = le_bytes m v @ le_bytes n (v div 256 ^ m)"
  by (induction m arbitrary: v) (auto simp: div_mult2_eq)

lemma le_bytes_2 [le_simps]: "le_bytes 2 v = [of_nat (v mod 256), of_nat (v div 256 mod 256)]"
  unfolding numeral_2_eq_2 by simp

lemma le_bytes_4 [le_simps]: "le_bytes 4 v = le_bytes 2 v @ le_bytes 2 (v div 65536)"
  using le_bytes_add [of 2 2 v] by simp

lemma le_bytes_8 [le_simps]: "le_bytes 8 v = le_bytes 4 v @ le_bytes 4 (v div 4294967296)"
  using le_bytes_add [of 4 4 v] by simp

lemma le_nat_le_bytes [le_simps]: "v < 256 ^ n \<Longrightarrow> le_nat (le_bytes n v) = v"
proof (induction n arbitrary: v)
  case (Suc n)
  then have "v div 256 < 256 ^ n"
    by (simp add: less_mult_imp_div_less mult.commute)
  moreover have "unat (of_nat (v mod 256) :: byte) = v mod 256"
    by (simp add: unat_of_nat)
  ultimately show ?case using Suc.IH by simp
qed simp

lemma le_bytes_le_nat [le_simps]: "le_bytes (length bs) (le_nat bs) = bs"
proof (induction bs)
  case (Cons b bs)
  have lt: "unat b < 256" by (rule unat_byte_less)
  then have "(unat b + 256 * le_nat bs) mod 256 = unat b"
    and "(unat b + 256 * le_nat bs) div 256 = le_nat bs"
    by simp_all
  with Cons show ?case by simp
qed simp

lemma le_nat_less [le_simps]: "le_nat bs < 256 ^ length bs"
proof (induction bs)
  case (Cons b bs)
  have "unat b < 256" by (rule unat_byte_less)
  with Cons show ?case by simp
qed simp

lemma struct_pack_length: "struct_pack ws vs = Inr bs \<Longrightarrow> length bs = sum_list ws"
  by (induction ws vs arbitrary: bs rule: struct_pack.induct)
    (auto simp: bind_result_Inr_iff split: if_splits)

lemma struct_unpack_pack:
  "struct_pack ws vs = Inr bs \<Longrightarrow> struct_unpack ws (bs @ rest) = Inr vs"
  by (induction ws vs arbitrary: bs rule: struct_pack.induct)
    (auto simp: bind_result_Inr_iff le_nat_le_bytes split: if_splits)

lemma struct_unpack_enough:
  "sum_list ws \<le> length bs \<Longrightarrow> \<exists>vs. struct_unpack ws bs = Inr vs \<and> length vs = length ws"
proof (induction ws arbitrary: bs)
  case (Cons w ws)
  then obtain vs where "struct_unpack ws (drop w bs) = Inr vs" "length vs = length ws"
    by (metis add_le_imp_le_diff add.commute length_drop sum_list.Cons)
  with Cons.prems show ?case by auto
qed simp

lemma struct_pack_unpack:
  "struct_unpack ws bs = Inr vs \<Longrightarrow> struct_pack ws vs = Inr (take (sum_list ws) bs)"
proof (induction ws arbitrary: bs vs)
  case (Cons w ws)
  then obtain vs' where vs: "vs = le_nat (take w bs) # vs'" and len: "w \<le> length bs"
    and rest: "struct_unpack ws (drop w bs) = Inr vs'"
    by (auto simp: bind_result_Inr_iff split: if_splits)
  have "le_nat (take w bs) < 256 ^ w" "le_bytes w (le_nat (take w bs)) = take w bs"
    using le_nat_less [of "take w bs"] le_bytes_le_nat [of "take w bs"] len
    by (simp_all add: min_absorb2)
  with Cons.IH [OF rest] vs show ?case by (simp add: take_add)
qed simp

lemma struct_unpack_too_short:
  "length bs < sum_list ws \<Longrightarrow> struct_unpack ws bs = Inl StructError"
proof (induction ws arbitrary: bs)
  case (Cons w ws)
  show ?case
  proof (cases "length bs < w")
    case False
    with Cons.prems have "length (drop w bs) < sum_list ws" by simp
    with False Cons.IH show ?thesis by simp
  qed simp
qed simp

subsection \<open>Files\<close>

lemma os_pwrite_Nil [simp]: "os_pwrite f [] off = f"
  by (simp add: os_pwrite_def)

lemma f_dat_os_pwrite [file_simps]:
  "f_dat (os_pwrite f buf off) = img_write (f_dat f) off (take RW_MAX buf)"
  by (auto simp: os_pwrite_def Let_def RW_MAX_def)

lemma f_dat_os_pwrite_short [file_simps]:
  "length buf \<le> RW_MAX \<Longrightarrow> f_dat (os_pwrite f buf off) = img_write (f_dat f) off buf"
  by (simp add: f_dat_os_pwrite)

lemma f_size_os_pwrite_inside [file_simps]:
  "off + length buf \<le> f_size f \<Longrightarrow> f_size (os_pwrite f buf off) = f_size f"
  by (auto simp: os_pwrite_def Let_def)

lemma f_blk_os_pwrite [file_simps]: "f_blk (os_pwrite f buf off) = f_blk f"
  by (simp add: os_pwrite_def Let_def)

lemma f_alloc_os_pwrite [file_simps]:
  "buf \<noteq> [] \<Longrightarrow> length buf \<le> RW_MAX \<Longrightarrow> f_alloc (os_pwrite f buf off) x \<longleftrightarrow>
    f_alloc f x \<or> (off div f_blk f \<le> x div f_blk f \<and> x div f_blk f \<le> (off + length buf - 1) div f_blk f)"
  by (simp add: os_pwrite_def Let_def RW_MAX_def)

lemma length_os_pread [file_simps]: "length (os_pread f n off) = min (off + n) (f_size f) - off"
  by (simp add: os_pread_def)

lemma os_pread_inside [file_simps]:
  "off + n \<le> f_size f \<Longrightarrow> os_pread f n off = img_slice (f_dat f) off n"
  by (simp add: os_pread_def img_slice_def)

interpretation fs: byte_store f_dat "\<lambda>f off bs. os_pwrite f bs off" RW_MAX
  by unfold_locales (simp add: file_simps img_simps)

lemma wf_file_truncated: "0 < blk \<Longrightarrow> wf_file (os_truncated blk sz)"
  by (simp add: wf_file_def os_truncated_def)

lemma wf_file_os_pwrite: "wf_file f \<Longrightarrow> wf_file (os_pwrite f buf off)"
proof -
  assume wf: "wf_file f"
  let ?b = "take RW_MAX buf"
  show ?thesis
  proof (cases "?b = []")
    case True
    with wf show ?thesis by (simp add: os_pwrite_def)
  next
    case False
    have "x < off + length ?b \<Longrightarrow> x div f_blk f \<le> (off + length ?b - 1) div f_blk f" for x
      by (rule div_le_mono) simp
    with wf False show ?thesis
      by (auto simp: wf_file_def os_pwrite_def Let_def img_write_def div_le_mono max_def
          split: if_splits)
  qed
qed

lemma find_upt_Some_iff:
  "find P [i..<j] = Some k \<longleftrightarrow> i \<le> k \<and> k < j \<and> P k \<and> (\<forall>l. i \<le> l \<and> l < k \<longrightarrow> \<not> P l)"
proof (induction "j - i" arbitrary: i)
  case (Suc n)
  then have lt: "i < j" and IH: "find P [Suc i..<j] = Some k \<longleftrightarrow>
      Suc i \<le> k \<and> k < j \<and> P k \<and> (\<forall>l. Suc i \<le> l \<and> l < k \<longrightarrow> \<not> P l)" by auto
  have split: "(\<forall>l. i \<le> l \<and> l < k \<longrightarrow> \<not> P l) \<longleftrightarrow>
      (i < k \<longrightarrow> \<not> P i) \<and> (\<forall>l. Suc i \<le> l \<and> l < k \<longrightarrow> \<not> P l)"
    by (metis Suc_leD Suc_leI le_less)
  show ?case using lt IH split by (auto simp: upt_conv_Cons le_eq_less_or_eq Suc_le_eq)
qed auto

lemma find_upt_None_iff: "find P [i..<j] = None \<longleftrightarrow> (\<forall>l. i \<le> l \<and> l < j \<longrightarrow> \<not> P l)"
  by (auto simp: find_None_iff)

lemma seek_dataD:
  "seek_data f off = Some d \<Longrightarrow>
    off \<le> d \<and> d < f_size f \<and> f_alloc f d \<and> (\<forall>x. off \<le> x \<and> x < d \<longrightarrow> \<not> f_alloc f x)"
  by (simp add: seek_data_def find_upt_Some_iff)

lemma seek_data_None:
  "seek_data f off = None \<Longrightarrow> off \<le> x \<Longrightarrow> x < f_size f \<Longrightarrow> \<not> f_alloc f x"
  by (simp add: seek_data_def find_upt_None_iff)

lemma seek_holeD:
  assumes "seek_hole f d = Some h" and "f_alloc f d"
  shows "d < h \<and> h \<le> f_size f \<and> (\<forall>x. d \<le> x \<and> x < h \<longrightarrow> f_alloc f x) \<and> (h = f_size f \<or> \<not> f_alloc f h)"
  using assms
  by (auto simp: seek_hole_def find_upt_Some_iff find_upt_None_iff
      split: if_splits option.splits)

lemma seek_hole_Some: "d < f_size f \<Longrightarrow> \<exists>h. seek_hole f d = Some h"
  by (auto simp: seek_hole_def split: option.splits)

end
