(* ===== verification/Dmcdp.thy ===== *)
theory Dmcdp
  imports Cdp_Prelude
begin

text \<open>
  The record and ioctl ABI of the dm-cdp target as \<^verbatim>\<open>rkcdp/dmcdp.py\<close> reads it: the record
  header (\<^verbatim>\<open>REC_FMT\<close>), \<^verbatim>\<open>Rec\<close>, \<^verbatim>\<open>pack_rec\<close>, the generator \<^verbatim>\<open>iter_records\<close>, the status
  structure, \<^verbatim>\<open>read_bitmap\<close> and the run extraction \<^verbatim>\<open>bitmap_extents\<close>.

  A generator is modelled by the list of what it yields together with how it ends. The loop
  of \<^verbatim>\<open>iter_records\<close> advances by the record length found in the header, so a header that
  claims length 0 makes it yield the same record for ever; the model runs on fuel, one unit
  per yielded record, and \<open>iter_records\<close> gives it as many as the buffer has bytes. Running
  out is then exactly the endless loop, and a stream of records that carry their own length
  never runs out.
\<close>

unbundle bit_operations_syntax

subsection \<open>Constants\<close>

definition REC_MAGIC :: nat where "REC_MAGIC = 0x52504443"
definition ABI_VERSION :: nat where "ABI_VERSION = 1"
definition REC_WRITE :: nat where "REC_WRITE = 1"
definition REC_FLUSH :: nat where "REC_FLUSH = 2"
definition REC_DISCARD :: nat where "REC_DISCARD = 3"
definition REC_ZERO :: nat where "REC_ZERO = 4"
definition REC_PAD :: nat where "REC_PAD = 5"
definition F_FUA :: nat where "F_FUA = 1"
definition F_PREFLUSH :: nat where "F_PREFLUSH = 2"
definition F_ERROR :: nat where "F_ERROR = 4"
definition F_GAP_BEFORE :: nat where "F_GAP_BEFORE = 8"
definition S_OVERFLOWED :: nat where "S_OVERFLOWED = 1"
definition S_DEAD :: nat where "S_DEAD = 2"
definition BM_CLEAR :: nat where "BM_CLEAR = 1"

definition REC_FMT :: "nat list" where
  "REC_FMT = [4, 2, 2, 4, 4, 8, 8, 4, 4, 8, 8]"

definition REC_SIZE :: nat where "REC_SIZE = 56"

definition STATUS_FMT :: "nat list" where
  "STATUS_FMT = [4, 4, 8, 4, 4, 8, 8, 8, 8, 8, 8, 8, 8, 8, 8, 8, 8, 8]"

definition STATUS_SIZE :: nat where "STATUS_SIZE = 128"

definition IOC_STATUS :: nat where "IOC_STATUS = 0x8080CD01"
definition IOC_BITMAP :: nat where "IOC_BITMAP = 0xC018CD02"
definition IOC_BITMAP_CLEAR :: nat where "IOC_BITMAP_CLEAR = 0xCD03"
definition IOC_RESET_STATS :: nat where "IOC_RESET_STATS = 0xCD04"

text \<open>The numbers the C header builds with \<^verbatim>\<open>_IOC(dir, type, nr, size)\<close>.\<close>

definition linux_ioc :: "nat \<Rightarrow> nat \<Rightarrow> nat \<Rightarrow> nat \<Rightarrow> nat" where
  "linux_ioc dir typ nr sz = dir * 2 ^ 30 + sz * 2 ^ 16 + typ * 2 ^ 8 + nr"

subsection \<open>Records\<close>

record cdp_rec =
  r_magic :: nat
  r_version :: nat
  r_type :: nat
  r_flags :: nat
  r_state :: nat
  r_seq :: nat
  r_sector :: nat
  r_len :: nat
  r_rec_len :: nat
  r_ts_ns :: nat
  r_reserved :: nat

type_synonym entry = "cdp_rec \<times> bytes"

fun rec_of_fields :: "nat list \<Rightarrow> cdp_rec result" where
  "rec_of_fields [a, b, c, d, e, f, g, h, i, j, k] =
     Inr \<lparr>r_magic = a, r_version = b, r_type = c, r_flags = d, r_state = e, r_seq = f,
          r_sector = g, r_len = h, r_rec_len = i, r_ts_ns = j, r_reserved = k\<rparr>"
| "rec_of_fields _ = Inl StructError"

text \<open>\<^verbatim>\<open>Rec.__init__\<close>: unpack the header at \<open>off\<close>, refuse a wrong magic.\<close>

definition Rec :: "bytes \<Rightarrow> nat \<Rightarrow> cdp_rec result" where
  "Rec buf off =
     bind_result (struct_unpack REC_FMT (drop off buf)) (\<lambda>vs.
     bind_result (rec_of_fields vs) (\<lambda>r.
       if r_magic r \<noteq> REC_MAGIC then Inl (ValueError off) else Inr r))"

definition payload_len :: "cdp_rec \<Rightarrow> int" where
  "payload_len r = int (r_rec_len r) - int REC_SIZE"

text \<open>\<^verbatim>\<open>(REC_SIZE + len(payload) + 7) & ~7\<close>.\<close>

definition aligned_len :: "nat \<Rightarrow> nat" where
  "aligned_len n = nat ((int n + 7) AND NOT 7)"

definition pack_rec ::
  "nat \<Rightarrow> nat \<Rightarrow> nat \<Rightarrow> nat \<Rightarrow> nat \<Rightarrow> nat \<Rightarrow> bytes \<Rightarrow> bytes result" where
  "pack_rec rtype flags seqno sector len ts_ns payload =
     (let rec_len = aligned_len (REC_SIZE + length payload) in
      bind_result (struct_pack REC_FMT
        [REC_MAGIC, ABI_VERSION, rtype, flags, 2, seqno, sector, len, rec_len, ts_ns, 0])
      (\<lambda>hdr. Inr (hdr @ payload @ replicate (rec_len - REC_SIZE - length payload) 0)))"

subsection \<open>The record stream\<close>

text \<open>How a generator ends: it returns the bytes consumed, or raises.\<close>

datatype gen_end = GReturn nat | GRaise py_error

text \<open>The bytes of a memoryview slice \<^verbatim>\<open>mv[a:b]\<close>, clipped to the buffer.\<close>

definition slice :: "bytes \<Rightarrow> nat \<Rightarrow> nat \<Rightarrow> bytes" where
  "slice buf a b = take (b - a) (drop a buf)"

definition rec_payload :: "bytes \<Rightarrow> nat \<Rightarrow> cdp_rec \<Rightarrow> bytes" where
  "rec_payload buf off r =
     slice buf (off + REC_SIZE) (off + REC_SIZE + (if r_type r = REC_WRITE then r_len r else 0))"

fun iter_from :: "nat \<Rightarrow> bytes \<Rightarrow> nat \<Rightarrow> (entry list \<times> gen_end) option" where
  "iter_from fuel buf off =
     (if off + REC_SIZE \<le> length buf then
        (case Rec buf off of
           Inl e \<Rightarrow> Some ([], GRaise e)
         | Inr r \<Rightarrow>
             if off + r_rec_len r > length buf then Some ([], GReturn off)
             else (case fuel of
                 0 \<Rightarrow> None
               | Suc n \<Rightarrow> (case iter_from n buf (off + r_rec_len r) of
                     None \<Rightarrow> None
                   | Some (es, e) \<Rightarrow> Some ((r, rec_payload buf off r) # es, e))))
      else Some ([], GReturn off))"

declare iter_from.simps [simp del]

text \<open>\<open>None\<close>: the generator never ends.\<close>

definition iter_records :: "bytes \<Rightarrow> (entry list \<times> gen_end) option" where
  "iter_records buf = iter_from (length buf) buf 0"

subsection \<open>Status and bitmap\<close>

record cdp_status =
  s_abi_version :: nat
  s_flags :: nat
  s_dev_sectors :: nat
  s_chunk_sectors :: nat
  s_minor :: nat
  s_bitmap_bits :: nat
  s_bitmap_bytes :: nat
  s_bitmap_set :: nat
  s_ring_size :: nat
  s_ring_used :: nat
  s_seq_next :: nat
  s_records :: nat
  s_bytes_logged :: nat
  s_overflows :: nat

text \<open>\<^verbatim>\<open>dict(zip(STATUS_FIELDS, vals))\<close>: 14 names for 18 values, the reserved tail is dropped.\<close>

fun status_of_fields :: "nat list \<Rightarrow> cdp_status result" where
  "status_of_fields (a # b # c # d # e # f # g # h # i # j # k # l # m # n # _) =
     Inr \<lparr>s_abi_version = a, s_flags = b, s_dev_sectors = c, s_chunk_sectors = d, s_minor = e,
          s_bitmap_bits = f, s_bitmap_bytes = g, s_bitmap_set = h, s_ring_size = i,
          s_ring_used = j, s_seq_next = k, s_records = l, s_bytes_logged = m, s_overflows = n\<rparr>"
| "status_of_fields _ = Inl StructError"

text \<open>\<^verbatim>\<open>status(fd)\<close>, from the bytes the kernel's \<^verbatim>\<open>DM_CDP_IOC_STATUS\<close> fills the buffer with.\<close>

definition status :: "bytes \<Rightarrow> cdp_status result" where
  "status buf = (if length buf \<noteq> STATUS_SIZE then Inl StructError
                 else bind_result (struct_unpack STATUS_FMT buf) status_of_fields)"

text \<open>\<^verbatim>\<open>(bm[i >> 3] >> (i & 7)) & 1\<close>, or an \<^verbatim>\<open>IndexError\<close>.\<close>

definition bm_bit :: "bytes \<Rightarrow> nat \<Rightarrow> bool result" where
  "bm_bit bm i =
     (if i div 8 < length bm then Inr (drop_bit (i mod 8) (bm ! (i div 8)) AND 1 \<noteq> 0)
      else Inl IndexError)"

text \<open>The loop of \<^verbatim>\<open>bitmap_extents\<close> over the indices still to visit; \<open>start\<close> is the local
  variable. What was yielded before an \<^verbatim>\<open>IndexError\<close> is lost to the caller, which
  collects the generator with \<^verbatim>\<open>list\<close>.\<close>

fun extents_loop :: "bytes \<Rightarrow> nat \<Rightarrow> nat \<Rightarrow> nat list \<Rightarrow> nat option \<Rightarrow> (nat \<times> nat) list result" where
  "extents_loop bm chunk_sectors nbits [] start = Inr []"
| "extents_loop bm chunk_sectors nbits (i # is) start =
     bind_result (if i < nbits then bm_bit bm i else Inr False) (\<lambda>bit.
       (case start of
          None \<Rightarrow> extents_loop bm chunk_sectors nbits is (if bit then Some i else None)
        | Some s \<Rightarrow>
            if bit then extents_loop bm chunk_sectors nbits is (Some s)
            else bind_result (extents_loop bm chunk_sectors nbits is None)
                   (\<lambda>es. Inr ((s * chunk_sectors, (i - s) * chunk_sectors) # es))))"

definition bitmap_extents :: "bytes \<Rightarrow> nat \<Rightarrow> nat \<Rightarrow> (nat \<times> nat) list result" where
  "bitmap_extents bm chunk_sectors nbits = extents_loop bm chunk_sectors nbits [0..<nbits + 1] None"

text \<open>\<^verbatim>\<open>read_bitmap\<close>: the answer to the bitmap ioctl (\<open>bm\<close>, of the length the status asked for)
  with the geometry from the status. The kernel refuses a buffer that is too small.\<close>

definition read_bitmap :: "bytes \<Rightarrow> (nat \<Rightarrow> nat \<Rightarrow> bytes result) \<Rightarrow> bool \<Rightarrow> (bytes \<times> nat \<times> nat) result" where
  "read_bitmap st_buf ioctl_bitmap clear =
     bind_result (status st_buf) (\<lambda>st.
     bind_result (ioctl_bitmap (s_bitmap_bytes st) (if clear then BM_CLEAR else 0)) (\<lambda>bm.
       Inr (bm, s_chunk_sectors st, s_bitmap_bits st)))"

subsection \<open>Sizes and numbers\<close>

lemma REC_FMT_size [simp]: "sum_list REC_FMT = REC_SIZE"
  by (simp add: REC_FMT_def REC_SIZE_def)

lemma STATUS_FMT_size [simp]: "sum_list STATUS_FMT = STATUS_SIZE"
  by (simp add: STATUS_FMT_def STATUS_SIZE_def)

lemma ioctl_numbers:
  "IOC_STATUS = linux_ioc 2 0xCD 1 STATUS_SIZE" "IOC_BITMAP = linux_ioc 3 0xCD 2 24"
  "IOC_BITMAP_CLEAR = linux_ioc 0 0xCD 3 0" "IOC_RESET_STATS = linux_ioc 0 0xCD 4 0"
  by (simp_all add: IOC_STATUS_def IOC_BITMAP_def IOC_BITMAP_CLEAR_def IOC_RESET_STATS_def
      linux_ioc_def STATUS_SIZE_def)

lemma int_and_not_7: "(x :: int) AND NOT 7 = 8 * (x div 8)"
proof -
  have "x AND NOT (mask 3) = push_bit 3 (drop_bit 3 x)"
    by (rule bit_eqI) (auto simp: bit_simps)
  then show ?thesis
    by (simp add: push_bit_eq_mult drop_bit_eq_div mask_eq_exp_minus_1 mult.commute)
qed

lemma aligned_len_eq: "aligned_len n = 8 * ((n + 7) div 8)"
proof -
  have "int n + 7 = int (n + 7)" by simp
  then show ?thesis
    unfolding aligned_len_def int_and_not_7
    by (metis nat_int of_nat_mult of_nat_numeral zdiv_int)
qed

lemma aligned_len_bounds: "n \<le> aligned_len n" "aligned_len n \<le> n + 7" "8 dvd aligned_len n"
  by (auto simp: aligned_len_eq)

subsection \<open>Packing and unpacking one record\<close>

text \<open>The records the kernel hands over: every field in range, the payload of a write has the
  announced length, nothing else carries a payload, and the record length is the aligned one.\<close>

definition wf_entry :: "entry \<Rightarrow> bool" where
  "wf_entry = (\<lambda>(r, p).
     r_magic r = REC_MAGIC \<and> r_version r = ABI_VERSION \<and> r_type r < 2 ^ 16 \<and>
     r_flags r < 2 ^ 32 \<and> r_state r = 2 \<and> r_seq r < 2 ^ 64 \<and> r_sector r < 2 ^ 64 \<and>
     r_len r < 2 ^ 32 \<and> r_rec_len r < 2 ^ 32 \<and> r_ts_ns r < 2 ^ 64 \<and> r_reserved r = 0 \<and>
     r_rec_len r = aligned_len (REC_SIZE + length p) \<and>
     length p = (if r_type r = REC_WRITE then r_len r else 0))"

definition packed :: "entry \<Rightarrow> bytes \<Rightarrow> bool" where
  "packed = (\<lambda>(r, p) bs.
     pack_rec (r_type r) (r_flags r) (r_seq r) (r_sector r) (r_len r) (r_ts_ns r) p = Inr bs)"

lemma pack_rec_ok: "wf_entry (r, p) \<Longrightarrow> \<exists>bs. packed (r, p) bs"
  by (auto simp: wf_entry_def packed_def pack_rec_def Let_def REC_FMT_def REC_MAGIC_def
      ABI_VERSION_def bind_result_def)

lemma pack_rec_too_big:
  "2 ^ 32 \<le> aligned_len (REC_SIZE + length p) \<Longrightarrow> pack_rec t fl sq sec l ts p = Inl StructError"
  by (simp add: pack_rec_def Let_def REC_FMT_def bind_result_def)

lemma pack_rec_length: "pack_rec t fl sq sec l ts p = Inr bs \<Longrightarrow> length bs = aligned_len (REC_SIZE + length p)"
  using aligned_len_bounds(1) [of "REC_SIZE + length p"]
  by (auto simp: pack_rec_def Let_def bind_result_Inr_iff dest!: struct_pack_length)

lemma packed_length: "wf_entry e \<Longrightarrow> packed e bs \<Longrightarrow> length bs = r_rec_len (fst e)"
  by (auto simp: wf_entry_def packed_def dest!: pack_rec_length split: prod.splits)

lemma wf_entry_rec_len: "wf_entry (r, p) \<Longrightarrow> REC_SIZE + length p \<le> r_rec_len r"
  using aligned_len_bounds(1) [of "REC_SIZE + length p"] by (simp add: wf_entry_def)

lemma Rec_packed:
  assumes "wf_entry (r, p)" and "packed (r, p) bs"
  shows "Rec (xs @ bs @ rest) (length xs) = Inr r"
proof -
  obtain hdr pad where hdr: "struct_pack REC_FMT
      [REC_MAGIC, ABI_VERSION, r_type r, r_flags r, 2, r_seq r, r_sector r, r_len r,
       aligned_len (REC_SIZE + length p), r_ts_ns r, 0] = Inr hdr" and "bs = hdr @ p @ pad"
    using assms(2) by (auto simp: packed_def pack_rec_def Let_def bind_result_Inr_iff)
  with assms(1) show ?thesis
    by (simp add: Rec_def struct_unpack_pack wf_entry_def)
qed

lemma payload_packed:
  assumes "wf_entry (r, p)" and "packed (r, p) bs"
  shows "rec_payload (xs @ bs @ rest) (length xs) r = p"
proof -
  obtain hdr pad where "struct_pack REC_FMT
      [REC_MAGIC, ABI_VERSION, r_type r, r_flags r, 2, r_seq r, r_sector r, r_len r,
       aligned_len (REC_SIZE + length p), r_ts_ns r, 0] = Inr hdr" and bs: "bs = hdr @ p @ pad"
    using assms(2) by (auto simp: packed_def pack_rec_def Let_def bind_result_Inr_iff)
  then have "length hdr = REC_SIZE" by (auto dest: struct_pack_length)
  with assms(1) bs show ?thesis
    by (auto simp: rec_payload_def slice_def wf_entry_def split: if_splits)
qed

subsection \<open>The stream\<close>

definition incomplete :: "bytes \<Rightarrow> bool" where
  "incomplete t \<longleftrightarrow> length t < REC_SIZE \<or>
     (\<exists>r. Rec t 0 = Inr r \<and> length t < r_rec_len r)"

fun shift_end :: "nat \<Rightarrow> gen_end \<Rightarrow> gen_end" where
  "shift_end k (GReturn n) = GReturn (k + n)"
| "shift_end k (GRaise (ValueError n)) = GRaise (ValueError (k + n))"
| "shift_end k (GRaise e) = GRaise e"

lemma rec_of_fields_error: "rec_of_fields vs = Inl e \<Longrightarrow> e = StructError"
  by (induction vs rule: rec_of_fields.induct) auto

lemma rec_of_fields_11: "length vs = 11 \<Longrightarrow> \<exists>r. rec_of_fields vs = Inr r"
  by (induction vs rule: rec_of_fields.induct) simp_all

lemma struct_unpack_error: "struct_unpack ws bs = Inl e \<Longrightarrow> e = StructError"
  by (induction ws arbitrary: bs) (auto simp: bind_result_def split: if_splits sum.splits)

lemma Rec_shift:
  "Rec (xs @ buf) (length xs + off) =
    (case Rec buf off of Inl (ValueError n) \<Rightarrow> Inl (ValueError (length xs + n)) | x \<Rightarrow> x)"
  by (auto simp: Rec_def bind_result_def split: sum.splits py_error.splits
      dest: rec_of_fields_error struct_unpack_error)

lemma Rec_append:
  assumes "off + REC_SIZE \<le> length a"
  shows "Rec (a @ b) off = Rec a off"
proof -
  from assms have "sum_list REC_FMT \<le> length (drop off a)" by simp
  then obtain vs where vs: "struct_unpack REC_FMT (drop off a) = Inr vs"
    using struct_unpack_enough by blast
  then have "struct_pack REC_FMT vs = Inr (take REC_SIZE (drop off a))"
    by (auto dest: struct_pack_unpack)
  then have "struct_unpack REC_FMT (take REC_SIZE (drop off a) @ drop REC_SIZE (drop off a) @ b) = Inr vs"
    by (rule struct_unpack_pack)
  then have "struct_unpack REC_FMT (drop off (a @ b)) = Inr vs"
    using assms by (simp flip: append_assoc drop_drop)
  with vs show ?thesis by (simp add: Rec_def)
qed

lemma Rec_no_struct_error: "off + REC_SIZE \<le> length buf \<Longrightarrow> Rec buf off = Inl e \<Longrightarrow> e = ValueError off"
proof -
  assume len: "off + REC_SIZE \<le> length buf" and err: "Rec buf off = Inl e"
  from len have "sum_list REC_FMT \<le> length (drop off buf)" by simp
  then obtain vs where vs: "struct_unpack REC_FMT (drop off buf) = Inr vs"
      "length vs = length REC_FMT"
    using struct_unpack_enough by blast
  then have "length vs = 11" by (simp only:) (simp add: REC_FMT_def)
  then obtain r where "rec_of_fields vs = Inr r"
    using rec_of_fields_11 by blast
  with vs(1) err show ?thesis by (auto simp: Rec_def split: if_splits)
qed

text \<open>One turn of the loop, case by case.\<close>

lemma iter_turn_cases:
  obtains (stop) "length buf < off + REC_SIZE"
  | (bad) "off + REC_SIZE \<le> length buf" "Rec buf off = Inl (ValueError off)"
  | (partial) r where "off + REC_SIZE \<le> length buf" "Rec buf off = Inr r" "length buf < off + r_rec_len r"
  | (yield) r where "off + REC_SIZE \<le> length buf" "Rec buf off = Inr r" "off + r_rec_len r \<le> length buf"
  using Rec_no_struct_error [of off buf] by (cases "Rec buf off") (fastforce simp: not_le)+

lemma iter_from_stop:
  "length buf < off + REC_SIZE \<Longrightarrow> iter_from n buf off = Some ([], GReturn off)"
  by (subst iter_from.simps) simp

lemma iter_from_bad:
  "off + REC_SIZE \<le> length buf \<Longrightarrow> Rec buf off = Inl e \<Longrightarrow> iter_from n buf off = Some ([], GRaise e)"
  by (subst iter_from.simps) simp

lemma iter_from_partial:
  "off + REC_SIZE \<le> length buf \<Longrightarrow> Rec buf off = Inr r \<Longrightarrow> length buf < off + r_rec_len r \<Longrightarrow>
    iter_from n buf off = Some ([], GReturn off)"
  by (subst iter_from.simps) simp

lemma case_option_map_prod:
  "(case m of None \<Rightarrow> None | Some (es, e) \<Rightarrow> Some (f es, e)) = map_option (apfst f) m"
  by (cases m) (auto simp: case_prod_beta)

lemma iter_from_yield:
  "off + REC_SIZE \<le> length buf \<Longrightarrow> Rec buf off = Inr r \<Longrightarrow> off + r_rec_len r \<le> length buf \<Longrightarrow>
    iter_from n buf off =
      (case n of 0 \<Rightarrow> None
       | Suc k \<Rightarrow> map_option (apfst ((#) (r, rec_payload buf off r)))
           (iter_from k buf (off + r_rec_len r)))"
  by (subst iter_from.simps) (simp add: case_option_map_prod split: nat.split)

lemmas iter_from_turn = iter_from_stop iter_from_bad iter_from_partial iter_from_yield

lemma iter_from_mono:
  "iter_from n buf off = Some x \<Longrightarrow> n \<le> m \<Longrightarrow> iter_from m buf off = Some x"
proof (induction n arbitrary: m off x)
  case 0
  show ?case
  proof (cases rule: iter_turn_cases [of buf off])
    case (yield r)
    with 0 show ?thesis by (simp add: iter_from_yield [OF yield])
  qed (use 0 in \<open>simp_all add: iter_from_turn(1-3)\<close>)
next
  case (Suc n)
  from Suc.prems(2) obtain k where m: "m = Suc k" "n \<le> k" by (cases m) auto
  show ?case
  proof (cases rule: iter_turn_cases [of buf off])
    case (yield r)
    from Suc.prems(1) obtain y where y: "iter_from n buf (off + r_rec_len r) = Some y"
        "x = apfst ((#) (r, rec_payload buf off r)) y"
      by (auto simp: iter_from_yield [OF yield])
    with Suc.IH [OF y(1) m(2)] show ?thesis
      by (simp add: iter_from_yield [OF yield] m(1))
  qed (use Suc.prems in \<open>simp_all add: iter_from_turn(1-3)\<close>)
qed

lemma iter_from_shift:
  "iter_from n (xs @ buf) (length xs + off) =
    map_option (map_prod id (shift_end (length xs))) (iter_from n buf off)"
proof (induction n arbitrary: off)
  case 0
  show ?case
    by (rule iter_turn_cases [of buf off]) (simp_all add: iter_from_turn Rec_shift)
next
  case (Suc n)
  have pay: "rec_payload (xs @ buf) (length xs + off) r = rec_payload buf off r" for r
    by (simp add: rec_payload_def slice_def add.assoc)
  show ?case
    by (rule iter_turn_cases [of buf off])
      (simp_all add: iter_from_turn Rec_shift pay add.assoc Suc.IH option.map_comp comp_def
        apfst_def map_prod_def case_prod_beta)
qed

lemma iter_from_consumed:
  "iter_from n buf off = Some (es, GReturn k) \<Longrightarrow>
    k = off + sum_list (map (r_rec_len \<circ> fst) es) \<and> (off \<le> length buf \<longrightarrow> k \<le> length buf)"
proof (induction n arbitrary: off es)
  case 0
  show ?case
  proof (cases rule: iter_turn_cases [of buf off])
    case (yield r)
    with 0 show ?thesis by (simp add: iter_from_yield [OF yield])
  qed (use 0 in \<open>simp_all add: iter_from_turn(1-3)\<close>)
next
  case (Suc n)
  show ?case
  proof (cases rule: iter_turn_cases [of buf off])
    case (yield r)
    with Suc.prems Suc.IH [of "off + r_rec_len r"] show ?thesis
      by (auto simp: iter_from_yield [OF yield])
  qed (use Suc.prems in \<open>simp_all add: iter_from_turn(1-3)\<close>)
qed

text \<open>A header of length 0 is yielded again and again; nothing else keeps the loop going.\<close>

lemma iter_from_zero_len:
  assumes "off + REC_SIZE \<le> length buf" "Rec buf off = Inr r" "r_rec_len r = 0"
  shows "iter_from m buf off = None"
proof (induction m)
  case (Suc m)
  with assms show ?case using iter_from_yield [of off buf r "Suc m"] by simp
qed (use assms iter_from_yield [of off buf r 0] in simp)

lemma iter_from_exhausted:
  "iter_from n buf off = None \<Longrightarrow> length buf - off \<le> n \<Longrightarrow> iter_from m buf off = None"
proof (induction n arbitrary: off m)
  case 0
  then show ?case by (simp add: iter_from_stop REC_SIZE_def)
next
  case (Suc n)
  show ?case
  proof (cases rule: iter_turn_cases [of buf off])
    case (yield r)
    show ?thesis
    proof (cases "r_rec_len r = 0")
      case True
      with yield show ?thesis by (simp add: iter_from_zero_len)
    next
      case False
      with Suc.prems(2) have "length buf - (off + r_rec_len r) \<le> n" by simp
      moreover from Suc.prems(1) have "iter_from n buf (off + r_rec_len r) = None"
        by (simp add: iter_from_yield [OF yield])
      ultimately have "iter_from k buf (off + r_rec_len r) = None" for k
        using Suc.IH by blast
      then show ?thesis by (simp add: iter_from_yield [OF yield] split: nat.split)
    qed
  qed (use Suc.prems in \<open>simp_all add: iter_from_turn(1-3)\<close>)
qed

lemma iter_records_any_fuel: "iter_from n buf 0 = Some x \<Longrightarrow> iter_records buf = Some x"
proof -
  assume n: "iter_from n buf 0 = Some x"
  then obtain y where y: "iter_from (length buf) buf 0 = Some y"
    using iter_from_exhausted [of "length buf" buf 0 n] by (cases "iter_from (length buf) buf 0") simp_all
  have "iter_from (max n (length buf)) buf 0 = Some x" by (rule iter_from_mono [OF n]) simp
  moreover have "iter_from (max n (length buf)) buf 0 = Some y" by (rule iter_from_mono [OF y]) simp
  ultimately show ?thesis using y by (simp add: iter_records_def)
qed

text \<open>Payloads that stay inside their record do not depend on what follows in the buffer.\<close>

definition inside :: "entry list \<Rightarrow> bool" where
  "inside es \<longleftrightarrow> list_all (\<lambda>(r, p). r_type r = REC_WRITE \<longrightarrow> REC_SIZE + r_len r \<le> r_rec_len r) es"

lemma rec_payload_append:
  assumes "off + REC_SIZE \<le> length a" "off + r_rec_len r \<le> length a"
    and "r_type r = REC_WRITE \<longrightarrow> REC_SIZE + r_len r \<le> r_rec_len r"
  shows "rec_payload (a @ b) off r = rec_payload a off r"
  using assms by (auto simp: rec_payload_def slice_def)

lemma iter_from_append:
  assumes "iter_from n a off = Some (es, GReturn k)" and "inside es"
    and "iter_from m (a @ b) k = Some (es', e)"
  shows "iter_from (n + m) (a @ b) off = Some (es @ es', e)"
  using assms(1,2)
proof (induction n arbitrary: off es)
  case 0
  show ?case
  proof (cases rule: iter_turn_cases [of a off])
    case (yield r)
    with 0 show ?thesis by (simp add: iter_from_yield [OF yield])
  qed (use 0 assms(3) in \<open>simp_all add: iter_from_turn(1-3)\<close>)
next
  case (Suc n)
  show ?case
  proof (cases rule: iter_turn_cases [of a off])
    case (yield r)
    from Suc.prems obtain es1 where es1: "iter_from n a (off + r_rec_len r) = Some (es1, GReturn k)"
        "es = (r, rec_payload a off r) # es1" "inside es1"
        "r_type r = REC_WRITE \<longrightarrow> REC_SIZE + r_len r \<le> r_rec_len r"
      by (auto simp: iter_from_yield [OF yield] inside_def)
    from yield have turn: "off + REC_SIZE \<le> length (a @ b)" "Rec (a @ b) off = Inr r"
        "off + r_rec_len r \<le> length (a @ b)"
      by (simp_all add: Rec_append)
    show ?thesis
      using Suc.IH [OF es1(1,3)] rec_payload_append [OF yield(1,3) es1(4)]
      by (simp add: iter_from_yield [OF turn] es1(2))
  qed (use Suc.prems assms(3) in \<open>auto simp: iter_from_turn(1-3) intro: iter_from_mono\<close>)
qed

lemma iter_records_append:
  assumes a: "iter_records a = Some (es, GReturn k)" and ins: "inside es"
    and b: "iter_records (drop k a @ b) = Some (es', e)"
  shows "iter_records (a @ b) = Some (es @ es', shift_end k e)"
proof -
  let ?m = "length (drop k a @ b)"
  have k: "k \<le> length a" using a iter_from_consumed [of _ a 0] by (auto simp: iter_records_def)
  have "iter_from ?m (take k a @ (drop k a @ b)) (length (take k a) + 0) = Some (es', shift_end k e)"
    using b k by (simp only: iter_from_shift iter_records_def) simp
  then have "iter_from ?m (a @ b) k = Some (es', shift_end k e)"
    using k by (simp flip: append_assoc)
  with a ins have "iter_from (length a + ?m) (a @ b) 0 = Some (es @ es', shift_end k e)"
    by (intro iter_from_append) (auto simp: iter_records_def)
  then show ?thesis by (rule iter_records_any_fuel)
qed

text \<open>Conversely, any first part of a buffer gives the first of its records.\<close>

lemma iter_from_prefix:
  "iter_from n (a @ b) off = Some (es, GReturn k) \<Longrightarrow> inside es \<Longrightarrow>
    \<exists>es1 es2 j. iter_from n a off = Some (es1, GReturn j) \<and> es = es1 @ es2 \<and>
      iter_from n (a @ b) j = Some (es2, GReturn k)"
proof (induction n arbitrary: off es)
  case 0
  show ?case
  proof (cases rule: iter_turn_cases [of a off])
    case bad
    with 0 show ?thesis by (simp add: iter_from_bad Rec_append)
  next
    case (yield r)
    then have turn: "off + REC_SIZE \<le> length (a @ b)" "Rec (a @ b) off = Inr r"
        "off + r_rec_len r \<le> length (a @ b)"
      by (simp_all add: Rec_append)
    with 0 show ?thesis by (simp add: iter_from_yield [OF turn])
  qed (use 0 in \<open>simp_all add: iter_from_turn(1-3)\<close>)
next
  case (Suc n)
  show ?case
  proof (cases rule: iter_turn_cases [of a off])
    case bad
    with Suc.prems show ?thesis by (simp add: iter_from_bad Rec_append)
  next
    case (yield r)
    then have turn: "off + REC_SIZE \<le> length (a @ b)" "Rec (a @ b) off = Inr r"
        "off + r_rec_len r \<le> length (a @ b)"
      by (simp_all add: Rec_append)
    from Suc.prems(1) obtain rest where
      rest: "es = (r, rec_payload (a @ b) off r) # rest"
        "iter_from n (a @ b) (off + r_rec_len r) = Some (rest, GReturn k)"
      by (auto simp: iter_from_yield [OF turn])
    with Suc.prems(2) have ins: "inside rest" "r_type r = REC_WRITE \<longrightarrow> REC_SIZE + r_len r \<le> r_rec_len r"
      by (auto simp: inside_def)
    from Suc.IH [OF rest(2) ins(1)] obtain es1 es2 j where
      IH: "iter_from n a (off + r_rec_len r) = Some (es1, GReturn j)" "rest = es1 @ es2"
        "iter_from n (a @ b) j = Some (es2, GReturn k)" by blast
    have "iter_from (Suc n) a off = Some ((r, rec_payload a off r) # es1, GReturn j)"
      by (simp add: iter_from_yield [OF yield] IH(1))
    moreover have "iter_from (Suc n) (a @ b) j = Some (es2, GReturn k)"
      by (rule iter_from_mono [OF IH(3)]) simp
    ultimately show ?thesis
      using rest(1) IH(2) rec_payload_append [OF yield(1,3) ins(2)] by auto
  qed (use Suc.prems in \<open>simp_all add: iter_from_turn(1-3)\<close>)
qed

lemma iter_records_prefix:
  assumes "iter_records (a @ b) = Some (es, GReturn k)" and "inside es"
  obtains es1 es2 j where "iter_records a = Some (es1, GReturn j)" "es = es1 @ es2" "j \<le> k" "j \<le> length a"
    "iter_records (drop j a @ b) = Some (es2, GReturn (k - j))"
proof -
  obtain es1 es2 j where j: "iter_from (length (a @ b)) a 0 = Some (es1, GReturn j)" "es = es1 @ es2"
      "iter_from (length (a @ b)) (a @ b) j = Some (es2, GReturn k)"
    using iter_from_prefix [of "length (a @ b)" a b 0] assms by (auto simp: iter_records_def)
  have len: "j \<le> length a" using iter_from_consumed [OF j(1)] by simp
  have jk: "j \<le> k" using iter_from_consumed [OF j(3)] by simp
  have "iter_from (length (a @ b)) (take j a @ (drop j a @ b)) (length (take j a) + 0) = Some (es2, GReturn k)"
    using j(3) len by (simp flip: append_assoc)
  then obtain e where e: "iter_from (length (a @ b)) (drop j a @ b) 0 = Some (es2, e)"
      "shift_end j e = GReturn k"
    using len by (simp only: iter_from_shift) auto
  then have "e = GReturn (k - j)" using jk by (cases "(j, e)" rule: shift_end.cases) auto
  with e(1) have "iter_records (drop j a @ b) = Some (es2, GReturn (k - j))"
    by (intro iter_records_any_fuel) simp
  with that iter_records_any_fuel [OF j(1)] j(2) jk len show thesis by blast
qed

lemma iter_from_incomplete:
  assumes "incomplete t"
  shows "iter_from n (xs @ t) (length xs) = Some ([], GReturn (length xs))"
proof -
  have "iter_from n t 0 = Some ([], GReturn 0)"
  proof (cases "length t < REC_SIZE")
    case True
    then show ?thesis by (simp add: iter_from_stop)
  next
    case False
    with assms obtain r where "Rec t 0 = Inr r" "length t < r_rec_len r"
      by (auto simp: incomplete_def)
    with False show ?thesis by (intro iter_from_partial) auto
  qed
  then show ?thesis using iter_from_shift [of n xs t 0] by simp
qed

lemma incomplete_prefix:
  assumes "wf_entry e" "packed e bs" "k < length bs"
  shows "incomplete (take k bs)"
proof (cases "k < REC_SIZE")
  case True
  then show ?thesis by (auto simp: incomplete_def min_def)
next
  case False
  obtain r p where e: "e = (r, p)" by (cases e)
  have "Rec (take k bs @ drop k bs) 0 = Rec (take k bs) 0"
    using False assms(3) by (intro Rec_append) simp
  then have "Rec (take k bs) 0 = Inr r"
    using Rec_packed [of r p bs "[]" "[]"] assms e by simp
  with assms e packed_length [of e bs] show ?thesis by (simp add: incomplete_def)
qed

lemma iter_from_stream:
  assumes "list_all2 packed es bss" and "list_all wf_entry es" and "incomplete t"
  shows "iter_from (length es) (xs @ concat bss @ t) (length xs) =
    Some (es, GReturn (length xs + length (concat bss)))"
  using assms(1,2)
proof (induction es bss arbitrary: xs rule: list_all2_induct)
  case Nil
  with assms(3) show ?case by (simp add: iter_from_incomplete)
next
  case (Cons e es bs bss)
  obtain r p where e: "e = (r, p)" by (cases e)
  with Cons.prems Cons.hyps have wf: "wf_entry (r, p)" and pk: "packed (r, p) bs" by simp_all
  have len: "length bs = r_rec_len r" using packed_length [OF wf pk] by simp
  have turn: "length xs + REC_SIZE \<le> length (xs @ bs @ concat bss @ t)"
      "Rec (xs @ bs @ concat bss @ t) (length xs) = Inr r"
      "length xs + r_rec_len r \<le> length (xs @ bs @ concat bss @ t)"
    using wf_entry_rec_len [OF wf] len Rec_packed [OF wf pk] by simp_all
  show ?case
    using Cons.IH [of "xs @ bs"] Cons.prems payload_packed [OF wf pk] len
    by (simp add: iter_from_yield [OF turn] e)
qed

subsection \<open>Runs of set bits\<close>

definition bit_at :: "bytes \<Rightarrow> nat \<Rightarrow> bool" where
  "bit_at bm i \<longleftrightarrow> bm_bit bm i = Inr True"

text \<open>\<open>rs\<close> lists the maximal runs of \<open>P\<close> in \<open>[lo, n)\<close>, in order.\<close>

fun runs :: "(nat \<Rightarrow> bool) \<Rightarrow> nat \<Rightarrow> nat \<Rightarrow> (nat \<times> nat) list \<Rightarrow> bool" where
  "runs P lo n [] \<longleftrightarrow> (\<forall>j. lo \<le> j \<and> j < n \<longrightarrow> \<not> P j)"
| "runs P lo n ((a, b) # rs) \<longleftrightarrow> lo \<le> a \<and> a < b \<and> b \<le> n \<and>
     (\<forall>j. lo \<le> j \<and> j < a \<longrightarrow> \<not> P j) \<and> (\<forall>j. a \<le> j \<and> j < b \<longrightarrow> P j) \<and> (b < n \<longrightarrow> \<not> P b) \<and>
     runs P b n rs"

definition scale_run :: "nat \<Rightarrow> nat \<times> nat \<Rightarrow> nat \<times> nat" where
  "scale_run c = (\<lambda>(a, b). (a * c, (b - a) * c))"

lemma bm_bit_ok: "i < 8 * length bm \<Longrightarrow> bm_bit bm i = Inr (bit_at bm i)"
  by (auto simp: bm_bit_def bit_at_def)

lemma bm_bit_range: "8 * length bm \<le> i \<Longrightarrow> bm_bit bm i = Inl IndexError"
  by (auto simp: bm_bit_def)

lemma runs_extend_left: "runs P (Suc i) n rs \<Longrightarrow> \<not> P i \<Longrightarrow> runs P i n rs"
proof -
  assume runs: "runs P (Suc i) n rs" and i: "\<not> P i"
  have gap: "(\<forall>j. Suc i \<le> j \<and> j < k \<longrightarrow> \<not> P j) \<Longrightarrow> (\<forall>j. i \<le> j \<and> j < k \<longrightarrow> \<not> P j)" for k
    using i by (metis Suc_leI le_less)
  show ?thesis
  proof (cases rs)
    case Nil
    with runs gap [of n] show ?thesis by simp
  next
    case (Cons ab rs')
    obtain a b where ab: "ab = (a, b)" by (cases ab)
    from runs Cons ab have "\<forall>j. i \<le> j \<and> j < a \<longrightarrow> \<not> P j" by (intro gap) simp
    with runs Cons ab show ?thesis by simp
  qed
qed

lemma extents_loop_runs:
  assumes "n \<le> 8 * length bm"
  shows "i \<le> n \<Longrightarrow> (case st of None \<Rightarrow> True | Some s \<Rightarrow> s < i \<and> (\<forall>j. s \<le> j \<and> j < i \<longrightarrow> bit_at bm j)) \<Longrightarrow>
    \<exists>rs. extents_loop bm c n [i..<n + 1] st = Inr (map (scale_run c) rs) \<and>
         runs (bit_at bm) (case st of None \<Rightarrow> i | Some s \<Rightarrow> s) n rs"
proof (induction "n - i" arbitrary: i st)
  case 0
  then have i: "i = n" by simp
  show ?case
  proof (cases st)
    case None
    then show ?thesis by (intro exI [of _ "[]"]) (auto simp: i)
  next
    case (Some s)
    with 0 i show ?thesis by (intro exI [of _ "[(s, n)]"]) (simp add: scale_run_def)
  qed
next
  case (Suc k)
  then have lt: "i < n" and bit: "bm_bit bm i = Inr (bit_at bm i)"
    using assms by (auto intro: bm_bit_ok)
  have upt: "[i..<n + 1] = i # [Suc i..<n + 1]" using lt by (simp add: upt_conv_Cons)
  note IH = Suc.hyps(1) [of "Suc i"]
  have k: "k = n - Suc i" "Suc i \<le> n" using Suc.hyps(2) lt by auto
  show ?case
  proof (cases "bit_at bm i")
    case True
    let ?st = "case st of None \<Rightarrow> Some i | Some s \<Rightarrow> Some s"
    have "case ?st of None \<Rightarrow> True | Some s \<Rightarrow> s < Suc i \<and> (\<forall>j. s \<le> j \<and> j < Suc i \<longrightarrow> bit_at bm j)"
      using Suc.prems(2) True by (auto simp: less_Suc_eq le_less split: option.splits)
    from IH [OF k this] show ?thesis
      using True lt bit upt by (auto split: option.splits)
  next
    case False
    obtain rs where rs: "extents_loop bm c n [Suc i..<n + 1] None = Inr (map (scale_run c) rs)"
        "runs (bit_at bm) (Suc i) n rs"
      using IH [OF k, of None] by auto
    then have "runs (bit_at bm) i n rs" using False by (auto intro: runs_extend_left)
    with rs(1) False lt bit upt Suc.prems show ?thesis
    proof (cases st)
      case None
      with rs(1) \<open>runs (bit_at bm) i n rs\<close> False lt bit upt show ?thesis
        by (intro exI [of _ rs]) (simp del: upt_Suc)
    next
      case (Some s)
      with rs(1) \<open>runs (bit_at bm) i n rs\<close> False lt bit upt Suc.prems show ?thesis
        by (intro exI [of _ "(s, i) # rs"]) (simp add: scale_run_def del: upt_Suc)
    qed
  qed
qed

lemma extents_loop_error:
  assumes "8 * length bm < n"
  shows "i \<le> 8 * length bm \<Longrightarrow> extents_loop bm c n [i..<n + 1] st = Inl IndexError"
proof (induction "8 * length bm - i" arbitrary: i st)
  case 0
  then have "[i..<n + 1] = i # [Suc i..<n + 1]" using assms by (simp add: upt_conv_Cons)
  with 0 assms show ?case by (simp add: bm_bit_range)
next
  case (Suc k)
  then have upt: "[i..<n + 1] = i # [Suc i..<n + 1]" and bit: "bm_bit bm i = Inr (bit_at bm i)"
    using assms by (auto simp: upt_conv_Cons intro: bm_bit_ok)
  have "extents_loop bm c n [Suc i..<n + 1] st' = Inl IndexError" for st'
    using Suc.hyps by (intro Suc.hyps(1)) auto
  with upt bit assms Suc.prems show ?case by (simp split: option.split)
qed

lemma runs_bounds: "runs P lo n rs \<Longrightarrow> (a, b) \<in> set rs \<Longrightarrow> lo \<le> a \<and> a < b \<and> b \<le> n"
proof (induction rs arbitrary: lo)
  case (Cons ab rs)
  then show ?case by (cases ab) fastforce
qed simp

lemma runs_cover:
  "runs P lo n rs \<Longrightarrow> lo \<le> j \<Longrightarrow> j < n \<Longrightarrow> P j \<longleftrightarrow> (\<exists>(a, b) \<in> set rs. a \<le> j \<and> j < b)"
proof (induction rs arbitrary: lo)
  case (Cons ab rs)
  obtain a b where ab: "ab = (a, b)" by (cases ab)
  show ?case
  proof (cases "b \<le> j")
    case True
    with Cons ab show ?thesis by auto
  next
    case False
    have "\<forall>(a', b') \<in> set rs. b \<le> a'" using Cons.prems(1) ab
      by (auto dest: runs_bounds)
    with False Cons.prems ab show ?thesis by (cases "a \<le> j") auto
  qed
qed auto

lemma div_interval: "0 < c \<Longrightarrow> a * c \<le> x \<and> x < b * c \<longleftrightarrow> a \<le> x div c \<and> x div c < (b :: nat)"
  by (simp add: less_eq_div_iff_mult_less_eq div_less_iff_less_mult)

lemma runs_cover_0:
  assumes "runs P 0 n rs"
  shows "(\<exists>(a, b) \<in> set rs. a \<le> j \<and> j < b) \<longleftrightarrow> j < n \<and> P j"
proof (cases "j < n")
  case True
  with runs_cover [OF assms, of j] show ?thesis by simp
next
  case False
  with runs_bounds [OF assms] show ?thesis by (metis (no_types, lifting) case_prodE less_le_trans)
qed

lemma scale_run_cover:
  assumes "runs P lo n rs"
  shows "(\<exists>(s, m) \<in> set (map (scale_run c) rs). s \<le> x \<and> x < s + m) \<longleftrightarrow>
    (\<exists>(a, b) \<in> set rs. a * c \<le> x \<and> x < b * c)"
proof -
  have "a * c + (b - a) * c = b * c" if "(a, b) \<in> set rs" for a b
    using runs_bounds [OF assms that] by (simp flip: add_mult_distrib)
  then show ?thesis by (auto simp: scale_run_def intro!: bexI)
qed

lemma extents_runs:
  assumes "nbits \<le> 8 * length bm" and "0 < chunk_sectors"
  shows "\<exists>rs. bitmap_extents bm chunk_sectors nbits = Inr (map (scale_run chunk_sectors) rs) \<and>
    runs (bit_at bm) 0 nbits rs \<and>
    (\<forall>x. (\<exists>(s, n) \<in> set (map (scale_run chunk_sectors) rs). s \<le> x \<and> x < s + n) \<longleftrightarrow>
         x div chunk_sectors < nbits \<and> bit_at bm (x div chunk_sectors))"
proof -
  obtain rs where rs: "bitmap_extents bm chunk_sectors nbits = Inr (map (scale_run chunk_sectors) rs)"
      "runs (bit_at bm) 0 nbits rs"
    using extents_loop_runs [OF assms(1), of 0 None chunk_sectors] by (auto simp: bitmap_extents_def simp del: upt_Suc)
  have cover: "(\<exists>(s, n) \<in> set (map (scale_run chunk_sectors) rs). s \<le> x \<and> x < s + n) \<longleftrightarrow>
      x div chunk_sectors < nbits \<and> bit_at bm (x div chunk_sectors)" for x
    unfolding scale_run_cover [OF rs(2)] div_interval [OF assms(2)]
    by (rule runs_cover_0 [OF rs(2)])
  show ?thesis by (rule exI [of _ rs]) (simp only: rs cover simp_thms)
qed

lemma extents_of_bits:
  assumes "nbits \<le> 8 * length bm" and "0 < chunk_sectors"
  shows "\<exists>es. bitmap_extents bm chunk_sectors nbits = Inr es \<and>
    (\<forall>x. (\<exists>(s, n) \<in> set es. s \<le> x \<and> x < s + n) \<longleftrightarrow>
         x div chunk_sectors < nbits \<and> bit_at bm (x div chunk_sectors))"
  using extents_runs [OF assms] by blast

text \<open>The offsets at which the loop reads a header.\<close>

inductive visited :: "bytes \<Rightarrow> nat \<Rightarrow> bool" for buf where
  visited_start: "visited buf 0"
| visited_next: "visited buf off \<Longrightarrow> off + REC_SIZE \<le> length buf \<Longrightarrow> Rec buf off = Inr r \<Longrightarrow>
    off + r_rec_len r \<le> length buf \<Longrightarrow> visited buf (off + r_rec_len r)"

lemma iter_from_None_visited:
  "iter_from n buf off = None \<Longrightarrow> length buf - off \<le> n \<Longrightarrow> visited buf off \<Longrightarrow>
    \<exists>o' r. visited buf o' \<and> o' + REC_SIZE \<le> length buf \<and> Rec buf o' = Inr r \<and> r_rec_len r = 0"
proof (induction n arbitrary: off)
  case 0
  then show ?case by (simp add: iter_from_stop REC_SIZE_def)
next
  case (Suc n)
  show ?case
  proof (cases rule: iter_turn_cases [of buf off])
    case (yield r)
    show ?thesis
    proof (cases "r_rec_len r = 0")
      case True
      with yield Suc.prems(3) show ?thesis by blast
    next
      case False
      with Suc.prems(2) have "length buf - (off + r_rec_len r) \<le> n" by simp
      moreover from Suc.prems(1) have "iter_from n buf (off + r_rec_len r) = None"
        by (simp add: iter_from_yield [OF yield])
      ultimately show ?thesis
        using Suc.IH visited_next [OF Suc.prems(3) yield] by blast
    qed
  qed (use Suc.prems in \<open>simp_all add: iter_from_turn(1-3)\<close>)
qed

lemma visited_None:
  "visited buf off \<Longrightarrow> (\<And>m. iter_from m buf off = None) \<Longrightarrow> iter_from m buf 0 = None"
proof (induction arbitrary: m rule: visited.induct)
  case (visited_next off r)
  have "iter_from k buf off = None" for k
    using visited_next.prems visited_next.hyps by (simp add: iter_from_yield split: nat.split)
  then show ?case by (rule visited_next.IH)
qed simp

lemma iter_records_None_iff:
  "iter_records buf = None \<longleftrightarrow>
    (\<exists>off r. visited buf off \<and> off + REC_SIZE \<le> length buf \<and> Rec buf off = Inr r \<and> r_rec_len r = 0)"
proof
  assume "iter_records buf = None"
  then show "\<exists>off r. visited buf off \<and> off + REC_SIZE \<le> length buf \<and> Rec buf off = Inr r \<and> r_rec_len r = 0"
    by (intro iter_from_None_visited [of "length buf" buf 0])
      (simp_all add: iter_records_def visited_start)
next
  assume "\<exists>off r. visited buf off \<and> off + REC_SIZE \<le> length buf \<and> Rec buf off = Inr r \<and> r_rec_len r = 0"
  then show "iter_records buf = None"
    unfolding iter_records_def using iter_from_zero_len by (blast intro: visited_None)
qed

lemma visited_append: "visited a off \<Longrightarrow> visited (a @ b) off"
  by (induction rule: visited.induct) (auto intro: visited.intros simp: Rec_append)

lemma visited_drop:
  assumes "visited buf j" and "j \<le> length buf"
  shows "visited (drop j buf) off \<Longrightarrow> visited buf (j + off)"
proof (induction rule: visited.induct)
  case (visited_next off r)
  have "Rec buf (j + off) = Inr r"
    using Rec_shift [of "take j buf" "drop j buf" off] visited_next.hyps(3) assms(2) by simp
  from visited.visited_next [OF visited_next.IH _ this] visited_next.hyps(2,4) assms(2) show ?case
    by (simp add: add.assoc)
qed (simp add: assms(1))

lemma iter_from_visited:
  "iter_from n buf off = Some (es, GReturn k) \<Longrightarrow> visited buf off \<Longrightarrow> visited buf k"
proof (induction n arbitrary: off es)
  case 0
  then show ?case
    by (cases rule: iter_turn_cases [of buf off]) (simp_all add: iter_from_turn(1-3) iter_from_yield)
next
  case (Suc n)
  then show ?case
  proof (cases rule: iter_turn_cases [of buf off])
    case (yield r)
    with Suc.prems(1) obtain es' where "iter_from n buf (off + r_rec_len r) = Some (es', GReturn k)"
      by (auto simp: iter_from_yield split: option.splits)
    with Suc.IH visited_next [OF Suc.prems(2) yield] show ?thesis by blast
  qed (use Suc.prems in \<open>auto simp: iter_from_turn(1-3)\<close>)
qed

text \<open>What the stream does not hold at its own headers, no buffer cut from it at a header holds.\<close>

lemma iter_records_drop_ends:
  assumes "visited buf j" and "j \<le> length buf" and "iter_records buf \<noteq> None"
  shows "iter_records (drop j buf) \<noteq> None"
proof
  assume "iter_records (drop j buf) = None"
  then obtain off r where h: "visited (drop j buf) off" "off + REC_SIZE \<le> length (drop j buf)"
      "Rec (drop j buf) off = Inr r" "r_rec_len r = 0" unfolding iter_records_None_iff by blast
  have "Rec buf (j + off) = Inr r" using Rec_shift [of "take j buf" "drop j buf" off] h(3) assms(2) by simp
  with visited_drop [OF assms(1,2) h(1)] h(2,4) assms(2) have "iter_records buf = None"
    unfolding iter_records_None_iff by (intro exI [of _ "j + off"] exI [of _ r]) simp
  with assms(3) show False by simp
qed

lemma iter_from_error: "iter_from n buf off = Some (es, GRaise e) \<Longrightarrow> e \<noteq> Diverges"
proof (induction n arbitrary: off es)
  case 0
  then show ?case using Rec_no_struct_error [of off buf e]
    by (cases rule: iter_turn_cases [of buf off]) (auto simp: iter_from_turn(1-3) iter_from_yield)
next
  case (Suc n)
  then show ?case using Rec_no_struct_error [of off buf e]
    by (cases rule: iter_turn_cases [of buf off])
      (auto simp: iter_from_turn(1-3) iter_from_yield split: option.splits)
qed

subsection \<open>A sample record\<close>

text \<open>A write of the two bytes 7, 9 at sector 3 with sequence number 5, and its 64 bytes.\<close>

definition sample_rec :: cdp_rec where
  "sample_rec = \<lparr>r_magic = 0x52504443, r_version = 1, r_type = 1, r_flags = 0, r_state = 2,
     r_seq = 5, r_sector = 3, r_len = 2, r_rec_len = 64, r_ts_ns = 0, r_reserved = 0\<rparr>"

definition sample_bytes :: bytes where
  "sample_bytes =
     [0x43, 0x44, 0x50, 0x52, 1, 0, 1, 0, 0, 0, 0, 0, 2, 0, 0, 0, 5, 0, 0, 0, 0, 0, 0, 0,
      3, 0, 0, 0, 0, 0, 0, 0, 2, 0, 0, 0, 64, 0, 0, 0, 0, 0, 0, 0, 0, 0, 0, 0,
      0, 0, 0, 0, 0, 0, 0, 0, 7, 9, 0, 0, 0, 0, 0, 0]"

lemma sample_wf: "wf_entry (sample_rec, [7, 9])"
  by (simp add: wf_entry_def sample_rec_def REC_MAGIC_def ABI_VERSION_def REC_WRITE_def
      REC_SIZE_def aligned_len_eq)

lemma sample_packed: "packed (sample_rec, [7, 9]) sample_bytes"
proof -
  have "replicate 6 (0 :: byte) = [0, 0, 0, 0, 0, 0]" by (simp add: numeral_eq_Suc)
  then show ?thesis
    by (simp add: packed_def pack_rec_def sample_rec_def sample_bytes_def REC_FMT_def REC_MAGIC_def
      ABI_VERSION_def REC_SIZE_def aligned_len_eq le_bytes_2 le_bytes_4 le_bytes_8)
qed

lemma sample_iter: "iter_records sample_bytes = Some ([(sample_rec, [7, 9])], GReturn 64)"
proof (rule iter_records_any_fuel)
  have "iter_from 1 sample_bytes 0 = Some ([(sample_rec, [7, 9])], GReturn (length sample_bytes))"
    using iter_from_stream [of "[(sample_rec, [7, 9])]" "[sample_bytes]" "[]" "[]"]
    by (simp add: sample_wf sample_packed incomplete_def REC_SIZE_def)
  then show "iter_from 1 sample_bytes 0 = Some ([(sample_rec, [7, 9])], GReturn 64)"
    by (simp add: sample_bytes_def)
qed

subsection \<open>Properties\<close>

text \<open>
  (C4) Round trip of the record stream: the bytes of well-formed records, packed one after
  the other, followed by the beginning of a record that has not arrived in full, are read
  back as exactly these records with exactly their payloads; the incomplete tail is left
  unconsumed.
\<close>

theorem iter_records_stream:
  assumes "list_all2 packed es bss" and "list_all wf_entry es"
    and "wf_entry e" and "packed e bs" and "k < length bs"
  shows "iter_records (concat bss @ take k bs) = Some (es, GReturn (length (concat bss)))"
proof (rule iter_records_any_fuel)
  have "incomplete (take k bs)" using assms(3-5) by (rule incomplete_prefix)
  with assms(1,2) show "iter_from (length es) (concat bss @ take k bs) 0 =
      Some (es, GReturn (length (concat bss)))"
    using iter_from_stream [of es bss "take k bs" "[]"] by simp
qed

theorem iter_records_stream_witness:
  "iter_records (concat [sample_bytes] @ take 60 sample_bytes) =
    Some ([(sample_rec, [7, 9])], GReturn (length (concat [sample_bytes])))"
  by (rule iter_records_stream [of _ _ "(sample_rec, [7, 9])"])
    (simp_all add: sample_wf sample_packed, simp add: sample_bytes_def)

text \<open>
  Chunk independence: reading a buffer \<open>a\<close>, keeping its unconsumed tail and reading the
  tail followed by the next chunk \<open>b\<close> gives the same records and the same end as reading
  \<open>a @ b\<close> at once, for any bytes at all whose write records stay inside their announced
  length. This is what lets the daemon carry \<^verbatim>\<open>pending\<close> from one read to the next.
\<close>

theorem iter_records_chunked:
  assumes "iter_records a = Some (es, GReturn k)" and "inside es"
    and "iter_records (drop k a @ b) = Some (es', e)"
  shows "iter_records (a @ b) = Some (es @ es', shift_end k e)"
  using assms by (rule iter_records_append)

theorem iter_records_chunked_witness:
  "iter_records (sample_bytes @ sample_bytes) =
    Some ([(sample_rec, [7, 9])] @ [(sample_rec, [7, 9])], shift_end 64 (GReturn 64))"
  by (rule iter_records_chunked [OF sample_iter])
    (simp add: inside_def sample_rec_def REC_SIZE_def, simp add: sample_iter sample_bytes_def,
     use sample_iter in \<open>simp add: sample_bytes_def\<close>)

text \<open>
  (C23) The loop of \<^verbatim>\<open>iter_records\<close> fails to end exactly when it reaches a header that is
  valid but announces the record length 0.
\<close>

theorem iter_records_diverges_iff:
  "iter_records buf = None \<longleftrightarrow>
    (\<exists>off r. visited buf off \<and> off + REC_SIZE \<le> length buf \<and> Rec buf off = Inr r \<and> r_rec_len r = 0)"
  by (rule iter_records_None_iff)

text \<open>
  (C24) \<^verbatim>\<open>bitmap_extents\<close> lists the maximal runs of set bits in order, scaled to sectors,
  whenever the bitmap has all its bytes, and a sector belongs to one of the extents exactly
  when the bit of its chunk is set.
\<close>

theorem bitmap_extents_correct:
  assumes "nbits \<le> 8 * length bm" and "0 < chunk_sectors"
  shows "\<exists>rs. bitmap_extents bm chunk_sectors nbits = Inr (map (scale_run chunk_sectors) rs) \<and>
    runs (bit_at bm) 0 nbits rs \<and>
    (\<forall>x. (\<exists>(s, n) \<in> set (map (scale_run chunk_sectors) rs). s \<le> x \<and> x < s + n) \<longleftrightarrow>
         x div chunk_sectors < nbits \<and> bit_at bm (x div chunk_sectors))"
  using assms by (rule extents_runs)

theorem bitmap_extents_correct_witness:
  "\<exists>rs. bitmap_extents [6, 1] 128 10 = Inr (map (scale_run 128) rs) \<and>
    runs (bit_at [6, 1]) 0 10 rs \<and>
    (\<forall>x. (\<exists>(s, n) \<in> set (map (scale_run 128) rs). s \<le> x \<and> x < s + n) \<longleftrightarrow>
         x div 128 < 10 \<and> bit_at [6, 1] (x div 128))"
  by (rule bitmap_extents_correct) simp_all

text \<open>
  With fewer bitmap bytes than the announced number of bits needs, \<^verbatim>\<open>bitmap_extents\<close>
  raises \<^verbatim>\<open>IndexError\<close>; with enough of them it never raises.
\<close>

theorem bitmap_extents_error:
  "bitmap_extents bm chunk_sectors nbits = Inl e \<longleftrightarrow> 8 * length bm < nbits \<and> e = IndexError"
proof (cases "8 * length bm < nbits")
  case True
  then show ?thesis 
    using extents_loop_error [of bm nbits 0 chunk_sectors None] by (auto simp: bitmap_extents_def simp del: upt_Suc)
next
  case False
  then have "nbits \<le> 8 * length bm" by simp
  from extents_loop_runs [OF this, of 0 None chunk_sectors] False show ?thesis
    by (auto simp: bitmap_extents_def simp del: upt_Suc)
qed

end
