(* ===== verification/Seed_Layer.thy ===== *)
theory Seed_Layer
  imports Cdp_Prelude
begin

text \<open>
  The copy-on-first-write layer of \<^verbatim>\<open>rkcdp/rkcdpd.py\<close>: \<^verbatim>\<open>data_regions\<close> and the class
  \<^verbatim>\<open>SeedLayer\<close> (its constructor, \<^verbatim>\<open>is_saved\<close>, \<^verbatim>\<open>preserve\<close>), over the sparse file
  \<^verbatim>\<open>seed.raw\<close>.

  The invariant \<open>cow\<close> relates the layer to the image \<open>S\<close> the replica had at the seed point and
  to the replica as it is now. It is kept by \<open>preserve\<close> followed by any overwrite of the
  preserved range, and by a restart of the daemon, which rebuilds the bit array from the
  allocated regions of the file. It speaks about chunks that were not entirely zero at the
  seed point: a zero chunk is marked as saved but leaves a hole, which neither a restart nor
  the overlay of a seed rebuild can tell from a chunk that was never saved.
\<close>

unbundle bit_operations_syntax

definition SEED_CHUNK :: nat where "SEED_CHUNK = 65536"

subsection \<open>Data regions of a sparse file\<close>

function data_regions_from :: "sfile \<Rightarrow> nat \<Rightarrow> nat \<Rightarrow> (nat \<times> nat) list result" where
  "data_regions_from f sz off =
     (if off < sz then
        (case seek_data f off of
           None \<Rightarrow> Inr []
         | Some d \<Rightarrow>
             if sz \<le> d then Inr []
             else (case seek_hole f d of
                 None \<Rightarrow> Inl OSError
               | Some h \<Rightarrow> bind_result (data_regions_from f sz h) (\<lambda>rs. Inr ((d, h - d) # rs))))
      else Inr [])"
  by pat_completeness auto
termination
  by (relation "measure (\<lambda>(f, sz, off). sz - off)")
    (auto dest!: seek_dataD dest: seek_holeD)

declare data_regions_from.simps [simp del]

definition data_regions :: "sfile \<Rightarrow> nat \<Rightarrow> (nat \<times> nat) list result" where
  "data_regions f sz = data_regions_from f sz 0"

subsection \<open>The layer\<close>

record seed_layer =
  sl_size :: nat
  sl_file :: sfile
  sl_nchunks :: nat
  sl_saved :: bytes

text \<open>\<^verbatim>\<open>self.saved[c >> 3] |= 1 << (c & 7)\<close>.\<close>

definition set_saved :: "nat \<Rightarrow> bytes \<Rightarrow> bytes result" where
  "set_saved c saved =
     (if c div 8 < length saved
      then Inr (saved[c div 8 := saved ! (c div 8) OR push_bit (c mod 8) 1])
      else Inl IndexError)"

text \<open>The chunks \<^verbatim>\<open>range(off // SEED_CHUNK, (off + length + SEED_CHUNK - 1) // SEED_CHUNK)\<close>.\<close>

definition chunk_range :: "nat \<Rightarrow> nat \<Rightarrow> nat list" where
  "chunk_range off n = [off div SEED_CHUNK..<(off + n + SEED_CHUNK - 1) div SEED_CHUNK]"

definition SeedLayer :: "sfile \<Rightarrow> nat \<Rightarrow> seed_layer result" where
  "SeedLayer f sz =
     (let nchunks = (sz + SEED_CHUNK - 1) div SEED_CHUNK in
      bind_result (data_regions f sz) (\<lambda>rs.
      bind_result (fold_result set_saved (concat (map (\<lambda>(off, n). chunk_range off n) rs))
                     (replicate ((nchunks + 7) div 8) 0)) (\<lambda>saved.
      Inr \<lparr>sl_size = sz, sl_file = f, sl_nchunks = nchunks, sl_saved = saved\<rparr>)))"

definition is_saved :: "seed_layer \<Rightarrow> nat \<Rightarrow> bool result" where
  "is_saved s c =
     (if c div 8 < length (sl_saved s)
      then Inr (sl_saved s ! (c div 8) AND push_bit (c mod 8) 1 \<noteq> 0)
      else Inl IndexError)"

definition preserve_chunk :: "sfile \<Rightarrow> nat \<Rightarrow> seed_layer \<Rightarrow> seed_layer result" where
  "preserve_chunk replica c s =
     bind_result (is_saved s c) (\<lambda>done.
       if done then Inr s
       else
         (let o' = c * SEED_CHUNK;
              old = os_pread replica (min SEED_CHUNK (sl_size s - o')) o';
              s1 = (if list_ex (\<lambda>b. b \<noteq> 0) old
                    then s\<lparr>sl_file := os_pwrite (sl_file s) old o'\<rparr> else s)
          in bind_result (set_saved c (sl_saved s1)) (\<lambda>saved. Inr (s1\<lparr>sl_saved := saved\<rparr>))))"

definition preserve :: "sfile \<Rightarrow> nat \<Rightarrow> nat \<Rightarrow> seed_layer \<Rightarrow> seed_layer result" where
  "preserve replica off n s =
     fold_result (preserve_chunk replica)
       [off div SEED_CHUNK..<min ((off + n + SEED_CHUNK - 1) div SEED_CHUNK) (sl_nchunks s)] s"

subsection \<open>The invariant\<close>

definition saved_bit :: "bytes \<Rightarrow> nat \<Rightarrow> bool" where
  "saved_bit sv c \<longleftrightarrow> c div 8 < length sv \<and> bit (sv ! (c div 8)) (c mod 8)"

abbreviation saved_chunk :: "seed_layer \<Rightarrow> nat \<Rightarrow> bool" where
  "saved_chunk s c \<equiv> saved_bit (sl_saved s) c"

definition nchunks_of :: "nat \<Rightarrow> nat" where
  "nchunks_of sz = (sz + SEED_CHUNK - 1) div SEED_CHUNK"

text \<open>The file system allocates in blocks that divide a chunk, so that holes are reported
  chunk by chunk.\<close>

definition wf_seed :: "seed_layer \<Rightarrow> bool" where
  "wf_seed s \<longleftrightarrow> sl_nchunks s = nchunks_of (sl_size s) \<and>
     length (sl_saved s) = (sl_nchunks s + 7) div 8 \<and>
     f_size (sl_file s) = sl_size s \<and> wf_file (sl_file s) \<and> f_blk (sl_file s) dvd SEED_CHUNK"

definition nonzero_chunk :: "nat \<Rightarrow> image \<Rightarrow> nat \<Rightarrow> bool" where
  "nonzero_chunk sz S c \<longleftrightarrow> (\<exists>x < sz. x div SEED_CHUNK = c \<and> S x \<noteq> 0)"

definition cow :: "image \<Rightarrow> image \<Rightarrow> seed_layer \<Rightarrow> bool" where
  "cow S R s \<longleftrightarrow>
     (\<forall>x < sl_size s. nonzero_chunk (sl_size s) S (x div SEED_CHUNK) \<longrightarrow>
        (if saved_chunk s (x div SEED_CHUNK) then f_dat (sl_file s) x = S x \<and> f_alloc (sl_file s) x
         else R x = S x)) \<and>
     (\<forall>x < sl_size s. \<not> saved_chunk s (x div SEED_CHUNK) \<longrightarrow> \<not> f_alloc (sl_file s) x)"

subsection \<open>Interface: a layer that guards overwrites\<close>

text \<open>
  What the owner of a replica relies on: called before a range is overwritten, \<open>guard\<close> keeps
  the layer consistent for whatever is then written there.
\<close>

locale snapshot_layer =
  fixes guard :: "sfile \<Rightarrow> nat \<Rightarrow> nat \<Rightarrow> 'l \<Rightarrow> 'l result"
    and consistent :: "image \<Rightarrow> image \<Rightarrow> 'l \<Rightarrow> bool"
    and covers_size :: "'l \<Rightarrow> nat"
    and ok :: "'l \<Rightarrow> bool"
  assumes guard_total: "ok l \<Longrightarrow> f_size f = covers_size l \<Longrightarrow>
      \<exists>l'. guard f off n l = Inr l' \<and> ok l' \<and> covers_size l' = covers_size l"
    and guard_consistent: "ok l \<Longrightarrow> f_size f = covers_size l \<Longrightarrow> consistent S (f_dat f) l \<Longrightarrow>
      guard f off n l = Inr l' \<Longrightarrow> (\<And>x. \<not> (off \<le> x \<and> x < off + n) \<Longrightarrow> R' x = f_dat f x) \<Longrightarrow>
      consistent S R' l'"
begin

text \<open>Guarded overwrites in sequence.\<close>

primrec guarded :: "(nat \<times> bytes) list \<Rightarrow> sfile \<Rightarrow> 'l \<Rightarrow> (sfile \<times> 'l) result" where
  "guarded [] f l = Inr (f, l)"
| "guarded (w # ws) f l =
     bind_result (guard f (fst w) (length (snd w)) l) (\<lambda>l'. guarded ws (os_pwrite f (snd w) (fst w)) l')"

lemma guarded_consistent:
  assumes "list_all (\<lambda>w. fst w + length (snd w) \<le> covers_size l) ws"
    and "ok l" "f_size f = covers_size l" "consistent S (f_dat f) l"
  shows "\<exists>f' l'. guarded ws f l = Inr (f', l') \<and> ok l' \<and> covers_size l' = covers_size l \<and>
    f_size f' = covers_size l \<and> consistent S (f_dat f') l'"
  using assms
proof (induction ws arbitrary: f l)
  case (Cons w ws)
  from guard_total [OF Cons.prems(2,3)] obtain l1 where
    l1: "guard f (fst w) (length (snd w)) l = Inr l1" "ok l1" "covers_size l1 = covers_size l"
    by blast
  let ?f = "os_pwrite f (snd w) (fst w)"
  have "f_size ?f = covers_size l1"
    using Cons.prems(1,3) l1(3) by (simp add: f_size_os_pwrite_inside)
  moreover have "consistent S (f_dat ?f) l1"
    by (rule guard_consistent [OF Cons.prems(2-4) l1(1)]) (auto simp: file_simps img_simps)
  moreover have "list_all (\<lambda>w. fst w + length (snd w) \<le> covers_size l1) ws"
    using Cons.prems(1) l1(3) by simp
  ultimately show ?case using Cons.IH [of l1 ?f] l1 by simp
qed auto

end

lemma preserve_chunk_error: "preserve_chunk f c s = Inl e \<Longrightarrow> e \<noteq> Diverges"
  by (auto simp: preserve_chunk_def is_saved_def set_saved_def bind_result_def Let_def split: if_splits sum.splits)

subsection \<open>Bits\<close>

lemma is_saved_ok: "c div 8 < length (sl_saved s) \<Longrightarrow> is_saved s c = Inr (saved_chunk s c)"
  by (simp add: is_saved_def saved_bit_def bit_iff_and_push_bit_not_eq_0)

lemma set_saved_bit:
  "set_saved c sv = Inr sv' \<Longrightarrow> length sv' = length sv \<and> (saved_bit sv' d \<longleftrightarrow> saved_bit sv d \<or> d = c)"
proof -
  assume "set_saved c sv = Inr sv'"
  then have c: "c div 8 < length sv" and sv': "sv' = sv[c div 8 := sv ! (c div 8) OR push_bit (c mod 8) 1]"
    by (auto simp: set_saved_def split: if_splits)
  have "d = c \<longleftrightarrow> d div 8 = c div 8 \<and> d mod 8 = c mod 8"
    by (metis div_mult_mod_eq)
  with c show ?thesis
    by (auto simp: saved_bit_def sv' nth_list_update bit_simps)
qed

lemma set_saved_ok: "c div 8 < length sv \<Longrightarrow> \<exists>sv'. set_saved c sv = Inr sv'"
  by (simp add: set_saved_def)

lemma set_saved_fold:
  "\<forall>c \<in> set cs. c div 8 < length sv \<Longrightarrow>
    \<exists>sv'. fold_result set_saved cs sv = Inr sv' \<and> length sv' = length sv \<and>
      (\<forall>d. saved_bit sv' d \<longleftrightarrow> saved_bit sv d \<or> d \<in> set cs)"
proof (induction cs arbitrary: sv)
  case (Cons c cs)
  from Cons.prems obtain s1 where s1: "set_saved c sv = Inr s1"
    using set_saved_ok [of c sv] by auto
  then have len: "length s1 = length sv" and bits: "saved_bit s1 d \<longleftrightarrow> saved_bit sv d \<or> d = c" for d
    using set_saved_bit by blast+
  from Cons.prems len obtain sv' where "fold_result set_saved cs s1 = Inr sv'"
      "length sv' = length s1" "\<forall>d. saved_bit sv' d \<longleftrightarrow> saved_bit s1 d \<or> d \<in> set cs"
    using Cons.IH [of s1] by auto
  with s1 len bits show ?case by auto
qed simp

lemma chunk_index: "c < nchunks_of sz \<longleftrightarrow> c * SEED_CHUNK < sz"
proof -
  have "c < nchunks_of sz \<longleftrightarrow> Suc c * SEED_CHUNK \<le> sz + SEED_CHUNK - 1"
    unfolding nchunks_of_def Suc_le_eq [symmetric]
    by (rule less_eq_div_iff_mult_less_eq) (simp add: SEED_CHUNK_def)
  then show ?thesis by (auto simp: SEED_CHUNK_def)
qed

lemma chunk_of_byte: "x < sz \<Longrightarrow> x div SEED_CHUNK < nchunks_of sz"
proof -
  assume "x < sz"
  moreover have "x div SEED_CHUNK * SEED_CHUNK \<le> x" by simp
  ultimately show ?thesis unfolding chunk_index by linarith
qed

lemma chunk_span:
  assumes "c * SEED_CHUNK < sz"
  shows "x < sz \<and> x div SEED_CHUNK = c \<longleftrightarrow>
    c * SEED_CHUNK \<le> x \<and> x < c * SEED_CHUNK + min SEED_CHUNK (sz - c * SEED_CHUNK)"
proof -
  have "x div SEED_CHUNK = c \<longleftrightarrow> c * SEED_CHUNK \<le> x \<and> x < c * SEED_CHUNK + SEED_CHUNK"
    by (auto simp: SEED_CHUNK_def intro: div_nat_eqI)
  then show ?thesis using assms by (auto simp: min_def)
qed

lemma block_in_chunk:
  assumes "0 < b" "b dvd SEED_CHUNK" "0 < n" "n \<le> SEED_CHUNK"
    and "c * SEED_CHUNK div b \<le> x div b" "x div b \<le> (c * SEED_CHUNK + n - 1) div b"
  shows "x div SEED_CHUNK = c"
proof -
  obtain k where k: "SEED_CHUNK = b * k" using assms(2) by (elim dvdE)
  have chunk: "y div SEED_CHUNK = y div b div k" for y by (simp add: k div_mult2_eq)
  have "c * SEED_CHUNK div SEED_CHUNK \<le> x div SEED_CHUNK"
    unfolding chunk using assms(5) by (rule div_le_mono)
  moreover have "x div SEED_CHUNK \<le> (c * SEED_CHUNK + n - 1) div SEED_CHUNK"
    unfolding chunk using assms(6) by (rule div_le_mono)
  moreover have "(c * SEED_CHUNK + (n - 1)) div SEED_CHUNK = c"
    using assms(3,4) by (simp add: SEED_CHUNK_def)
  ultimately show ?thesis using assms(3,4) by (simp add: SEED_CHUNK_def)
qed

subsection \<open>Saving a chunk\<close>

text \<open>What one turn of the loop does, on the file and on the bits.\<close>

lemma preserve_chunk_cases:
  assumes wf: "wf_seed s" and c: "c < sl_nchunks s" and f: "f_size f = sl_size s"
  obtains (saved) "saved_chunk s c" "preserve_chunk f c s = Inr s"
  | (zero) sv where "\<not> saved_chunk s c" "\<not> nonzero_chunk (sl_size s) (f_dat f) c"
      "set_saved c (sl_saved s) = Inr sv" "preserve_chunk f c s = Inr (s\<lparr>sl_saved := sv\<rparr>)"
  | (copied) sv where "\<not> saved_chunk s c" "set_saved c (sl_saved s) = Inr sv"
      "preserve_chunk f c s = Inr (s\<lparr>sl_saved := sv, sl_file := os_pwrite (sl_file s)
        (img_slice (f_dat f) (c * SEED_CHUNK) (min SEED_CHUNK (sl_size s - c * SEED_CHUNK)))
        (c * SEED_CHUNK)\<rparr>)"
proof -
  let ?o = "c * SEED_CHUNK"
  let ?n = "min SEED_CHUNK (sl_size s - ?o)"
  have o: "?o < sl_size s" using wf c by (simp add: wf_seed_def chunk_index)
  have idx: "c div 8 < length (sl_saved s)" using wf c by (simp add: wf_seed_def)
  then obtain sv where sv: "set_saved c (sl_saved s) = Inr sv" using set_saved_ok by blast
  have old: "os_pread f ?n ?o = img_slice (f_dat f) ?o ?n"
    using o f by (intro os_pread_inside) auto
  have nz: "list_ex (\<lambda>b. b \<noteq> 0) (img_slice (f_dat f) ?o ?n) \<longleftrightarrow> nonzero_chunk (sl_size s) (f_dat f) c"
    unfolding nonzero_chunk_def using chunk_span [OF o]
    by (auto simp: list_ex_iff img_slice_def Bex_def)
  show thesis
    using saved zero [OF _ _ sv] copied [OF _ sv] idx sv old nz
    by (cases "saved_chunk s c"; cases "nonzero_chunk (sl_size s) (f_dat f) c")
      (simp_all add: preserve_chunk_def is_saved_ok Let_def)
qed

lemma copied_chunk:
  fixes R :: image
  assumes wf: "wf_seed s" and c: "c < sl_nchunks s"
  defines "g \<equiv> os_pwrite (sl_file s)
    (img_slice R (c * SEED_CHUNK) (min SEED_CHUNK (sl_size s - c * SEED_CHUNK))) (c * SEED_CHUNK)"
  shows "f_size g = sl_size s" "wf_file g" "f_blk g = f_blk (sl_file s)"
    and "x < sl_size s \<Longrightarrow> f_dat g x = (if x div SEED_CHUNK = c then R x else f_dat (sl_file s) x)"
    and "x < sl_size s \<Longrightarrow> f_alloc g x \<longleftrightarrow> f_alloc (sl_file s) x \<or> x div SEED_CHUNK = c"
proof -
  let ?o = "c * SEED_CHUNK"
  let ?n = "min SEED_CHUNK (sl_size s - ?o)"
  have o: "?o < sl_size s" using wf c by (simp add: wf_seed_def chunk_index)
  have n: "0 < ?n" "?n \<le> SEED_CHUNK" "?n \<le> RW_MAX"
    using o by (auto simp: SEED_CHUNK_def RW_MAX_def)
  have blk: "0 < f_blk (sl_file s)" "f_blk (sl_file s) dvd SEED_CHUNK"
    using wf by (auto simp: wf_seed_def wf_file_def)
  have ne: "img_slice R ?o ?n \<noteq> []" using n(1) by (simp add: img_slice_def)
  show "f_size g = sl_size s" "wf_file g" "f_blk g = f_blk (sl_file s)"
    using wf o by (auto simp: g_def wf_seed_def file_simps wf_file_os_pwrite)
  note span = chunk_span [OF o, of x]
  show "x < sl_size s \<Longrightarrow> f_dat g x = (if x div SEED_CHUNK = c then R x else f_dat (sl_file s) x)"
    using span n by (simp add: g_def f_dat_os_pwrite_short img_write_slice)
  show "x < sl_size s \<Longrightarrow> f_alloc g x \<longleftrightarrow> f_alloc (sl_file s) x \<or> x div SEED_CHUNK = c"
  proof -
    assume x: "x < sl_size s"
    have "?o div f_blk (sl_file s) \<le> x div f_blk (sl_file s) \<and>
        x div f_blk (sl_file s) \<le> (?o + ?n - 1) div f_blk (sl_file s)" if "x div SEED_CHUNK = c"
      using span x that by (auto intro!: div_le_mono)
    then show ?thesis
      using block_in_chunk [OF blk n(1,2), of c x] ne n by (auto simp: g_def file_simps)
  qed
qed

lemma preserve_chunk_step:
  assumes wf: "wf_seed s" and c: "c < sl_nchunks s" and f: "f_size f = sl_size s"
  shows "\<exists>s'. preserve_chunk f c s = Inr s' \<and> wf_seed s' \<and> sl_size s' = sl_size s \<and>
    sl_nchunks s' = sl_nchunks s \<and> (\<forall>d. saved_chunk s' d \<longleftrightarrow> saved_chunk s d \<or> d = c) \<and>
    (\<forall>S. cow S (f_dat f) s \<longrightarrow> cow S (f_dat f) s')"
  using assms
proof (cases rule: preserve_chunk_cases)
  case saved
  with wf show ?thesis by auto
next
  case (zero sv)
  have bits: "length sv = length (sl_saved s)" "saved_bit sv d \<longleftrightarrow> saved_chunk s d \<or> d = c" for d
    using set_saved_bit [OF zero(3)] by auto
  have "cow S (f_dat f) (s\<lparr>sl_saved := sv\<rparr>)" if "cow S (f_dat f) s" for S
  proof -
    have "\<not> nonzero_chunk (sl_size s) S c"
      using that zero(1,2) unfolding cow_def nonzero_chunk_def by (metis (full_types))
    with that show ?thesis by (auto simp: cow_def bits)
  qed
  with zero(4) wf bits show ?thesis by (auto simp: wf_seed_def)
next
  case (copied sv)
  have bits: "length sv = length (sl_saved s)" "saved_bit sv d \<longleftrightarrow> saved_chunk s d \<or> d = c" for d
    using set_saved_bit [OF copied(2)] by auto
  note g = copied_chunk [OF wf c, where R = "f_dat f"]
  let ?s = "s\<lparr>sl_saved := sv, sl_file := os_pwrite (sl_file s)
        (img_slice (f_dat f) (c * SEED_CHUNK) (min SEED_CHUNK (sl_size s - c * SEED_CHUNK)))
        (c * SEED_CHUNK)\<rparr>"
  have "cow S (f_dat f) ?s" if "cow S (f_dat f) s" for S
    using that copied(1) by (auto simp: cow_def bits g)
  moreover have "wf_seed ?s" using wf g(1-3) bits(1) by (simp add: wf_seed_def)
  ultimately show ?thesis using copied(3) bits(2) by auto
qed

lemma preserve_loop:
  "\<forall>c \<in> set cs. c < sl_nchunks s \<Longrightarrow> wf_seed s \<Longrightarrow> f_size f = sl_size s \<Longrightarrow>
    \<exists>s'. fold_result (preserve_chunk f) cs s = Inr s' \<and> wf_seed s' \<and> sl_size s' = sl_size s \<and>
    (\<forall>d. saved_chunk s' d \<longleftrightarrow> saved_chunk s d \<or> d \<in> set cs) \<and>
    (\<forall>S. cow S (f_dat f) s \<longrightarrow> cow S (f_dat f) s')"
proof (induction cs arbitrary: s)
  case (Cons c cs)
  from preserve_chunk_step [of s c f] Cons.prems obtain s1 where s1: "preserve_chunk f c s = Inr s1"
      "wf_seed s1" "sl_size s1 = sl_size s" "sl_nchunks s1 = sl_nchunks s"
      "\<forall>d. saved_chunk s1 d \<longleftrightarrow> saved_chunk s d \<or> d = c"
      "\<forall>S. cow S (f_dat f) s \<longrightarrow> cow S (f_dat f) s1"
    by auto
  from Cons.prems s1 obtain s2 where "fold_result (preserve_chunk f) cs s1 = Inr s2"
      "wf_seed s2" "sl_size s2 = sl_size s1"
      "\<forall>d. saved_chunk s2 d \<longleftrightarrow> saved_chunk s1 d \<or> d \<in> set cs"
      "\<forall>S. cow S (f_dat f) s1 \<longrightarrow> cow S (f_dat f) s2"
    using Cons.IH [of s1] by auto
  with s1 show ?case by auto
qed auto

text \<open>Once a chunk is saved, what the replica holds there no longer matters.\<close>

lemma cow_change:
  "cow S R s \<Longrightarrow> (\<And>x. x < sl_size s \<Longrightarrow> R' x \<noteq> R x \<Longrightarrow> saved_chunk s (x div SEED_CHUNK)) \<Longrightarrow> cow S R' s"
  unfolding cow_def by metis

lemma range_chunks:
  assumes "off \<le> x" "x < off + n" "x < sz"
  shows "x div SEED_CHUNK \<in> set [off div SEED_CHUNK..<
    min ((off + n + SEED_CHUNK - 1) div SEED_CHUNK) (nchunks_of sz)]"
proof -
  have "off div SEED_CHUNK \<le> x div SEED_CHUNK" using assms(1) by (rule div_le_mono)
  moreover have "x div SEED_CHUNK < nchunks_of (off + n)" using assms(2) by (rule chunk_of_byte)
  moreover have "x div SEED_CHUNK < nchunks_of sz" using assms(3) by (rule chunk_of_byte)
  ultimately show ?thesis by (simp add: nchunks_of_def)
qed

lemma preserve_total:
  assumes "wf_seed s" "f_size f = sl_size s"
  shows "\<exists>s'. preserve f off n s = Inr s' \<and> wf_seed s' \<and> sl_size s' = sl_size s \<and>
    (\<forall>x < sl_size s. off \<le> x \<and> x < off + n \<longrightarrow> saved_chunk s' (x div SEED_CHUNK)) \<and>
    (\<forall>S. cow S (f_dat f) s \<longrightarrow> cow S (f_dat f) s')"
proof -
  let ?cs = "[off div SEED_CHUNK..<min ((off + n + SEED_CHUNK - 1) div SEED_CHUNK) (sl_nchunks s)]"
  obtain s' where s': "fold_result (preserve_chunk f) ?cs s = Inr s'" "wf_seed s'"
      "sl_size s' = sl_size s" "\<forall>d. saved_chunk s' d \<longleftrightarrow> saved_chunk s d \<or> d \<in> set ?cs"
      "\<forall>S. cow S (f_dat f) s \<longrightarrow> cow S (f_dat f) s'"
    using preserve_loop [of ?cs s f] assms by auto
  have "saved_chunk s' (x div SEED_CHUNK)" if "x < sl_size s" "off \<le> x" "x < off + n" for x
    using s'(4) range_chunks [OF that(2,3,1)] assms(1) by (simp only: wf_seed_def) blast
  with s' show ?thesis by (auto simp: preserve_def)
qed

lemma preserve_keeps_cow:
  assumes "wf_seed s" "f_size f = sl_size s" "cow S (f_dat f) s" "preserve f off n s = Inr s'"
    and "\<And>x. \<not> (off \<le> x \<and> x < off + n) \<Longrightarrow> R' x = f_dat f x"
  shows "cow S R' s'"
proof -
  from preserve_total [OF assms(1,2), of off n] assms(3,4) have
      "cow S (f_dat f) s'" "sl_size s' = sl_size s"
      "\<forall>x < sl_size s. off \<le> x \<and> x < off + n \<longrightarrow> saved_chunk s' (x div SEED_CHUNK)"
    by auto
  with assms(5) show ?thesis by (metis cow_change)
qed

interpretation sl: snapshot_layer preserve cow sl_size wf_seed
proof unfold_locales
  show "\<exists>l'. preserve f off n l = Inr l' \<and> wf_seed l' \<and> sl_size l' = sl_size l"
    if "wf_seed l" "f_size f = sl_size l" for l f off n
    using preserve_total [OF that] by blast
qed (rule preserve_keeps_cow)

subsection \<open>Restart\<close>

lemma data_regions_from_spec:
  assumes "f_size f = sz" "off \<le> sz"
  shows "\<exists>rs. data_regions_from f sz off = Inr rs \<and> (\<forall>(d, n) \<in> set rs. off \<le> d \<and> 0 < n \<and> d + n \<le> sz) \<and>
    (\<forall>x. off \<le> x \<and> x < sz \<longrightarrow> (f_alloc f x \<longleftrightarrow> (\<exists>(d, n) \<in> set rs. d \<le> x \<and> x < d + n)))"
  using assms(2)
proof (induction "sz - off" arbitrary: off rule: less_induct)
  case less
  show ?case
  proof (cases "seek_data f off")
    case None
    then have "\<not> f_alloc f x" if "off \<le> x" "x < sz" for x
      using that assms(1) seek_data_None by blast
    then show ?thesis using None by (subst data_regions_from.simps) auto
  next
    case (Some d)
    note d = seek_dataD [OF Some]
    obtain h where h: "seek_hole f d = Some h" using seek_hole_Some d by blast
    note hD = seek_holeD [OF h]
    have "sz - h < sz - off" "h \<le> sz" using d hD assms(1) by auto
    then obtain rs where rs: "data_regions_from f sz h = Inr rs"
        "\<forall>(d, n) \<in> set rs. h \<le> d \<and> 0 < n \<and> d + n \<le> sz"
        "\<forall>x. h \<le> x \<and> x < sz \<longrightarrow> (f_alloc f x \<longleftrightarrow> (\<exists>(d, n) \<in> set rs. d \<le> x \<and> x < d + n))"
      using less.hyps by blast
    have "data_regions_from f sz off = Inr ((d, h - d) # rs)"
      using Some h rs(1) d assms(1) by (subst data_regions_from.simps) simp
    moreover have "f_alloc f x \<longleftrightarrow> (\<exists>(d, n) \<in> set ((d, h - d) # rs). d \<le> x \<and> x < d + n)"
      if "off \<le> x" "x < sz" for x
    proof (cases "h \<le> x")
      case True
      with rs(3) that d hD show ?thesis by simp
    next
      case False
      then have "\<not> (\<exists>(d, n) \<in> set rs. d \<le> x \<and> x < d + n)" using rs(2) by fastforce
      with False d hD that show ?thesis by auto
    qed
    moreover have "\<forall>(d, n) \<in> set ((d, h - d) # rs). off \<le> d \<and> 0 < n \<and> d + n \<le> sz"
      using rs(2) d hD assms(1) by fastforce
    ultimately show ?thesis by blast
  qed
qed

lemma chunk_range_iff:
  assumes "0 < n"
  shows "c \<in> set (chunk_range off n) \<longleftrightarrow> (\<exists>x. off \<le> x \<and> x < off + n \<and> x div SEED_CHUNK = c)"
proof
  assume "c \<in> set (chunk_range off n)"
  then have c: "off div SEED_CHUNK \<le> c" "c * SEED_CHUNK < off + n"
    using chunk_index [of c "off + n"] by (auto simp: chunk_range_def nchunks_of_def)
  show "\<exists>x. off \<le> x \<and> x < off + n \<and> x div SEED_CHUNK = c"
  proof (cases "off \<le> c * SEED_CHUNK")
    case True
    with c(2) show ?thesis by (intro exI [of _ "c * SEED_CHUNK"]) (simp add: SEED_CHUNK_def)
  next
    case False
    then have "c \<le> off div SEED_CHUNK" by (simp add: SEED_CHUNK_def less_eq_div_iff_mult_less_eq)
    with c(1) assms show ?thesis by (intro exI [of _ off]) simp
  qed
next
  assume "\<exists>x. off \<le> x \<and> x < off + n \<and> x div SEED_CHUNK = c"
  then obtain x where x: "off \<le> x" "x < off + n" "x div SEED_CHUNK = c" by blast
  from range_chunks [OF x(1,2), of "off + n"] x(2,3) show "c \<in> set (chunk_range off n)"
    by (simp add: chunk_range_def nchunks_of_def)
qed

text \<open>A new daemon finds as saved exactly the chunks that have an allocated byte.\<close>

lemma SeedLayer_restart:
  assumes "f_size f = sz" "wf_file f" "f_blk f dvd SEED_CHUNK"
  shows "\<exists>s. SeedLayer f sz = Inr s \<and> wf_seed s \<and> sl_size s = sz \<and> sl_file s = f \<and>
    (\<forall>c. saved_chunk s c \<longleftrightarrow> (\<exists>x < sz. x div SEED_CHUNK = c \<and> f_alloc f x))"
proof -
  let ?zero = "replicate ((nchunks_of sz + 7) div 8) 0 :: bytes"
  obtain rs where rs: "data_regions f sz = Inr rs" "\<forall>(d, n) \<in> set rs. 0 < n \<and> d + n \<le> sz"
      "\<forall>x < sz. f_alloc f x \<longleftrightarrow> (\<exists>(d, n) \<in> set rs. d \<le> x \<and> x < d + n)"
    using data_regions_from_spec [OF assms(1), of 0] by (auto simp: data_regions_def)
  let ?cs = "concat (map (\<lambda>(off, n). chunk_range off n) rs)"
  have cs: "c \<in> set ?cs \<longleftrightarrow> (\<exists>x < sz. x div SEED_CHUNK = c \<and> f_alloc f x)" for c
  proof -
    have "c \<in> set ?cs \<longleftrightarrow> (\<exists>(d, n) \<in> set rs. \<exists>x. d \<le> x \<and> x < d + n \<and> x div SEED_CHUNK = c)"
      using rs(2) chunk_range_iff by (auto simp: split_beta)
    also have "\<dots> \<longleftrightarrow> (\<exists>x < sz. x div SEED_CHUNK = c \<and> (\<exists>(d, n) \<in> set rs. d \<le> x \<and> x < d + n))"
      using rs(2) by (auto simp: split_beta intro: less_le_trans)
    finally show ?thesis using rs(3) by auto
  qed
  have "c div 8 < length ?zero" if "c \<in> set ?cs" for c
  proof -
    from that cs obtain x where "x < sz" "x div SEED_CHUNK = c" by blast
    then have "c < nchunks_of sz" using chunk_of_byte by blast
    then show ?thesis by simp
  qed
  then obtain sv where sv: "fold_result set_saved ?cs ?zero = Inr sv" "length sv = length ?zero"
      "\<forall>d. saved_bit sv d \<longleftrightarrow> saved_bit ?zero d \<or> d \<in> set ?cs"
    using set_saved_fold [of ?cs ?zero] by blast
  have "\<not> saved_bit ?zero d" for d by (simp add: saved_bit_def)
  with sv(3) cs have bits: "saved_bit sv c \<longleftrightarrow> (\<exists>x < sz. x div SEED_CHUNK = c \<and> f_alloc f x)" for c
    by blast
  let ?s = "\<lparr>sl_size = sz, sl_file = f, sl_nchunks = nchunks_of sz, sl_saved = sv\<rparr>"
  have "SeedLayer f sz = Inr ?s"
    unfolding SeedLayer_def Let_def nchunks_of_def [symmetric]
    by (simp only: rs(1) sv(1) bind_result_simps)
  with sv(2) bits assms show ?thesis
    by (intro exI [of _ ?s]) (simp add: wf_seed_def)
qed

lemma cow_restart:
  assumes "wf_seed s" "cow S R s" "SeedLayer (sl_file s) (sl_size s) = Inr s'"
  shows "wf_seed s' \<and> cow S R s'"
proof -
  have s': "wf_seed s'" "sl_size s' = sl_size s" "sl_file s' = sl_file s"
      "\<forall>c. saved_chunk s' c \<longleftrightarrow> (\<exists>x < sl_size s. x div SEED_CHUNK = c \<and> f_alloc (sl_file s) x)"
    using SeedLayer_restart [of "sl_file s" "sl_size s"] assms by (auto simp: wf_seed_def)
  with assms(2) show ?thesis unfolding cow_def by metis
qed

subsection \<open>Written at most once\<close>

lemma preserve_chunk_keeps_saved:
  assumes "wf_seed s" "c < sl_nchunks s" "f_size f = sl_size s" "preserve_chunk f c s = Inr s'"
    and "x < sl_size s" "saved_chunk s (x div SEED_CHUNK)"
  shows "f_dat (sl_file s') x = f_dat (sl_file s) x"
  using assms(1-3)
proof (cases rule: preserve_chunk_cases)
  case (copied sv)
  then have "x div SEED_CHUNK \<noteq> c" using assms(6) by auto
  then show ?thesis using copied(3) assms(4) copied_chunk(4) [OF assms(1,2,5)] by auto
qed (use assms(4) in auto)

lemma preserve_loop_keeps_saved:
  "\<forall>c \<in> set cs. c < sl_nchunks s \<Longrightarrow> wf_seed s \<Longrightarrow> f_size f = sl_size s \<Longrightarrow>
    fold_result (preserve_chunk f) cs s = Inr s' \<Longrightarrow> x < sl_size s \<Longrightarrow>
    saved_chunk s (x div SEED_CHUNK) \<Longrightarrow> f_dat (sl_file s') x = f_dat (sl_file s) x"
proof (induction cs arbitrary: s)
  case (Cons c cs)
  from preserve_chunk_step [of s c f] Cons.prems obtain s1 where s1: "preserve_chunk f c s = Inr s1"
      "wf_seed s1" "sl_size s1 = sl_size s" "sl_nchunks s1 = sl_nchunks s"
      "\<forall>d. saved_chunk s1 d \<longleftrightarrow> saved_chunk s d \<or> d = c"
    by auto
  have "f_dat (sl_file s') x = f_dat (sl_file s1) x"
    by (rule Cons.IH) (use Cons.prems s1 in auto)
  also have "\<dots> = f_dat (sl_file s) x"
    using Cons.prems s1 by (intro preserve_chunk_keeps_saved [of s c f]) auto
  finally show ?case .
qed simp

subsection \<open>A sample layer\<close>

text \<open>A device of four bytes with its seed file, just created.\<close>

definition sample_layer :: seed_layer where
  "sample_layer = \<lparr>sl_size = 4, sl_file = os_truncated 4096 4, sl_nchunks = 1, sl_saved = [0]\<rparr>"

definition sample_replica :: sfile where
  "sample_replica = \<lparr>f_size = 4, f_dat = (\<lambda>x. if x = 1 then 7 else 0), f_alloc = (\<lambda>_. True), f_blk = 4096\<rparr>"

lemma sample_layer_wf: "wf_seed sample_layer" "f_size sample_replica = sl_size sample_layer"
  by (simp_all add: sample_layer_def sample_replica_def wf_seed_def nchunks_of_def SEED_CHUNK_def
      wf_file_def os_truncated_def)

lemma sample_layer_cow: "cow (f_dat sample_replica) (f_dat sample_replica) sample_layer"
  by (simp add: cow_def sample_layer_def saved_bit_def os_truncated_def SEED_CHUNK_def)

subsection \<open>Properties\<close>

text \<open>
  (C3) Copy on first write: called before a range of the replica is overwritten,
  \<^verbatim>\<open>SeedLayer.preserve\<close> raises nothing, and the layer it leaves still determines the seed-time
  content of every chunk that was not entirely zero, whatever is written to the range next.
\<close>

theorem preserve_before_overwrite:
  assumes "wf_seed s" and "f_size f = sl_size s" and "cow S (f_dat f) s"
  shows "\<exists>s'. preserve f off n s = Inr s' \<and> wf_seed s' \<and> sl_size s' = sl_size s \<and>
    (\<forall>R'. (\<forall>x. \<not> (off \<le> x \<and> x < off + n) \<longrightarrow> R' x = f_dat f x) \<longrightarrow> cow S R' s')"
proof -
  from sl.guard_total [OF assms(1,2)] obtain s' where
    "preserve f off n s = Inr s'" "wf_seed s'" "sl_size s' = sl_size s" by blast
  with sl.guard_consistent [OF assms] show ?thesis by blast
qed

theorem preserve_before_overwrite_witness:
  "\<exists>s'. preserve sample_replica 0 2 sample_layer = Inr s' \<and> wf_seed s' \<and>
    sl_size s' = sl_size sample_layer \<and>
    (\<forall>R'. (\<forall>x. \<not> (0 \<le> x \<and> x < 0 + 2) \<longrightarrow> R' x = f_dat sample_replica x) \<longrightarrow>
      cow (f_dat sample_replica) R' s')"
  by (rule preserve_before_overwrite [OF sample_layer_wf sample_layer_cow])

text \<open>
  (C19) The seed-time content of a chunk is written to \<^verbatim>\<open>seed.raw\<close> at most once: a chunk that
  is marked as saved is not touched by any later call.
\<close>

theorem preserve_writes_once:
  assumes "wf_seed s" and "f_size f = sl_size s" and "preserve f off n s = Inr s'"
    and "x < sl_size s" and "saved_chunk s (x div SEED_CHUNK)"
  shows "f_dat (sl_file s') x = f_dat (sl_file s) x"
  using assms by (intro preserve_loop_keeps_saved) (auto simp: preserve_def)

theorem preserve_writes_once_witness:
  "\<exists>s'. preserve sample_replica 0 2 (sample_layer\<lparr>sl_saved := [1]\<rparr>) = Inr s' \<and>
    f_dat (sl_file s') 1 = f_dat (sl_file (sample_layer\<lparr>sl_saved := [1]\<rparr>)) 1"
proof -
  let ?s = "sample_layer\<lparr>sl_saved := [1]\<rparr>"
  have run: "preserve sample_replica 0 2 ?s = Inr ?s"
    by (simp add: sample_layer_def SEED_CHUNK_def preserve_def preserve_chunk_def is_saved_def)
  have "wf_seed ?s" "f_size sample_replica = sl_size ?s" "1 < sl_size ?s"
      "saved_chunk ?s (1 div SEED_CHUNK)"
    using sample_layer_wf by (simp_all add: sample_layer_def wf_seed_def saved_bit_def SEED_CHUNK_def nchunks_of_def)
  from preserve_writes_once [OF this(1,2) run this(3,4)] run show ?thesis by blast
qed

text \<open>
  (C18) A restart of the daemon loses nothing of it: the constructor recomputes the bit array
  from the allocated regions of \<^verbatim>\<open>seed.raw\<close>, and the invariant holds for the new layer too.
\<close>

theorem seed_layer_restart:
  assumes "wf_seed s" and "cow S R s"
  shows "\<exists>s'. SeedLayer (sl_file s) (sl_size s) = Inr s' \<and> wf_seed s' \<and> cow S R s'"
proof -
  from assms(1) obtain s' where "SeedLayer (sl_file s) (sl_size s) = Inr s'"
    using SeedLayer_restart [of "sl_file s" "sl_size s"] by (auto simp: wf_seed_def)
  with cow_restart [OF assms] show ?thesis by blast
qed

theorem seed_layer_restart_witness:
  "\<exists>s'. SeedLayer (sl_file sample_layer) (sl_size sample_layer) = Inr s' \<and> wf_seed s' \<and>
    cow (f_dat sample_replica) (f_dat sample_replica) s'"
  by (rule seed_layer_restart [OF sample_layer_wf(1) sample_layer_cow])

end
