(* ===== verification/Replica.thy ===== *)
theory Replica
  imports Dmcdp Seed_Layer
begin

text \<open>
  The class \<^verbatim>\<open>Replica\<close> of \<^verbatim>\<open>rkcdp/rkcdpd.py\<close>: \<^verbatim>\<open>replica.raw\<close> with its optional seed layer.

  \<^verbatim>\<open>Replica.write\<close> is specified by the effect a record has on the image of the disk
  (\<open>entry_effect\<close>). The locale \<open>record_sink\<close> states what any consumer of records promises, its
  lemmas lift one record to a stream, and the class is an instance of it. The libc call
  \<^verbatim>\<open>fallocate\<close> is a parameter: \<open>Some f'\<close> when it returns 0, \<open>None\<close> when it fails (or the
  library cannot be loaded); \<open>punches_holes\<close> is what its manual page promises.
\<close>

subsection \<open>Effect of a record on the disk\<close>

definition entry_effect :: "entry \<Rightarrow> image \<Rightarrow> image" where
  "entry_effect = (\<lambda>(r, p) m.
     if r_type r = REC_WRITE then img_write m (r_sector r * 512) p
     else if r_type r = REC_DISCARD \<or> r_type r = REC_ZERO then img_zero m (r_sector r * 512) (r_len r)
     else m)"

text \<open>The bytes a record can change.\<close>

definition entry_touches :: "entry \<Rightarrow> nat \<Rightarrow> bool" where
  "entry_touches = (\<lambda>(r, p) x. r_sector r * 512 \<le> x \<and>
     (if r_type r = REC_WRITE then x < r_sector r * 512 + length p
      else (r_type r = REC_DISCARD \<or> r_type r = REC_ZERO) \<and> x < r_sector r * 512 + r_len r))"

subsection \<open>The class\<close>

record replica =
  rp_file :: sfile
  rp_libc :: bool          \<comment> \<open>\<^verbatim>\<open>self._libc is not None\<close>\<close>
  rp_punch_ok :: bool
  rp_seed :: "seed_layer option"

type_synonym fallocate_call = "sfile \<Rightarrow> nat \<Rightarrow> nat \<Rightarrow> sfile option"

text \<open>The constructor: \<open>existing\<close> and \<open>seed_raw\<close> are the files found at the two paths, \<open>blk\<close> the
  block size of a file it creates.\<close>

definition Replica_init :: "nat \<Rightarrow> sfile option \<Rightarrow> sfile option \<Rightarrow> nat \<Rightarrow> replica result" where
  "Replica_init blk existing seed_raw sz =
     (let f = (case existing of None \<Rightarrow> os_truncated blk sz | Some g \<Rightarrow> g) in
      case seed_raw of
        None \<Rightarrow> Inr \<lparr>rp_file = f, rp_libc = False, rp_punch_ok = True, rp_seed = None\<rparr>
      | Some g \<Rightarrow> bind_result (SeedLayer g sz) (\<lambda>s.
          Inr \<lparr>rp_file = f, rp_libc = False, rp_punch_ok = True, rp_seed = Some s\<rparr>))"

text \<open>\<^verbatim>\<open>if self.seed: self.seed.preserve(self.fd, off, length)\<close>.\<close>

definition guard_seed :: "nat \<Rightarrow> nat \<Rightarrow> replica \<Rightarrow> replica result" where
  "guard_seed off n rp =
     (case rp_seed rp of
        None \<Rightarrow> Inr rp
      | Some s \<Rightarrow> bind_result (preserve (rp_file rp) off n s) (\<lambda>s'. Inr (rp\<lparr>rp_seed := Some s'\<rparr>)))"

definition rp_pwrite :: "bytes \<Rightarrow> nat \<Rightarrow> replica \<Rightarrow> replica result" where
  "rp_pwrite buf off rp =
     bind_result (guard_seed off (length buf) rp) (\<lambda>rp1.
       Inr (rp1\<lparr>rp_file := os_pwrite (rp_file rp1) buf off\<rparr>))"

text \<open>
  \<^verbatim>\<open>punch\<close>. The statement \<^verbatim>\<open>import ctypes\<close> stands in the branch that is taken only while
  \<^verbatim>\<open>_libc\<close> is unset, and makes \<^verbatim>\<open>ctypes\<close> a local name of the whole method. In every later
  call the name is unbound when the arguments \<^verbatim>\<open>ctypes.c_int64(off)\<close> are evaluated; the
  exception is swallowed by \<^verbatim>\<open>except Exception\<close> and punching is switched off.
\<close>

definition punch_zero_fill :: "nat \<Rightarrow> nat \<Rightarrow> replica \<Rightarrow> replica" where
  "punch_zero_fill off n rp = rp\<lparr>rp_file := os_pwrite (rp_file rp) (replicate n 0) off\<rparr>"

definition punch :: "fallocate_call \<Rightarrow> nat \<Rightarrow> nat \<Rightarrow> replica \<Rightarrow> replica" where
  "punch fallocate off n rp =
     (if rp_punch_ok rp then
        (if \<not> rp_libc rp then
           (case fallocate (rp_file rp) off n of
              Some f' \<Rightarrow> rp\<lparr>rp_libc := True, rp_file := f'\<rparr>
            | None \<Rightarrow> punch_zero_fill off n (rp\<lparr>rp_libc := True, rp_punch_ok := False\<rparr>))
         else punch_zero_fill off n (rp\<lparr>rp_punch_ok := False\<rparr>))
      else punch_zero_fill off n rp)"

definition rp_write :: "fallocate_call \<Rightarrow> entry \<Rightarrow> replica \<Rightarrow> replica result" where
  "rp_write fallocate = (\<lambda>(r, payload) rp.
     if r_type r = REC_WRITE then rp_pwrite payload (r_sector r * 512) rp
     else if r_type r = REC_DISCARD \<or> r_type r = REC_ZERO then
       bind_result (guard_seed (r_sector r * 512) (r_len r) rp) (\<lambda>rp1.
         Inr (punch fallocate (r_sector r * 512) (r_len r) rp1))
     else Inr rp)"

subsection \<open>Well-formedness\<close>

text \<open>What fallocate(2) documents for \<^verbatim>\<open>FALLOC_FL_PUNCH_HOLE | FALLOC_FL_KEEP_SIZE\<close>.\<close>

definition punches_holes :: "fallocate_call \<Rightarrow> bool" where
  "punches_holes fa \<longleftrightarrow> (\<forall>f off n f'. fa f off n = Some f' \<longrightarrow>
     f_size f' = f_size f \<and> f_dat f' = img_zero (f_dat f) off n \<and> (wf_file f \<longrightarrow> wf_file f'))"

definition wf_replica :: "nat \<Rightarrow> replica \<Rightarrow> bool" where
  "wf_replica sz rp \<longleftrightarrow> f_size (rp_file rp) = sz \<and> wf_file (rp_file rp) \<and>
     (case rp_seed rp of None \<Rightarrow> True | Some s \<Rightarrow> wf_seed s \<and> sl_size s = sz)"

text \<open>A record within a device of \<open>sz\<close> bytes, and no longer than one system call can write.\<close>

definition fits :: "nat \<Rightarrow> entry \<Rightarrow> bool" where
  "fits sz = (\<lambda>(r, p).
     if r_type r = REC_WRITE then r_sector r * 512 + length p \<le> sz \<and> length p \<le> RW_MAX
     else if r_type r = REC_DISCARD \<or> r_type r = REC_ZERO then
       r_sector r * 512 + r_len r \<le> sz \<and> r_len r \<le> RW_MAX
     else True)"

text \<open>The seed layer, if there is one, still holds the seed-time image \<open>S\<close>.\<close>

definition seed_consistent :: "image \<Rightarrow> replica \<Rightarrow> bool" where
  "seed_consistent S rp \<longleftrightarrow>
     (case rp_seed rp of None \<Rightarrow> True | Some s \<Rightarrow> cow S (f_dat (rp_file rp)) s)"

subsection \<open>Interface: a consumer of records\<close>

locale record_sink =
  fixes apply_rec :: "entry \<Rightarrow> 's \<Rightarrow> 's result"
    and view :: "'s \<Rightarrow> image"
    and ok :: "'s \<Rightarrow> bool"
    and admissible :: "entry \<Rightarrow> bool"
  assumes apply_rec: "ok s \<Longrightarrow> admissible e \<Longrightarrow>
    \<exists>s'. apply_rec e s = Inr s' \<and> ok s' \<and> view s' = entry_effect e (view s)"
begin

text \<open>A stream of records is applied in order, without an error.\<close>

lemma apply_stream:
  "ok s \<Longrightarrow> list_all admissible es \<Longrightarrow>
    \<exists>s'. fold_result apply_rec es s = Inr s' \<and> ok s' \<and> view s' = fold entry_effect es (view s)"
proof (induction es arbitrary: s)
  case (Cons e es)
  from Cons.prems obtain s1 where s1: "apply_rec e s = Inr s1" "ok s1" "view s1 = entry_effect e (view s)"
    using apply_rec [of s e] by auto
  from Cons.IH [OF s1(2)] Cons.prems(2) obtain s2 where
    "fold_result apply_rec es s1 = Inr s2" "ok s2" "view s2 = fold entry_effect es (view s1)" by auto
  with s1 show ?case by simp
qed simp

lemma apply_twice:
  assumes "ok s" "list_all admissible es" "fold_result apply_rec es s = Inr s1"
  shows "\<exists>s2. fold_result apply_rec es s1 = Inr s2 \<and> view s2 = fold entry_effect es (view s1)"
proof -
  from apply_stream [OF assms(1,2)] assms(3) have "ok s1" by auto
  from apply_stream [OF this assms(2)] show ?thesis by blast
qed

end

lemma rp_write_error: "rp_write fa x rp = Inl e \<Longrightarrow> e \<noteq> Diverges"
proof -
  have g: "e \<noteq> Diverges" if "guard_seed off n rp = Inl e" for off n
    using that preserve_chunk_error
    by (auto simp: guard_seed_def preserve_def bind_result_def split: option.splits sum.splits
        dest!: fold_result_error [where P = "\<lambda>e. e \<noteq> Diverges"])
  assume "rp_write fa x rp = Inl e"
  with g show ?thesis
    by (cases x) (auto simp: rp_write_def rp_pwrite_def bind_result_def split: if_splits sum.splits)
qed

subsection \<open>Effects\<close>

lemma entry_effect_untouched: "\<not> entry_touches e x \<Longrightarrow> entry_effect e m x = m x"
  by (cases e) (auto simp: entry_effect_def entry_touches_def img_simps split: if_splits)

lemma entry_effect_touched: "entry_touches e x \<Longrightarrow> entry_effect e m x = entry_effect e m' x"
  by (cases e) (auto simp: entry_effect_def entry_touches_def img_simps split: if_splits)

lemma fold_effect_cong: "m x = m' x \<Longrightarrow> fold entry_effect es m x = fold entry_effect es m' x"
proof (induction es arbitrary: m m')
  case (Cons e es)
  have "entry_effect e m x = entry_effect e m' x"
    using Cons.prems entry_effect_untouched entry_effect_touched by (cases "entry_touches e x") metis+
  with Cons.IH [of "entry_effect e m" "entry_effect e m'"] show ?case by simp
qed simp

lemma fold_effect_untouched:
  "\<forall>e \<in> set es. \<not> entry_touches e x \<Longrightarrow> fold entry_effect es m x = m x"
  by (induction es arbitrary: m) (auto simp: entry_effect_untouched)

lemma fold_effect_touched:
  "\<exists>e \<in> set es. entry_touches e x \<Longrightarrow> fold entry_effect es m x = fold entry_effect es m' x"
proof (induction es arbitrary: m m')
  case (Cons e es)
  show ?case
  proof (cases "entry_touches e x")
    case True
    then have "entry_effect e m x = entry_effect e m' x" by (rule entry_effect_touched)
    with fold_effect_cong [of "entry_effect e m" x "entry_effect e m'" es] show ?thesis by simp
  next
    case False
    with Cons.prems have "\<exists>e \<in> set es. entry_touches e x" by auto
    from Cons.IH [OF this, of "entry_effect e m" "entry_effect e m'"] show ?thesis by simp
  qed
qed simp

text \<open>Applying a stream again to its own result changes nothing.\<close>

lemma fold_effect_idem: "fold entry_effect es (fold entry_effect es m) = fold entry_effect es m"
proof
  fix x
  show "fold entry_effect es (fold entry_effect es m) x = fold entry_effect es m x"
    by (cases "\<exists>e \<in> set es. entry_touches e x")
      (auto simp: fold_effect_untouched intro: fold_effect_touched)
qed

subsection \<open>The class refines the effect\<close>

lemma guard_seed_step:
  assumes "wf_replica sz rp"
  shows "\<exists>rp1. guard_seed off n rp = Inr rp1 \<and> wf_replica sz rp1 \<and> rp_file rp1 = rp_file rp \<and>
    (\<forall>S f'. seed_consistent S rp \<longrightarrow> (\<forall>x. \<not> (off \<le> x \<and> x < off + n) \<longrightarrow> f_dat f' x = f_dat (rp_file rp) x) \<longrightarrow>
      seed_consistent S (rp1\<lparr>rp_file := f'\<rparr>))"
proof (cases "rp_seed rp")
  case None
  with assms show ?thesis by (simp add: guard_seed_def seed_consistent_def)
next
  case (Some s)
  with assms have s: "wf_seed s" "f_size (rp_file rp) = sl_size s" "sl_size s = sz"
    by (auto simp: wf_replica_def)
  from sl.guard_total [OF s(1,2)] obtain s' where s': "preserve (rp_file rp) off n s = Inr s'"
      "wf_seed s'" "sl_size s' = sl_size s" by blast
  have "cow S (f_dat f') s'" if "cow S (f_dat (rp_file rp)) s"
      "\<forall>x. \<not> (off \<le> x \<and> x < off + n) \<longrightarrow> f_dat f' x = f_dat (rp_file rp) x" for S f'
    using sl.guard_consistent [OF s(1,2) that(1) s'(1)] that(2) by blast
  with Some s s' assms show ?thesis
    by (auto simp: guard_seed_def seed_consistent_def wf_replica_def)
qed

lemma punch_file_cases:
  assumes "punches_holes fa"
  obtains (hole) f' where "rp_file (punch fa off n rp) = f'" "f_size f' = f_size (rp_file rp)"
      "f_dat f' = img_zero (f_dat (rp_file rp)) off n" "wf_file (rp_file rp) \<longrightarrow> wf_file f'"
  | (fill) "rp_file (punch fa off n rp) = os_pwrite (rp_file rp) (replicate n 0) off"
proof (cases "rp_punch_ok rp \<and> \<not> rp_libc rp \<and> fa (rp_file rp) off n \<noteq> None")
  case True
  then obtain f' where f': "fa (rp_file rp) off n = Some f'" by blast
  with True assms show thesis
    by (intro hole [of f']) (auto simp: punch_def punches_holes_def)
next
  case False
  then show thesis by (intro fill) (auto simp: punch_def punch_zero_fill_def split: option.splits)
qed

lemma punch_seed [simp]: "rp_seed (punch fa off n rp) = rp_seed rp"
  by (simp add: punch_def punch_zero_fill_def split: option.split)

lemma punch_dat:
  assumes "punches_holes fa" "off + n \<le> f_size (rp_file rp)" "n \<le> RW_MAX"
  shows "f_dat (rp_file (punch fa off n rp)) = img_zero (f_dat (rp_file rp)) off n \<and>
    f_size (rp_file (punch fa off n rp)) = f_size (rp_file rp) \<and>
    (wf_file (rp_file rp) \<longrightarrow> wf_file (rp_file (punch fa off n rp)))"
  using assms(1)
proof (cases rule: punch_file_cases [of fa off n rp])
  case fill
  with assms(2,3) show ?thesis
    by (simp add: file_simps img_write_replicate_0 wf_file_os_pwrite)
qed auto

lemma wf_replica_file:
  "wf_replica sz rp \<Longrightarrow> f_size f' = sz \<Longrightarrow> wf_file f' \<Longrightarrow> wf_replica sz (rp\<lparr>rp_file := f'\<rparr>)"
  by (simp add: wf_replica_def)

lemma rp_pwrite_step:
  assumes "wf_replica sz rp" "off + length buf \<le> sz" "length buf \<le> RW_MAX"
  shows "\<exists>rp'. rp_pwrite buf off rp = Inr rp' \<and> wf_replica sz rp' \<and>
    f_dat (rp_file rp') = img_write (f_dat (rp_file rp)) off buf \<and>
    (\<forall>S. seed_consistent S rp \<longrightarrow> seed_consistent S rp')"
proof -
  obtain rp1 where rp1: "guard_seed off (length buf) rp = Inr rp1" "wf_replica sz rp1"
      "rp_file rp1 = rp_file rp"
      "\<forall>S f'. seed_consistent S rp \<longrightarrow>
        (\<forall>x. \<not> (off \<le> x \<and> x < off + length buf) \<longrightarrow> f_dat f' x = f_dat (rp_file rp) x) \<longrightarrow>
        seed_consistent S (rp1\<lparr>rp_file := f'\<rparr>)"
    using guard_seed_step [OF assms(1)] by blast
  let ?f = "os_pwrite (rp_file rp) buf off"
  have "f_dat ?f = img_write (f_dat (rp_file rp)) off buf" using assms(3) by (simp add: file_simps)
  moreover have "wf_replica sz (rp1\<lparr>rp_file := ?f\<rparr>)"
    using rp1(2) assms(1,2) by (intro wf_replica_file)
      (auto simp: wf_replica_def file_simps wf_file_os_pwrite)
  moreover have "seed_consistent S (rp1\<lparr>rp_file := ?f\<rparr>)" if "seed_consistent S rp" for S
    using rp1(4) that calculation(1) by (simp add: img_write_def)
  ultimately show ?thesis using rp1(1,3) by (simp add: rp_pwrite_def)
qed

lemma rp_zero_step:
  assumes "punches_holes fa" "wf_replica sz rp" "off + n \<le> sz" "n \<le> RW_MAX"
  shows "\<exists>rp'. bind_result (guard_seed off n rp) (\<lambda>rp1. Inr (punch fa off n rp1)) = Inr rp' \<and>
    wf_replica sz rp' \<and> f_dat (rp_file rp') = img_zero (f_dat (rp_file rp)) off n \<and>
    (\<forall>S. seed_consistent S rp \<longrightarrow> seed_consistent S rp')"
proof -
  obtain rp1 where rp1: "guard_seed off n rp = Inr rp1" "wf_replica sz rp1"
      "rp_file rp1 = rp_file rp"
      "\<forall>S f'. seed_consistent S rp \<longrightarrow>
        (\<forall>x. \<not> (off \<le> x \<and> x < off + n) \<longrightarrow> f_dat f' x = f_dat (rp_file rp) x) \<longrightarrow>
        seed_consistent S (rp1\<lparr>rp_file := f'\<rparr>)"
    using guard_seed_step [OF assms(2)] by blast
  let ?rp = "punch fa off n rp1"
  have dat: "f_dat (rp_file ?rp) = img_zero (f_dat (rp_file rp)) off n"
      "f_size (rp_file ?rp) = sz" "wf_file (rp_file ?rp)"
    using punch_dat [OF assms(1), of off n rp1] rp1(2,3) assms(2-4) by (auto simp: wf_replica_def)
  moreover have "wf_replica sz ?rp" using dat rp1(2) by (simp add: wf_replica_def)
  moreover have "seed_consistent S ?rp" if "seed_consistent S rp" for S
  proof -
    have "\<forall>x. \<not> (off \<le> x \<and> x < off + n) \<longrightarrow> f_dat (rp_file ?rp) x = f_dat (rp_file rp) x"
      using dat(1) by (simp add: img_zero_def)
    with rp1(4) that have "seed_consistent S (rp1\<lparr>rp_file := rp_file ?rp\<rparr>)" by blast
    then show ?thesis by (simp add: seed_consistent_def split: option.splits)
  qed
  ultimately show ?thesis using rp1(1) by simp
qed

lemma rp_write_step:
  assumes "punches_holes fa" "wf_replica sz rp" "fits sz e"
  shows "\<exists>rp'. rp_write fa e rp = Inr rp' \<and> wf_replica sz rp' \<and>
    f_dat (rp_file rp') = entry_effect e (f_dat (rp_file rp)) \<and>
    (\<forall>S. seed_consistent S rp \<longrightarrow> seed_consistent S rp')"
proof -
  obtain r p where e: "e = (r, p)" by (cases e)
  consider (w) "r_type r = REC_WRITE"
    | (z) "r_type r \<noteq> REC_WRITE" "r_type r = REC_DISCARD \<or> r_type r = REC_ZERO"
    | (n) "r_type r \<noteq> REC_WRITE" "\<not> (r_type r = REC_DISCARD \<or> r_type r = REC_ZERO)" by blast
  then show ?thesis
  proof cases
    case w
    with assms(2,3) e rp_pwrite_step [of sz rp "r_sector r * 512" p] show ?thesis
      by (simp add: rp_write_def fits_def entry_effect_def)
  next
    case z
    with assms e rp_zero_step [of fa sz rp "r_sector r * 512" "r_len r"] show ?thesis
      by (simp add: rp_write_def fits_def entry_effect_def)
  next
    case n
    with assms(2) e show ?thesis by (simp add: rp_write_def entry_effect_def)
  qed
qed

text \<open>The class as a consumer of records; the seed layer is part of what it keeps in order.\<close>

interpretation rp: record_sink "rp_write fa" "\<lambda>rp. f_dat (rp_file rp)"
    "\<lambda>rp. punches_holes fa \<and> wf_replica sz rp \<and> seed_consistent S rp" "fits sz" for fa sz S
  using rp_write_step by unfold_locales blast

interpretation rpw: record_sink "rp_write fa" "\<lambda>rp. f_dat (rp_file rp)"
    "\<lambda>rp. punches_holes fa \<and> wf_replica sz rp" "fits sz" for fa sz
  using rp_write_step by unfold_locales blast

lemma rp_write_stream:
  assumes "punches_holes fa" "wf_replica sz rp" "list_all (fits sz) es"
  shows "\<exists>rp'. fold_result (rp_write fa) es rp = Inr rp' \<and> wf_replica sz rp' \<and>
      f_dat (rp_file rp') = fold entry_effect es (f_dat (rp_file rp))"
  using rpw.apply_stream [where fa = fa and sz = sz and s = rp and es = es] assms by auto

lemma fold_fits_wf:
  "punches_holes fa \<Longrightarrow> wf_replica sz rp \<Longrightarrow> seed_consistent S rp \<Longrightarrow> list_all (fits sz) es \<Longrightarrow>
    \<exists>rp'. fold_result (rp_write fa) es rp = Inr rp' \<and> wf_replica sz rp' \<and> seed_consistent S rp' \<and>
      f_dat (rp_file rp') = fold entry_effect es (f_dat (rp_file rp))"
  using rp.apply_stream [where fa = fa and sz = sz and S = S and s = rp and es = es] by auto

subsection \<open>A sample replica\<close>

definition sample_rp :: replica where
  "sample_rp = \<lparr>rp_file = os_truncated 4096 2048, rp_libc = False, rp_punch_ok = True, rp_seed = None\<rparr>"

definition no_fallocate :: fallocate_call where
  "no_fallocate f off n = None"

lemma sample_rp_ok: "punches_holes no_fallocate" "wf_replica 2048 sample_rp" "seed_consistent S sample_rp"
  by (simp_all add: punches_holes_def no_fallocate_def wf_replica_def sample_rp_def os_truncated_def
      wf_file_def seed_consistent_def)

lemma sample_fits: "fits 2048 (sample_rec, [7, 9])"
  by (simp add: fits_def sample_rec_def REC_WRITE_def RW_MAX_def)

subsection \<open>Properties\<close>

text \<open>
  (C5) \<^verbatim>\<open>Replica.write\<close> implements the effect of every record on the disk: a stream of records
  within the device is applied without an error, in order, to exactly the image it describes,
  and all along the seed layer keeps the seed-time content.
\<close>

theorem replica_write_refines:
  assumes "punches_holes fa" and "wf_replica sz rp" and "seed_consistent S rp"
    and "list_all (fits sz) es"
  shows "\<exists>rp'. fold_result (rp_write fa) es rp = Inr rp' \<and> wf_replica sz rp' \<and> seed_consistent S rp' \<and>
    f_dat (rp_file rp') = fold entry_effect es (f_dat (rp_file rp))"
  using assms by (rule fold_fits_wf)

theorem replica_write_refines_witness:
  "\<exists>rp'. fold_result (rp_write no_fallocate) [(sample_rec, [7, 9])] sample_rp = Inr rp' \<and>
    wf_replica 2048 rp' \<and> seed_consistent (\<lambda>_. 0) rp' \<and>
    f_dat (rp_file rp') = fold entry_effect [(sample_rec, [7, 9])] (f_dat (rp_file sample_rp))"
  by (rule replica_write_refines) (simp_all add: sample_rp_ok sample_fits)

text \<open>
  Re-applying is idempotent: a stream of records applied a second time, to the replica it
  produced, leaves the image as it is. This is what the base copy and the redone recovery
  after a restart rely on.
\<close>

theorem replica_reapply_idempotent:
  assumes "punches_holes fa" and "wf_replica sz rp" and "list_all (fits sz) es"
  shows "\<exists>rp1 rp2. fold_result (rp_write fa) es rp = Inr rp1 \<and> fold_result (rp_write fa) es rp1 = Inr rp2 \<and>
    f_dat (rp_file rp2) = f_dat (rp_file rp1)"
proof -
  note step = rp_write_stream [OF assms(1) _ assms(3)]
  obtain rp1 where rp1: "fold_result (rp_write fa) es rp = Inr rp1" "wf_replica sz rp1"
      "f_dat (rp_file rp1) = fold entry_effect es (f_dat (rp_file rp))"
    using step [OF assms(2)] by blast
  obtain rp2 where "fold_result (rp_write fa) es rp1 = Inr rp2"
      "f_dat (rp_file rp2) = fold entry_effect es (f_dat (rp_file rp1))"
    using step [OF rp1(2)] by blast
  with rp1 show ?thesis by (auto simp: fold_effect_idem)
qed

theorem replica_reapply_idempotent_witness:
  "\<exists>rp1 rp2. fold_result (rp_write no_fallocate) [(sample_rec, [7, 9])] sample_rp = Inr rp1 \<and>
    fold_result (rp_write no_fallocate) [(sample_rec, [7, 9])] rp1 = Inr rp2 \<and>
    f_dat (rp_file rp2) = f_dat (rp_file rp1)"
  by (rule replica_reapply_idempotent [of _ 2048]) (simp_all add: sample_rp_ok sample_fits)

text \<open>
  The first call of \<^verbatim>\<open>punch\<close> is the only one that can punch a hole: whatever \<^verbatim>\<open>fallocate\<close>
  would do, the second call writes zeros, so that the discarded range stays allocated.
\<close>

theorem punch_only_once:
  "punch fa' off' n' (punch fa off n rp) = (punch fa off n rp)\<lparr>rp_punch_ok := False,
     rp_file := os_pwrite (rp_file (punch fa off n rp)) (replicate n' 0) off'\<rparr>"
  by (auto simp: punch_def punch_zero_fill_def split: option.splits)

text \<open>
  The zero fill is one \<^verbatim>\<open>os.pwrite\<close> whose return value is not looked at: it zeroes the
  range up to the largest transfer of one system call and leaves the rest of a longer range
  as it was.
\<close>

theorem punch_zero_fill_prefix:
  "f_dat (rp_file (punch_zero_fill off n rp)) = img_zero (f_dat (rp_file rp)) off (min n RW_MAX)"
  by (simp add: punch_zero_fill_def f_dat_os_pwrite take_replicate min.commute flip: img_write_replicate_0)

end
