(* ===== verification/Daemon.thy ===== *)
theory Daemon
  imports Replica
begin

text \<open>
  The state of the class \<^verbatim>\<open>Daemon\<close> of \<^verbatim>\<open>rkcdp/rkcdpd.py\<close>, the files of the node directory
  it shares with the other tools, and its apply path: \<^verbatim>\<open>paused\<close>, \<^verbatim>\<open>recovery_active\<close>,
  \<^verbatim>\<open>apply_one\<close>, \<^verbatim>\<open>consume\<close> and \<^verbatim>\<open>apply_pending\<close>.

  Times are rational seconds and arguments of the operations that call \<^verbatim>\<open>time.time\<close>. An
  operation that raises has the result \<open>Inl\<close>; nothing in the daemon catches these exceptions,
  so the process ends there and what matters afterwards is on disk. Writing to the log is not
  modelled. \<open>d_base_running\<close> and \<open>d_recovery\<close> stand for the two copy threads: alive or not, and
  for the recovery thread the argument it works on.
\<close>

unbundle bit_operations_syntax

subsection \<open>The files of a node directory\<close>

record seeded_info =
  sd_boot_id :: "string option"
  sd_time :: "rat option"

record consistent_info =
  cs_seq :: "nat option"
  cs_time :: rat
  cs_held :: rat

text \<open>\<^verbatim>\<open>manifest.json\<close>; a key that may be missing is an option.\<close>

record manifest =
  mf_node :: string
  mf_device :: string
  mf_dm_name :: string
  mf_gen :: nat
  mf_abi :: nat
  mf_size :: nat
  mf_base_end_seq :: "nat option"
  mf_base_time :: "rat option"
  mf_seeded :: "seeded_info option"
  mf_consistent :: "consistent_info option"

text \<open>\<^verbatim>\<open>recovery.json\<close>; the gap sequence number is -1 for the drain after a seed.\<close>

record recovery_rec =
  rc_gap_seq :: int
  rc_extents :: "(nat \<times> nat) list"
  rc_started :: rat

record node_dir =
  nd_manifest :: "manifest option"
  nd_pending :: "bytes option"
  nd_recovery :: "recovery_rec option"
  nd_lock :: bool
  nd_seed_raw :: "sfile option"

subsection \<open>The daemon\<close>

record progress_info =
  bp_done :: nat
  bp_total :: nat

record daemon =
  d_size :: nat
  d_manifest :: manifest
  d_seed_required :: bool
  d_replica :: replica
  d_boot_id :: "string option"
  d_copying :: "(nat \<times> nat) option"
  d_deferred :: "entry list"
  d_base_running :: bool
  d_base_progress :: "progress_info option"
  d_recovery :: "recovery_rec option"
  d_recovery_queue :: "int list"
  d_consistent_sec :: rat
  d_freeze_cap_sec :: rat
  d_cycle_sec :: rat
  d_last_consistent :: rat
  d_gap_seen :: "nat option"
  d_last_seq :: "nat option"
  d_last_time :: "rat option"
  d_records :: nat
  d_bytes :: nat
  d_dir :: node_dir

definition READ_SZ :: nat where "READ_SZ = 16 * 2 ^ 20"

definition paused :: "daemon \<Rightarrow> bool" where
  "paused d = nd_lock (d_dir d)"

definition recovery_active :: "daemon \<Rightarrow> bool" where
  "recovery_active d \<longleftrightarrow> d_recovery d \<noteq> None"

text \<open>\<^verbatim>\<open>c is not None and start < c[1] and end > c[0]\<close>.\<close>

definition in_flight :: "daemon \<Rightarrow> cdp_rec \<Rightarrow> bool" where
  "in_flight d r =
     (case d_copying d of
        None \<Rightarrow> False
      | Some c \<Rightarrow> r_sector r * 512 < snd c \<and> r_sector r * 512 + r_len r > fst c)"

definition apply_one :: "fallocate_call \<Rightarrow> entry \<Rightarrow> daemon \<Rightarrow> daemon result" where
  "apply_one fa = (\<lambda>(r, payload) d.
     if in_flight d r then Inr (d\<lparr>d_deferred := d_deferred d @ [(r, payload)]\<rparr>)
     else bind_result (rp_write fa (r, payload) (d_replica d)) (\<lambda>rp.
       Inr (d\<lparr>d_replica := rp,
              d_last_seq := Some (r_seq r),
              d_records := d_records d + 1,
              d_bytes := d_bytes d + (if r_type r = REC_WRITE then r_len r else 0)\<rparr>)))"

text \<open>The gap check of \<^verbatim>\<open>consume\<close>.\<close>

definition note_gap :: "cdp_rec \<Rightarrow> daemon \<Rightarrow> daemon" where
  "note_gap r d =
     (if r_flags r AND F_GAP_BEFORE \<noteq> 0 \<and> Some (r_seq r) \<noteq> d_gap_seen d
      then d\<lparr>d_gap_seen := Some (r_seq r), d_recovery_queue := d_recovery_queue d @ [int (r_seq r)]\<rparr>
      else d)"

text \<open>The loop of \<^verbatim>\<open>consume\<close>: its state is the daemon, \<^verbatim>\<open>off\<close> and \<^verbatim>\<open>parked\<close>.\<close>

definition consume_entry ::
  "fallocate_call \<Rightarrow> bool \<Rightarrow> bytes \<Rightarrow> entry \<Rightarrow> daemon \<times> nat \<times> bytes \<Rightarrow> (daemon \<times> nat \<times> bytes) result" where
  "consume_entry fa park buf = (\<lambda>(r, payload) (d, off, parked).
     let d1 = note_gap r d in
     if park then Inr (d1, off + r_rec_len r, parked @ slice buf off (off + r_rec_len r))
     else bind_result (apply_one fa (r, payload) d1) (\<lambda>d2. Inr (d2, off + r_rec_len r, parked)))"

definition append_pending :: "bytes \<Rightarrow> daemon \<Rightarrow> daemon" where
  "append_pending parked d =
     (if parked = [] then d
      else d\<lparr>d_dir := (d_dir d)\<lparr>nd_pending :=
        Some ((case nd_pending (d_dir d) of None \<Rightarrow> [] | Some old \<Rightarrow> old) @ parked)\<rparr>\<rparr>)"

text \<open>\<^verbatim>\<open>consume\<close>: the unconsumed tail and the daemon. A generator that raises after some records
  were handled ends the call with the exception. One that never ends makes the call never return; a
  buffer that holds such a header counts as that also when handling a record before it raises.\<close>

definition consume :: "fallocate_call \<Rightarrow> bytes \<Rightarrow> daemon \<Rightarrow> (bytes \<times> daemon) result" where
  "consume fa buf d =
     (case iter_records buf of
        None \<Rightarrow> Inl Diverges
      | Some (es, e) \<Rightarrow>
          bind_result (fold_result (consume_entry fa (paused d) buf) es (d, 0, [])) (\<lambda>(d1, off, parked).
            (case e of
               GRaise err \<Rightarrow> Inl err
             | GReturn _ \<Rightarrow> Inr (drop off buf, append_pending parked d1))))"

text \<open>The loop of \<^verbatim>\<open>apply_pending\<close> over what is left of the file; \<open>tail\<close> is the local variable.\<close>

function pending_loop :: "fallocate_call \<Rightarrow> nat \<Rightarrow> bytes \<Rightarrow> bytes \<Rightarrow> daemon \<Rightarrow> daemon result" where
  "pending_loop fa sz tail rest d =
     (if sz = 0 \<or> rest = [] then Inr d
      else
        (let buf = tail @ take sz rest in
         case iter_records buf of
           None \<Rightarrow> Inl Diverges
         | Some (es, e) \<Rightarrow>
             bind_result (fold_result (apply_one fa) es d) (\<lambda>d1.
               (case e of
                  GRaise err \<Rightarrow> Inl err
                | GReturn off \<Rightarrow> pending_loop fa sz (drop off buf) (drop sz rest) d1))))"
  by pat_completeness auto
termination
  by (relation "measure (\<lambda>(fa, sz, tail, rest, d). length rest)") auto

declare pending_loop.simps [simp del]

definition apply_pending :: "fallocate_call \<Rightarrow> daemon \<Rightarrow> daemon result" where
  "apply_pending fa d =
     (case nd_pending (d_dir d) of
        None \<Rightarrow> Inr d
      | Some content \<Rightarrow>
          bind_result (pending_loop fa READ_SZ [] content d) (\<lambda>d1.
            Inr (d1\<lparr>d_dir := (d_dir d1)\<lparr>nd_pending := None\<rparr>\<rparr>)))"

subsection \<open>Well-formedness and the apply path as a consumer of records\<close>

definition wf_daemon :: "daemon \<Rightarrow> bool" where
  "wf_daemon d \<longleftrightarrow> wf_replica (d_size d) (d_replica d)"

abbreviation d_image :: "daemon \<Rightarrow> image" where
  "d_image d \<equiv> f_dat (rp_file (d_replica d))"

text \<open>Everything of the daemon that consuming records leaves alone, and what is left alone by
  applying them without looking for gaps.\<close>

definition same_settings :: "daemon \<Rightarrow> daemon \<Rightarrow> bool" where
  "same_settings d d' \<longleftrightarrow> d_size d' = d_size d \<and> d_manifest d' = d_manifest d \<and>
     d_seed_required d' = d_seed_required d \<and> d_boot_id d' = d_boot_id d \<and> d_copying d' = d_copying d \<and>
     d_base_running d' = d_base_running d \<and> d_base_progress d' = d_base_progress d \<and>
     d_recovery d' = d_recovery d \<and> d_consistent_sec d' = d_consistent_sec d \<and>
     d_freeze_cap_sec d' = d_freeze_cap_sec d \<and> d_cycle_sec d' = d_cycle_sec d \<and>
     d_last_consistent d' = d_last_consistent d \<and> d_last_time d' = d_last_time d \<and> d_dir d' = d_dir d"

definition same_control :: "daemon \<Rightarrow> daemon \<Rightarrow> bool" where
  "same_control d d' \<longleftrightarrow> same_settings d d' \<and> d_recovery_queue d' = d_recovery_queue d \<and>
     d_gap_seen d' = d_gap_seen d"

lemma same_settings_refl [simp]: "same_settings d d"
  by (simp add: same_settings_def)

lemma same_settings_trans: "same_settings a b \<Longrightarrow> same_settings b c \<Longrightarrow> same_settings a c"
  by (simp add: same_settings_def)

lemma same_control_refl [simp]: "same_control d d"
  by (simp add: same_control_def)

lemma same_control_trans: "same_control a b \<Longrightarrow> same_control b c \<Longrightarrow> same_control a c"
  by (simp add: same_control_def same_settings_def)

lemma apply_one_idle:
  assumes "punches_holes fa" "wf_daemon d" "d_copying d = None" "fits (d_size d) e"
  shows "\<exists>d'. apply_one fa e d = Inr d' \<and> wf_daemon d' \<and> same_control d d' \<and>
    d_deferred d' = d_deferred d \<and> d_image d' = entry_effect e (d_image d) \<and>
    d_last_seq d' = Some (r_seq (fst e)) \<and> d_records d' = d_records d + 1"
proof -
  obtain r p where e: "e = (r, p)" by (cases e)
  from rp_write_step [OF assms(1), of "d_size d" "d_replica d" e] assms(2,4) obtain rp where
    rp: "rp_write fa e (d_replica d) = Inr rp" "wf_replica (d_size d) rp"
      "f_dat (rp_file rp) = entry_effect e (d_image d)" by (auto simp: wf_daemon_def)
  with e assms(3) show ?thesis
    by (simp add: apply_one_def in_flight_def wf_daemon_def same_control_def same_settings_def)
qed

interpretation ap: record_sink "apply_one fa" d_image
    "\<lambda>d. punches_holes fa \<and> wf_daemon d \<and> d_copying d = None \<and> same_control base d" "fits (d_size base)" for fa base
proof unfold_locales
  fix d e
  assume ok: "punches_holes fa \<and> wf_daemon d \<and> d_copying d = None \<and> same_control base d"
    and adm: "fits (d_size base) e"
  then have "fits (d_size d) e" by (simp add: same_control_def same_settings_def)
  with ok apply_one_idle [of fa d e] obtain d' where
    "apply_one fa e d = Inr d'" "wf_daemon d'" "same_control d d'" "d_image d' = entry_effect e (d_image d)"
    by blast
  moreover from this ok have "same_control base d'" "d_copying d' = None"
    by (auto simp: same_control_def same_settings_def)
  ultimately show "\<exists>d'. apply_one fa e d = Inr d' \<and>
      (punches_holes fa \<and> wf_daemon d' \<and> d_copying d' = None \<and> same_control base d') \<and>
      d_image d' = entry_effect e (d_image d)"
    using ok by blast
qed

lemma apply_all_idle:
  assumes "punches_holes fa" "wf_daemon d" "d_copying d = None" "list_all (fits (d_size d)) es"
  shows "\<exists>d'. fold_result (apply_one fa) es d = Inr d' \<and> wf_daemon d' \<and> same_control d d' \<and>
    d_image d' = fold entry_effect es (d_image d)"
  using ap.apply_stream [where fa = fa and base = d and s = d and es = es] assms by auto

subsection \<open>Gaps\<close>

text \<open>The sequence numbers that a stream adds to the recovery queue.\<close>

fun new_gaps :: "nat option \<Rightarrow> entry list \<Rightarrow> nat list" where
  "new_gaps seen [] = []"
| "new_gaps seen ((r, p) # es) =
     (if r_flags r AND F_GAP_BEFORE \<noteq> 0 \<and> Some (r_seq r) \<noteq> seen
      then r_seq r # new_gaps (Some (r_seq r)) es else new_gaps seen es)"

definition note_gaps :: "entry list \<Rightarrow> daemon \<Rightarrow> daemon" where
  "note_gaps es d = fold (\<lambda>e. note_gap (fst e)) es d"

lemma note_gap_control:
  "d_size (note_gap r d) = d_size d" "d_replica (note_gap r d) = d_replica d"
  "d_copying (note_gap r d) = d_copying d" "d_dir (note_gap r d) = d_dir d"
  "d_deferred (note_gap r d) = d_deferred d" "d_manifest (note_gap r d) = d_manifest d"
  "d_last_seq (note_gap r d) = d_last_seq d" "d_recovery (note_gap r d) = d_recovery d"
  by (simp_all add: note_gap_def)

lemma note_gaps_control:
  "d_size (note_gaps es d) = d_size d" "d_replica (note_gaps es d) = d_replica d"
  "d_copying (note_gaps es d) = d_copying d" "d_dir (note_gaps es d) = d_dir d"
  "d_recovery_queue (note_gaps es d) = d_recovery_queue d @ map int (new_gaps (d_gap_seen d) es)"
proof -
  have "d_size (note_gaps es d) = d_size d \<and> d_replica (note_gaps es d) = d_replica d \<and>
      d_copying (note_gaps es d) = d_copying d \<and> d_dir (note_gaps es d) = d_dir d \<and>
      d_recovery_queue (note_gaps es d) = d_recovery_queue d @ map int (new_gaps (d_gap_seen d) es)"
  proof (induction es arbitrary: d)
    case (Cons e es)
    obtain r p where "e = (r, p)" by (cases e)
    with Cons.IH [of "note_gap r d"] show ?case by (simp add: note_gaps_def note_gap_def)
  qed (simp add: note_gaps_def)
  then show "d_size (note_gaps es d) = d_size d" "d_replica (note_gaps es d) = d_replica d"
    "d_copying (note_gaps es d) = d_copying d" "d_dir (note_gaps es d) = d_dir d"
    "d_recovery_queue (note_gaps es d) = d_recovery_queue d @ map int (new_gaps (d_gap_seen d) es)"
    by blast+
qed

subsection \<open>Consuming a buffer\<close>

lemma slice_append: "a \<le> b \<Longrightarrow> b \<le> c \<Longrightarrow> slice buf a b @ slice buf b c = slice buf a c"
  using take_add [of "b - a" "c - b" "drop a buf"] by (simp add: slice_def)

abbreviation rec_lens :: "entry list \<Rightarrow> nat" where
  "rec_lens es \<equiv> (\<Sum>e\<leftarrow>es. r_rec_len (fst e))"

lemma consume_parked:
  "fold_result (consume_entry fa True buf) es (d, off, slice buf 0 off) =
    Inr (note_gaps es d, off + rec_lens es, slice buf 0 (off + rec_lens es))"
proof (induction es arbitrary: d off)
  case (Cons e es)
  obtain r p where e: "e = (r, p)" by (cases e)
  have "slice buf 0 off @ slice buf off (off + r_rec_len r) = slice buf 0 (off + r_rec_len r)"
    by (rule slice_append) simp_all
  with Cons.IH [of "note_gap r d" "off + r_rec_len r"] e show ?case
    by (simp add: consume_entry_def note_gaps_def add.assoc)
qed (simp add: note_gaps_def)

text \<open>What \<^verbatim>\<open>consume\<close> leaves behind when it applies the records \<open>es\<close>.\<close>

definition consumed :: "entry list \<Rightarrow> daemon \<Rightarrow> daemon \<Rightarrow> bool" where
  "consumed es d d' \<longleftrightarrow> wf_daemon d' \<and> same_settings d d' \<and>
     d_image d' = fold entry_effect es (d_image d) \<and>
     d_recovery_queue d' = d_recovery_queue d @ map int (new_gaps (d_gap_seen d) es) \<and>
     d_gap_seen d' = (if new_gaps (d_gap_seen d) es = [] then d_gap_seen d
       else Some (last (new_gaps (d_gap_seen d) es))) \<and>
     d_last_seq d' = (if es = [] then d_last_seq d else Some (r_seq (fst (last es))))"

lemma consumed_Nil [simp]: "wf_daemon d \<Longrightarrow> consumed [] d d"
  by (simp add: consumed_def)

lemma new_gaps_append:
  "new_gaps seen (xs @ ys) = new_gaps seen xs @
    new_gaps (if new_gaps seen xs = [] then seen else Some (last (new_gaps seen xs))) ys"
  by (induction seen xs rule: new_gaps.induct) auto

lemma consumed_append:
  "consumed xs d d1 \<Longrightarrow> consumed ys d1 d2 \<Longrightarrow> consumed (xs @ ys) d d2"
  by (auto simp: consumed_def new_gaps_append intro: same_settings_trans)

lemma consumed_one:
  assumes "punches_holes fa" "wf_daemon d" "d_copying d = None" "fits (d_size d) (r, p)"
  shows "\<exists>d'. apply_one fa (r, p) (note_gap r d) = Inr d' \<and> consumed [(r, p)] d d'"
proof -
  let ?g = "note_gap r d"
  have "wf_daemon ?g" "d_copying ?g = None" "fits (d_size ?g) (r, p)"
    using assms by (simp_all add: wf_daemon_def note_gap_control)
  from apply_one_idle [OF assms(1) this] obtain d1 where d1: "apply_one fa (r, p) ?g = Inr d1" "wf_daemon d1"
      "same_control ?g d1" "d_image d1 = entry_effect (r, p) (d_image ?g)" "d_last_seq d1 = Some (r_seq r)" by auto
  have "same_settings d ?g" by (simp add: same_settings_def note_gap_def)
  with d1(3) have "same_settings d d1" by (auto simp: same_control_def intro: same_settings_trans)
  with d1 show ?thesis by (auto simp: consumed_def same_control_def note_gap_def)
qed

lemma consume_applied:
  assumes "punches_holes fa"
  shows "wf_daemon d \<Longrightarrow> d_copying d = None \<Longrightarrow> list_all (fits (d_size d)) es \<Longrightarrow>
    \<exists>d'. fold_result (consume_entry fa False buf) es (d, off, parked) = Inr (d', off + rec_lens es, parked) \<and>
      consumed es d d'"
proof (induction es arbitrary: d off)
  case (Cons e es)
  obtain r p where e: "e = (r, p)" by (cases e)
  from consumed_one [OF assms Cons.prems(1,2), of r p] Cons.prems(3) e obtain d1 where
    d1: "apply_one fa (r, p) (note_gap r d) = Inr d1" "consumed [e] d d1" by auto
  then have c: "wf_daemon d1" "d_copying d1 = None" "d_size d1 = d_size d"
    using Cons.prems(2) by (simp_all add: consumed_def same_settings_def)
  from Cons.prems(3) c(3) have "list_all (fits (d_size d1)) es" by simp
  from Cons.IH [OF c(1,2) this, of "off + r_rec_len r"] obtain d2 where
    d2: "fold_result (consume_entry fa False buf) es (d1, off + r_rec_len r, parked) =
        Inr (d2, off + r_rec_len r + rec_lens es, parked)" "consumed es d1 d2" by blast
  have "fold_result (consume_entry fa False buf) (e # es) (d, off, parked) =
      Inr (d2, off + rec_lens (e # es), parked)"
    using d1(1) d2(1) e by (simp add: consume_entry_def add.assoc)
  with consumed_append [OF d1(2) d2(2)] show ?case by simp
qed simp

subsection \<open>Applying what was parked\<close>

lemma iter_records_tail:
  assumes "iter_records a = Some (es, GReturn k)" "inside es"
  shows "iter_records (drop k a) = Some ([], GReturn 0)"
  using assms iter_records_prefix [of a "[]" es k] by (metis append_Nil2 append_self_conv
      diff_self_eq_0 gen_end.inject(1) option.inject prod.inject)

lemma inside_append [simp]: "inside (xs @ ys) \<longleftrightarrow> inside xs \<and> inside ys"
  by (simp add: inside_def)

lemma pending_loop_all:
  "0 < sz \<Longrightarrow> iter_records (tail @ rest) = Some (es, GReturn k) \<Longrightarrow> inside es \<Longrightarrow>
    iter_records tail = Some ([], GReturn 0) \<Longrightarrow>
    pending_loop fa sz tail rest d = fold_result (apply_one fa) es d"
proof (induction "length rest" arbitrary: tail rest es k d rule: less_induct)
  case less
  show ?case
  proof (cases "rest = []")
    case True
    with less.prems show ?thesis by (simp add: pending_loop.simps)
  next
    case False
    let ?buf = "tail @ take sz rest"
    have "iter_records (?buf @ drop sz rest) = Some (es, GReturn k)" using less.prems(2) by simp
    from iter_records_prefix [OF this less.prems(3)] obtain es1 es2 j where
      j: "iter_records ?buf = Some (es1, GReturn j)" "es = es1 @ es2"
        "iter_records (drop j ?buf @ drop sz rest) = Some (es2, GReturn (k - j))" by metis
    have ins: "inside es1" "inside es2" using less.prems(3) j(2) by auto
    have "length (drop sz rest) < length rest" using False less.prems(1) by simp
    from less.hyps [OF this less.prems(1) j(3) ins(2) iter_records_tail [OF j(1) ins(1)]]
    have "pending_loop fa sz (drop j ?buf) (drop sz rest) d1 = fold_result (apply_one fa) es2 d1" for d1 .
    with False less.prems(1) j(1,2) show ?thesis
      by (subst pending_loop.simps) (simp add: fold_result_append)
  qed
qed

lemma apply_pending_fold:
  assumes "nd_pending (d_dir d) = Some content" "iter_records content = Some (es, GReturn k)" "inside es"
  shows "apply_pending fa d = bind_result (fold_result (apply_one fa) es d)
    (\<lambda>d1. Inr (d1\<lparr>d_dir := (d_dir d1)\<lparr>nd_pending := None\<rparr>\<rparr>))"
proof -
  have "iter_records [] = Some ([], GReturn 0)"
    by (simp add: iter_records_def iter_from_stop REC_SIZE_def)
  then have "pending_loop fa READ_SZ [] content d = fold_result (apply_one fa) es d"
    using assms(2,3) by (intro pending_loop_all [of _ _ _ _ k]) (simp_all add: READ_SZ_def)
  with assms(1) show ?thesis by (simp add: apply_pending_def)
qed

lemma consume_entry_error: "consume_entry fa park buf x z = Inl e \<Longrightarrow> e \<noteq> Diverges"
  using rp_write_error
  by (cases x; cases z) (auto simp: consume_entry_def apply_one_def bind_result_def Let_def split: if_splits sum.splits)

lemma consume_entry_off:
  "consume_entry fa park buf x (d, off, p) = Inr (d', off', p') \<Longrightarrow> off' = off + r_rec_len (fst x)"
  by (cases x) (auto simp: consume_entry_def bind_result_def Let_def split: if_splits sum.splits)

lemma consume_fold_off:
  "fold_result (consume_entry fa park buf) es (d, off, p) = Inr (d', off', p') \<Longrightarrow> off' = off + rec_lens es"
proof (induction es arbitrary: d off p)
  case (Cons x es)
  from Cons.prems obtain d1 off1 p1 where
    "consume_entry fa park buf x (d, off, p) = Inr (d1, off1, p1)"
    "fold_result (consume_entry fa park buf) es (d1, off1, p1) = Inr (d', off', p')"
    by (auto simp: bind_result_Inr_iff)
  with Cons.IH [of d1 off1 p1] consume_entry_off [of fa park buf x d off p d1 off1 p1] show ?case by simp
qed simp

text \<open>\<^verbatim>\<open>consume\<close> fails to return exactly when the generator does; when it returns, the tail is what
  the generator has left.\<close>

lemma consume_diverges_iff: "consume fa buf d = Inl Diverges \<longleftrightarrow> iter_records buf = None"
  using iter_from_error [of "length buf" buf 0]
  by (auto simp: consume_def bind_result_def iter_records_def split: option.splits sum.splits gen_end.splits
      dest!: fold_result_error [where P = "\<lambda>e. e \<noteq> Diverges"] dest: consume_entry_error)

lemma consume_tail:
  assumes "consume fa buf d = Inr (tail, d')"
  shows "\<exists>k. visited buf k \<and> k \<le> length buf \<and> tail = drop k buf"
proof -
  obtain es e where it: "iter_records buf = Some (es, e)"
    using assms by (cases "iter_records buf") (auto simp: consume_def)
  obtain d1 off p where f: "fold_result (consume_entry fa (paused d) buf) es (d, 0, []) = Inr (d1, off, p)"
    using assms it by (auto simp: consume_def bind_result_Inr_iff)
  obtain k where k: "iter_records buf = Some (es, GReturn k)" and t: "tail = drop off buf"
    using assms it f by (cases e) (auto simp: consume_def bind_result_def)
  have "k = rec_lens es" "k \<le> length buf"
    using iter_from_consumed [OF k [unfolded iter_records_def]] by (simp_all add: comp_def)
  moreover have "visited buf k"
    using iter_from_visited [OF k [unfolded iter_records_def]] visited_start by blast
  ultimately show ?thesis using t consume_fold_off [OF f] by auto
qed

lemma consume_running:
  assumes "punches_holes fa" "wf_daemon d" "d_copying d = None" "\<not> paused d"
    and it: "iter_records buf = Some (es, GReturn k)" and "list_all (fits (d_size d)) es"
  shows "\<exists>d'. consume fa buf d = Inr (drop k buf, d') \<and> consumed es d d'"
proof -
  obtain d' where d': "fold_result (consume_entry fa False buf) es (d, 0, []) = Inr (d', 0 + rec_lens es, [])"
      "consumed es d d'"
    using consume_applied [OF assms(1-3,6)] by blast
  have "k = rec_lens es"
    using iter_from_consumed [of "length buf" buf 0 es k] it by (simp add: iter_records_def comp_def)
  with d' it assms(4) show ?thesis by (simp add: consume_def append_pending_def)
qed

lemma consume_paused:
  assumes "paused d" and it: "iter_records buf = Some (es, GReturn k)"
  shows "consume fa buf d = Inr (drop k buf, append_pending (take k buf) (note_gaps es d))"
proof -
  have "k = rec_lens es"
    using iter_from_consumed [of "length buf" buf 0 es k] it by (simp add: iter_records_def comp_def)
  with consume_parked [of fa buf es d 0] assms show ?thesis
    by (simp add: consume_def slice_def)
qed

subsection \<open>A sample daemon\<close>

definition sample_dir :: node_dir where
  "sample_dir = \<lparr>nd_manifest = None, nd_pending = None, nd_recovery = None, nd_lock = False, nd_seed_raw = None\<rparr>"

definition sample_manifest :: manifest where
  "sample_manifest = \<lparr>mf_node = ''n'', mf_device = ''/dev/sda'', mf_dm_name = ''rkcdp'', mf_gen = 1,
     mf_abi = 1, mf_size = 2048, mf_base_end_seq = None, mf_base_time = None, mf_seeded = None,
     mf_consistent = None\<rparr>"

definition sample_daemon :: daemon where
  "sample_daemon = \<lparr>d_size = 2048, d_manifest = sample_manifest, d_seed_required = False,
     d_replica = sample_rp, d_boot_id = None, d_copying = None, d_deferred = [],
     d_base_running = False, d_base_progress = None, d_recovery = None, d_recovery_queue = [],
     d_consistent_sec = 3600, d_freeze_cap_sec = 30, d_cycle_sec = 1, d_last_consistent = 0,
     d_gap_seen = None, d_last_seq = None, d_last_time = None, d_records = 0, d_bytes = 0,
     d_dir = sample_dir\<rparr>"

lemma sample_daemon_ok:
  "wf_daemon sample_daemon" "d_copying sample_daemon = None" "\<not> paused sample_daemon"
  "list_all (fits (d_size sample_daemon)) [(sample_rec, [7, 9])]" "inside [(sample_rec, [7, 9])]"
  using sample_rp_ok(2) sample_fits
  by (simp_all add: wf_daemon_def sample_daemon_def paused_def sample_dir_def inside_def
      sample_rec_def REC_SIZE_def)

subsection \<open>Properties\<close>

text \<open>
  (C1) \<^verbatim>\<open>consume\<close> while nothing is paused and no chunk is in flight: every complete record of
  the buffer is applied to the replica, in stream order and without an error, the unconsumed
  tail is returned, and each record that announces a gap is queued for a recovery once.
\<close>

theorem consume_applies:
  assumes "punches_holes fa" and "wf_daemon d" and "d_copying d = None" and "\<not> paused d"
    and "iter_records buf = Some (es, GReturn k)" and "list_all (fits (d_size d)) es"
  shows "\<exists>d'. consume fa buf d = Inr (drop k buf, d') \<and> wf_daemon d' \<and>
    d_image d' = fold entry_effect es (d_image d) \<and> d_dir d' = d_dir d \<and>
    d_recovery_queue d' = d_recovery_queue d @ map int (new_gaps (d_gap_seen d) es)"
  using consume_running [OF assms] by (auto simp: consumed_def same_settings_def)

theorem consume_applies_witness:
  "\<exists>d'. consume no_fallocate sample_bytes sample_daemon = Inr (drop 64 sample_bytes, d') \<and> wf_daemon d' \<and>
    d_image d' = fold entry_effect [(sample_rec, [7, 9])] (d_image sample_daemon) \<and>
    d_dir d' = d_dir sample_daemon \<and>
    d_recovery_queue d' = d_recovery_queue sample_daemon @
      map int (new_gaps (d_gap_seen sample_daemon) [(sample_rec, [7, 9])])"
  by (rule consume_applies [OF sample_rp_ok(1) sample_daemon_ok(1-3) sample_iter sample_daemon_ok(4)])

text \<open>
  (C2) \<^verbatim>\<open>consume\<close> while a rebuild holds the lock: the replica is not touched, the bytes of the
  complete records, and only these, are appended to \<^verbatim>\<open>pending.bin\<close> as they came, and the
  gaps are queued as usual.
\<close>

theorem consume_parks:
  assumes "paused d" and "iter_records buf = Some (es, GReturn k)" and "take k buf \<noteq> []"
  shows "\<exists>d'. consume fa buf d = Inr (drop k buf, d') \<and> d_replica d' = d_replica d \<and>
    nd_pending (d_dir d') =
      Some ((case nd_pending (d_dir d) of None \<Rightarrow> [] | Some old \<Rightarrow> old) @ take k buf) \<and>
    d_recovery_queue d' = d_recovery_queue d @ map int (new_gaps (d_gap_seen d) es)"
  using consume_paused [OF assms(1,2), of fa] assms(3)
  by (simp add: append_pending_def note_gaps_control)

theorem consume_parks_witness:
  "\<exists>d'. consume no_fallocate sample_bytes (sample_daemon\<lparr>d_dir := sample_dir\<lparr>nd_lock := True\<rparr>\<rparr>) =
      Inr (drop 64 sample_bytes, d') \<and>
    d_replica d' = d_replica (sample_daemon\<lparr>d_dir := sample_dir\<lparr>nd_lock := True\<rparr>\<rparr>) \<and>
    nd_pending (d_dir d') = Some ((case nd_pending (d_dir (sample_daemon\<lparr>d_dir := sample_dir\<lparr>nd_lock := True\<rparr>\<rparr>))
      of None \<Rightarrow> [] | Some old \<Rightarrow> old) @ take 64 sample_bytes) \<and>
    d_recovery_queue d' = d_recovery_queue (sample_daemon\<lparr>d_dir := sample_dir\<lparr>nd_lock := True\<rparr>\<rparr>) @
      map int (new_gaps (d_gap_seen (sample_daemon\<lparr>d_dir := sample_dir\<lparr>nd_lock := True\<rparr>\<rparr>)) [(sample_rec, [7, 9])])"
  by (rule consume_parks [OF _ sample_iter]) (simp_all add: paused_def sample_bytes_def)

text \<open>
  (C8) \<^verbatim>\<open>apply_pending\<close> reads the parked file in pieces of \<^verbatim>\<open>READ_SZ\<close> bytes, carrying cut
  records over, and has the effect of applying all its records in order; afterwards the file
  is gone.
\<close>

theorem apply_pending_in_order:
  assumes "punches_holes fa" and "wf_daemon d" and "d_copying d = None"
    and "nd_pending (d_dir d) = Some content" and "iter_records content = Some (es, GReturn k)"
    and "inside es" and "list_all (fits (d_size d)) es"
  shows "\<exists>d'. apply_pending fa d = Inr d' \<and> wf_daemon d' \<and> nd_pending (d_dir d') = None \<and>
    d_image d' = fold entry_effect es (d_image d)"
  using apply_all_idle [OF assms(1-3,7)] apply_pending_fold [OF assms(4-6), of fa]
  by (auto simp: wf_daemon_def)

theorem apply_pending_in_order_witness:
  "\<exists>d'. apply_pending no_fallocate (sample_daemon\<lparr>d_dir := sample_dir\<lparr>nd_pending := Some sample_bytes\<rparr>\<rparr>) = Inr d' \<and>
    wf_daemon d' \<and> nd_pending (d_dir d') = None \<and>
    d_image d' = fold entry_effect [(sample_rec, [7, 9])]
      (d_image (sample_daemon\<lparr>d_dir := sample_dir\<lparr>nd_pending := Some sample_bytes\<rparr>\<rparr>))"
  by (rule apply_pending_in_order [OF sample_rp_ok(1) _ _ _ sample_iter sample_daemon_ok(5)])
    (use sample_daemon_ok in \<open>simp_all add: wf_daemon_def\<close>)

text \<open>
  (C9) Parking is transparent as long as nothing else is applied in between: parking a buffer
  and applying the parked file once the lock is gone leaves the same image as applying the
  buffer directly.
\<close>

theorem park_then_apply:
  assumes "punches_holes fa" and "wf_daemon d" and "d_copying d = None" and "paused d"
    and "nd_pending (d_dir d) = None"
    and "iter_records buf = Some (es, GReturn (length buf))" and "buf \<noteq> []" and "inside es"
    and "list_all (fits (d_size d)) es"
  shows "\<exists>d1 d2. consume fa buf d = Inr ([], d1) \<and>
    apply_pending fa (d1\<lparr>d_dir := (d_dir d1)\<lparr>nd_lock := False\<rparr>\<rparr>) = Inr d2 \<and>
    d_image d2 = fold entry_effect es (d_image d) \<and> nd_pending (d_dir d2) = None"
proof -
  let ?d1 = "append_pending buf (note_gaps es d)"
  let ?u = "?d1\<lparr>d_dir := (d_dir ?d1)\<lparr>nd_lock := False\<rparr>\<rparr>"
  have run: "consume fa buf d = Inr ([], ?d1)" using consume_paused [OF assms(4,6), of fa] by simp
  have u: "wf_daemon ?u" "d_copying ?u = None" "nd_pending (d_dir ?u) = Some buf"
      "d_size ?u = d_size d" "d_image ?u = d_image d"
    using assms(2,3,5,7) by (simp_all add: append_pending_def wf_daemon_def note_gaps_control)
  from apply_all_idle [OF assms(1) u(1,2), of es] assms(9) u(4) apply_pending_fold [OF u(3) assms(6,8), of fa]
  obtain d2 where "apply_pending fa ?u = Inr d2" "d_image d2 = fold entry_effect es (d_image d)"
      "nd_pending (d_dir d2) = None"
    using u(5) by auto
  with run show ?thesis by blast
qed

theorem park_then_apply_witness:
  "\<exists>d1 d2. consume no_fallocate sample_bytes (sample_daemon\<lparr>d_dir := sample_dir\<lparr>nd_lock := True\<rparr>\<rparr>) = Inr ([], d1) \<and>
    apply_pending no_fallocate (d1\<lparr>d_dir := (d_dir d1)\<lparr>nd_lock := False\<rparr>\<rparr>) = Inr d2 \<and>
    d_image d2 = fold entry_effect [(sample_rec, [7, 9])] (d_image (sample_daemon\<lparr>d_dir := sample_dir\<lparr>nd_lock := True\<rparr>\<rparr>)) \<and>
    nd_pending (d_dir d2) = None"
  by (rule park_then_apply [OF sample_rp_ok(1) _ _ _ _ _ _ sample_daemon_ok(5)])
    (use sample_daemon_ok sample_iter in \<open>simp_all add: wf_daemon_def paused_def sample_dir_def\<close>,
     simp_all add: sample_bytes_def)

end
