(* ===== verification/Copy_Engine.thy ===== *)
theory Copy_Engine
  imports Daemon
begin

text \<open>
  The copy side of \<^verbatim>\<open>rkcdp/rkcdpd.py\<close>: \<^verbatim>\<open>Throttle\<close>, \<^verbatim>\<open>copy_chunk\<close> with its four parts (flag
  the range, read the device and write the replica, unflag, apply what was deferred),
  \<^verbatim>\<open>base_copy\<close>, \<^verbatim>\<open>start_recovery\<close> and \<^verbatim>\<open>recover\<close>.

  The device is an image \<open>dev\<close> of \<open>dsz\<close> bytes, read at the moment of the call. The flag \<^verbatim>\<open>stop\<close>
  that a signal handler sets is a function of the number of times it has been looked at, so
  that a copy can be interrupted at any point. The pauses of the throttle and the rate shown
  in \<^verbatim>\<open>base_progress\<close> are not part of the loops. How these parts interleave with the apply
  loop is the subject of the theory \<open>Copy_Protocol\<close>.
\<close>

definition COPY_CHUNK :: nat where "COPY_CHUNK = 4 * 2 ^ 20"

subsection \<open>Throttle\<close>

record throttle =
  th_rate :: rat
  th_t0 :: rat
  th_done :: nat

definition Throttle :: "rat option \<Rightarrow> rat \<Rightarrow> throttle" where
  "Throttle mbps now =
     \<lparr>th_rate = (case mbps of None \<Rightarrow> 0 | Some v \<Rightarrow> v) * 1048576, th_t0 = now, th_done = 0\<rparr>"

text \<open>\<^verbatim>\<open>account\<close>: the new throttle and the seconds slept.\<close>

definition account :: "nat \<Rightarrow> rat \<Rightarrow> throttle \<Rightarrow> throttle \<times> rat" where
  "account n now th =
     (let th1 = th\<lparr>th_done := th_done th + n\<rparr> in
      if th_rate th1 \<le> 0 then (th1, 0)
      else
        (let ahead = of_nat (th_done th1) / th_rate th1 - (now - th_t0 th1) in
         (th1, if ahead > 0 then min ahead 1 else 0)))"

subsection \<open>Copying one chunk\<close>

definition dev_read :: "image \<Rightarrow> nat \<Rightarrow> nat \<Rightarrow> nat \<Rightarrow> bytes" where
  "dev_read dev dsz off n = img_slice dev off (min n (dsz - off))"

definition copy_flag :: "nat \<Rightarrow> nat \<Rightarrow> daemon \<Rightarrow> daemon" where
  "copy_flag off n d = d\<lparr>d_copying := Some (off, off + n), d_deferred := []\<rparr>"

definition copy_land :: "bytes \<Rightarrow> nat \<Rightarrow> bytes option \<Rightarrow> daemon \<Rightarrow> daemon result" where
  "copy_land buf off skip_zero d =
     (if buf \<noteq> [] \<and> \<not> (case skip_zero of None \<Rightarrow> False | Some z \<Rightarrow> buf = take (length buf) z)
      then bind_result (rp_pwrite buf off (d_replica d)) (\<lambda>rp. Inr (d\<lparr>d_replica := rp\<rparr>))
      else Inr d)"

definition copy_unflag :: "daemon \<Rightarrow> entry list \<times> daemon" where
  "copy_unflag d = (d_deferred d, d\<lparr>d_copying := None, d_deferred := []\<rparr>)"

definition copy_chunk ::
  "fallocate_call \<Rightarrow> image \<Rightarrow> nat \<Rightarrow> nat \<Rightarrow> nat \<Rightarrow> bytes option \<Rightarrow> daemon \<Rightarrow> (nat \<times> daemon) result" where
  "copy_chunk fa dev dsz off n skip_zero d =
     (let buf = dev_read dev dsz off n in
      bind_result (copy_land buf off skip_zero (copy_flag off n d)) (\<lambda>d1.
        (let (late, d2) = copy_unflag d1 in
         bind_result (fold_result (apply_one fa) late d2) (\<lambda>d3. Inr (length buf, d3)))))"

subsection \<open>Base copy\<close>

function base_loop ::
  "fallocate_call \<Rightarrow> image \<Rightarrow> nat \<Rightarrow> (nat \<Rightarrow> bool) \<Rightarrow> nat \<Rightarrow> nat \<Rightarrow> nat \<Rightarrow> daemon \<Rightarrow> (nat \<times> daemon) result" where
  "base_loop fa dev dsz stop sz tick off d =
     (if off < sz \<and> \<not> stop tick then
        (case copy_chunk fa dev dsz off (min COPY_CHUNK (sz - off)) (Some (replicate COPY_CHUNK 0)) d of
           Inl e \<Rightarrow> Inl e
         | Inr (n, d1) \<Rightarrow>
             if n = 0 then Inr (tick, d1)
             else base_loop fa dev dsz stop sz (Suc tick) (off + n)
                    (d1\<lparr>d_base_progress := Some \<lparr>bp_done = off + n, bp_total = sz\<rparr>\<rparr>))
      else Inr (tick, d))"
  by pat_completeness auto
termination
  by (relation "measure (\<lambda>(fa, dev, dsz, stop, sz, tick, off, d). sz - off)") auto

declare base_loop.simps [simp del]

definition set_manifest :: "manifest \<Rightarrow> daemon \<Rightarrow> daemon" where
  "set_manifest m d = d\<lparr>d_manifest := m, d_dir := (d_dir d)\<lparr>nd_manifest := Some m\<rparr>\<rparr>"

definition base_copy ::
  "fallocate_call \<Rightarrow> image \<Rightarrow> nat \<Rightarrow> (nat \<Rightarrow> bool) \<Rightarrow> cdp_status \<Rightarrow> rat \<Rightarrow> daemon \<Rightarrow> daemon result" where
  "base_copy fa dev dsz stop st now d =
     bind_result (base_loop fa dev dsz stop (d_size d) 0 0
         (d\<lparr>d_base_progress := Some \<lparr>bp_done = 0, bp_total = d_size d\<rparr>\<rparr>)) (\<lambda>(tick, d1).
       if stop (Suc tick) then Inr (d1\<lparr>d_base_progress := None, d_base_running := False\<rparr>)
       else Inr ((set_manifest ((d_manifest d1)\<lparr>mf_base_end_seq := Some (s_seq_next st), mf_base_time := Some now\<rparr>) d1)
              \<lparr>d_base_progress := None, d_base_running := False\<rparr>))"

subsection \<open>Bitmap recovery\<close>

text \<open>\<^verbatim>\<open>start_recovery\<close>: the bitmap is read and cleared first, then the extents are persisted, then
  the thread starts.\<close>

definition start_recovery ::
  "bytes \<Rightarrow> (nat \<Rightarrow> nat \<Rightarrow> bytes result) \<Rightarrow> int \<Rightarrow> rat \<Rightarrow> daemon \<Rightarrow> daemon result" where
  "start_recovery st_buf ioctl_bitmap gap_seq now d =
     bind_result (read_bitmap st_buf ioctl_bitmap True) (\<lambda>(bm, chunk, nbits).
     bind_result (bitmap_extents bm chunk nbits) (\<lambda>extents.
       (let rec = \<lparr>rc_gap_seq = gap_seq, rc_extents = extents, rc_started = now\<rparr> in
        Inr (d\<lparr>d_dir := (d_dir d)\<lparr>nd_recovery := Some rec\<rparr>, d_recovery := Some rec\<rparr>))))"

function recover_extent ::
  "fallocate_call \<Rightarrow> image \<Rightarrow> nat \<Rightarrow> (nat \<Rightarrow> bool) \<Rightarrow> nat \<Rightarrow> nat \<Rightarrow> nat \<Rightarrow> daemon \<Rightarrow> (nat \<times> daemon) result" where
  "recover_extent fa dev dsz stop tick off remaining d =
     (if remaining \<noteq> 0 \<and> \<not> stop tick then
        (case copy_chunk fa dev dsz off (min remaining COPY_CHUNK) None d of
           Inl e \<Rightarrow> Inl e
         | Inr (n, d1) \<Rightarrow>
             if n = 0 then Inr (tick, d1)
             else recover_extent fa dev dsz stop (Suc tick) (off + n) (remaining - n) d1)
      else Inr (tick, d))"
  by pat_completeness auto
termination
  by (relation "measure (\<lambda>(fa, dev, dsz, stop, tick, off, remaining, d). remaining)") auto

declare recover_extent.simps [simp del]

definition recover_step ::
  "fallocate_call \<Rightarrow> image \<Rightarrow> nat \<Rightarrow> (nat \<Rightarrow> bool) \<Rightarrow> nat \<times> nat \<Rightarrow> nat \<times> daemon \<Rightarrow> (nat \<times> daemon) result" where
  "recover_step fa dev dsz stop = (\<lambda>(sector, nsect) (tick, d).
     recover_extent fa dev dsz stop tick (sector * 512) (nsect * 512) d)"

definition recover ::
  "fallocate_call \<Rightarrow> image \<Rightarrow> nat \<Rightarrow> (nat \<Rightarrow> bool) \<Rightarrow> recovery_rec \<Rightarrow> daemon \<Rightarrow> daemon result" where
  "recover fa dev dsz stop rec d =
     bind_result (fold_result (recover_step fa dev dsz stop) (rc_extents rec) (0, d)) (\<lambda>(tick, d1).
       if stop (Suc tick) then Inr (d1\<lparr>d_recovery := None\<rparr>)
       else Inr (d1\<lparr>d_recovery := None, d_dir := (d_dir d1)\<lparr>nd_recovery := None\<rparr>\<rparr>))"

subsection \<open>One chunk, nothing in between\<close>

lemma copy_chunk_step:
  fixes dev :: image and off :: nat
  assumes "wf_daemon d" "d_size d = dsz" "n \<le> COPY_CHUNK"
  defines "buf \<equiv> dev_read dev dsz off n"
  shows "\<exists>d'. copy_chunk fa dev dsz off n skip d = Inr (length buf, d') \<and> wf_daemon d' \<and>
    d_size d' = d_size d \<and> d_copying d' = None \<and> d_dir d' = d_dir d \<and> d_manifest d' = d_manifest d \<and>
    d_image d' = (if (case skip of None \<Rightarrow> False | Some z \<Rightarrow> buf = take (length buf) z)
                  then d_image d else img_write (d_image d) off buf)"
proof -
  let ?f = "copy_flag off n d"
  have len: "off + length buf \<le> dsz \<or> buf = []" "length buf \<le> RW_MAX"
    using assms(3) by (auto simp: buf_def dev_read_def img_slice_def RW_MAX_def COPY_CHUNK_def)
  have rp: "\<exists>rp. rp_pwrite buf off (d_replica d) = Inr rp \<and> wf_replica dsz rp \<and>
      f_dat (rp_file rp) = img_write (d_image d) off buf" if "buf \<noteq> []"
    using rp_pwrite_step [of dsz "d_replica d" off buf] assms(1,2) len that by (auto simp: wf_daemon_def)
  show ?thesis
  proof (cases "buf \<noteq> [] \<and> \<not> (case skip of None \<Rightarrow> False | Some z \<Rightarrow> buf = take (length buf) z)")
    case True
    with rp obtain rp where "rp_pwrite buf off (d_replica d) = Inr rp" "wf_replica dsz rp"
        "f_dat (rp_file rp) = img_write (d_image d) off buf" by blast
    with True assms(1,2) show ?thesis
      by (auto simp: copy_chunk_def buf_def [symmetric] copy_land_def copy_flag_def copy_unflag_def
          wf_daemon_def Let_def)
  next
    case False
    with assms(1) show ?thesis
      by (auto simp: copy_chunk_def buf_def [symmetric] copy_land_def copy_flag_def copy_unflag_def
          wf_daemon_def Let_def split: option.splits)
  qed
qed

subsection \<open>The base copy of a disk at rest\<close>

text \<open>The 4 MiB block number \<open>k\<close> of the device reads as zero.\<close>

definition zero_block :: "image \<Rightarrow> nat \<Rightarrow> nat \<Rightarrow> bool" where
  "zero_block dev sz k \<longleftrightarrow> (\<forall>x < sz. x div COPY_CHUNK = k \<longrightarrow> dev x = 0)"

lemma block_span:
  assumes "off = k * COPY_CHUNK" "off < sz"
  shows "x < sz \<and> x div COPY_CHUNK = k \<longleftrightarrow> off \<le> x \<and> x < off + min COPY_CHUNK (sz - off)"
proof -
  have "x div COPY_CHUNK = k \<longleftrightarrow> off \<le> x \<and> x < off + COPY_CHUNK"
    using assms(1) by (auto simp: COPY_CHUNK_def intro: div_nat_eqI)
  then show ?thesis using assms(2) by (auto simp: min_def)
qed

lemma slice_is_zero:
  assumes "off = k * COPY_CHUNK" "off < sz"
  shows "img_slice dev off (min COPY_CHUNK (sz - off)) = replicate (min COPY_CHUNK (sz - off)) 0 \<longleftrightarrow>
    zero_block dev sz k"
proof -
  have "img_slice dev off n = replicate n 0 \<longleftrightarrow> (\<forall>x. off \<le> x \<and> x < off + n \<longrightarrow> dev x = 0)" for n
    by (auto simp: img_slice_def list_eq_iff_nth_eq) (metis add_diff_inverse_nat nat_add_left_cancel_less not_le)
  with block_span [OF assms] show ?thesis by (auto simp: zero_block_def)
qed

lemma base_loop_image:
  assumes "dsz = sz"
  shows "wf_daemon d \<Longrightarrow> d_size d = sz \<Longrightarrow> COPY_CHUNK dvd off \<or> sz \<le> off \<Longrightarrow> d_copying d = None \<Longrightarrow>
    \<exists>tick' d'. base_loop fa dev dsz (\<lambda>_. False) sz tick off d = Inr (tick', d') \<and> wf_daemon d' \<and>
      d_size d' = sz \<and> d_copying d' = None \<and> d_dir d' = d_dir d \<and> d_manifest d' = d_manifest d \<and>
      (\<forall>x. d_image d' x =
        (if off \<le> x \<and> x < sz \<and> \<not> zero_block dev sz (x div COPY_CHUNK) then dev x else d_image d x))"
proof (induction "sz - off" arbitrary: off d tick rule: less_induct)
  case less
  show ?case
  proof (cases "off < sz")
    case False
    then have "base_loop fa dev dsz (\<lambda>_. False) sz tick off d = Inr (tick, d)"
      by (simp add: base_loop.simps)
    with False less.prems show ?thesis by auto
  next
    case True
    then obtain k where k: "off = k * COPY_CHUNK" using less.prems(3) True by (metis dvd_def mult.commute not_le)
    let ?n = "min COPY_CHUNK (sz - off)"
    let ?z = "replicate COPY_CHUNK 0 :: bytes"
    have buf: "dev_read dev dsz off ?n = img_slice dev off ?n" using assms by (simp add: dev_read_def min_def)
    have n: "0 < ?n" using True by (simp add: COPY_CHUNK_def)
    obtain d1 where d1: "copy_chunk fa dev dsz off ?n (Some ?z) d = Inr (?n, d1)" "wf_daemon d1"
        "d_size d1 = sz" "d_copying d1 = None" "d_dir d1 = d_dir d" "d_manifest d1 = d_manifest d"
        "d_image d1 = (if zero_block dev sz k then d_image d else img_write (d_image d) off (img_slice dev off ?n))"
      using copy_chunk_step [of d dsz ?n fa dev off "Some ?z"] less.prems(1,2) assms
        slice_is_zero [OF k True, of dev] buf by auto
    let ?d = "d1\<lparr>d_base_progress := Some \<lparr>bp_done = off + ?n, bp_total = sz\<rparr>\<rparr>"
    have next_off: "COPY_CHUNK dvd off + ?n \<or> sz \<le> off + ?n" using k by (auto simp: min_def)
    have lt: "sz - (off + ?n) < sz - off" using n True by simp
    have w: "wf_daemon ?d" "d_size ?d = sz" "d_copying ?d = None" using d1 by (simp_all add: wf_daemon_def)
    from less.hyps [OF lt w(1,2) next_off w(3), of "Suc tick"] obtain tick' d' where
      d': "base_loop fa dev dsz (\<lambda>_. False) sz (Suc tick) (off + ?n) ?d = Inr (tick', d')"
        "wf_daemon d'" "d_size d' = sz" "d_copying d' = None" "d_dir d' = d_dir ?d" "d_manifest d' = d_manifest ?d"
        "\<forall>x. d_image d' x = (if off + ?n \<le> x \<and> x < sz \<and> \<not> zero_block dev sz (x div COPY_CHUNK)
          then dev x else d_image ?d x)" by blast
    have run: "base_loop fa dev dsz (\<lambda>_. False) sz tick off d = Inr (tick', d')"
      using n by (subst base_loop.simps)
        (simp only: True d1(1) d'(1) sum.case prod.case if_False if_True simp_thms neq0_conv [symmetric])
    have "d_image d' x =
        (if off \<le> x \<and> x < sz \<and> \<not> zero_block dev sz (x div COPY_CHUNK) then dev x else d_image d x)" for x
      using d'(7) d1(7) block_span [OF k True, of x] by (auto simp: img_write_slice)
    with run d' d1 show ?thesis by auto
  qed
qed

lemma base_copy_image:
  assumes "wf_daemon d" "d_size d = dsz" "d_copying d = None"
  shows "\<exists>d'. base_copy fa dev dsz (\<lambda>_. False) st now d = Inr d' \<and> wf_daemon d' \<and> d_base_progress d' = None \<and>
    mf_base_end_seq (d_manifest d') = Some (s_seq_next st) \<and> nd_manifest (d_dir d') = Some (d_manifest d') \<and>
    (\<forall>x. d_image d' x =
      (if x < dsz \<and> \<not> zero_block dev dsz (x div COPY_CHUNK) then dev x else d_image d x))"
proof -
  let ?d = "d\<lparr>d_base_progress := Some \<lparr>bp_done = 0, bp_total = d_size d\<rparr>\<rparr>"
  have "wf_daemon ?d" "d_size ?d = dsz" "d_copying ?d = None" using assms by (simp_all add: wf_daemon_def)
  from base_loop_image [OF refl this(1,2) _ this(3), of 0 fa dev 0] assms(2) show ?thesis
    by (auto simp: base_copy_def set_manifest_def wf_daemon_def)
qed

subsection \<open>Recovery of a disk at rest\<close>

lemma recover_extent_image:
  "wf_daemon d \<Longrightarrow> d_size d = dsz \<Longrightarrow> d_copying d = None \<Longrightarrow>
    \<exists>tick' d'. recover_extent fa dev dsz (\<lambda>_. False) tick off remaining d = Inr (tick', d') \<and> wf_daemon d' \<and>
      d_size d' = dsz \<and> d_copying d' = None \<and> d_dir d' = d_dir d \<and>
      (\<forall>x. d_image d' x = (if off \<le> x \<and> x < off + remaining \<and> x < dsz then dev x else d_image d x))"
proof (induction remaining arbitrary: off d tick rule: less_induct)
  case (less remaining)
  show ?case
  proof (cases "remaining = 0")
    case True
    then have "recover_extent fa dev dsz (\<lambda>_. False) tick off remaining d = Inr (tick, d)"
      by (simp add: recover_extent.simps)
    with True less.prems show ?thesis by auto
  next
    case False
    let ?m = "min remaining COPY_CHUNK"
    let ?n = "min ?m (dsz - off)"
    obtain d1 where d1: "copy_chunk fa dev dsz off ?m None d = Inr (?n, d1)" "wf_daemon d1"
        "d_size d1 = dsz" "d_copying d1 = None" "d_dir d1 = d_dir d"
        "d_image d1 = img_write (d_image d) off (img_slice dev off ?n)"
      using copy_chunk_step [of d dsz ?m fa dev off None] less.prems by (auto simp: dev_read_def)
    show ?thesis
    proof (cases "?n = 0")
      case True
      then have "recover_extent fa dev dsz (\<lambda>_. False) tick off remaining d = Inr (tick, d1)"
        using False d1(1) by (subst recover_extent.simps) simp
      moreover have "dsz \<le> off" using True False by (auto simp: min_def COPY_CHUNK_def split: if_splits)
      ultimately show ?thesis using d1 True by (auto simp: img_slice_def)
    next
      case n: False
      then have "remaining - ?n < remaining" using False by simp
      from less.IH [OF this d1(2-4), of "Suc tick" "off + ?n"] obtain tick' d' where
        d': "recover_extent fa dev dsz (\<lambda>_. False) (Suc tick) (off + ?n) (remaining - ?n) d1 = Inr (tick', d')"
          "wf_daemon d'" "d_size d' = dsz" "d_copying d' = None" "d_dir d' = d_dir d1"
          "\<forall>x. d_image d' x = (if off + ?n \<le> x \<and> x < off + ?n + (remaining - ?n) \<and> x < dsz
            then dev x else d_image d1 x)" by auto
      have run: "recover_extent fa dev dsz (\<lambda>_. False) tick off remaining d = Inr (tick', d')"
        by (subst recover_extent.simps)
          (simp only: False d1(1) d'(1) n sum.case prod.case if_False if_True simp_thms)
      have "?n \<le> remaining" "off + ?n \<le> dsz" using n by auto
      then have "d_image d' x = (if off \<le> x \<and> x < off + remaining \<and> x < dsz then dev x else d_image d x)" for x
        using d'(6) d1(6) by (auto simp: img_write_slice)
      with run d' d1 show ?thesis by auto
    qed
  qed
qed

lemma recover_extents_image:
  "wf_daemon d \<Longrightarrow> d_size d = dsz \<Longrightarrow> d_copying d = None \<Longrightarrow>
    \<exists>tick' d'. fold_result (recover_step fa dev dsz (\<lambda>_. False)) es (tick, d) = Inr (tick', d') \<and> wf_daemon d' \<and>
      d_size d' = dsz \<and> d_dir d' = d_dir d \<and>
      (\<forall>x. d_image d' x =
        (if x < dsz \<and> (\<exists>(s, n) \<in> set es. s * 512 \<le> x \<and> x < s * 512 + n * 512) then dev x else d_image d x))"
proof (induction es arbitrary: d tick)
  case (Cons e es)
  obtain s n where e: "e = (s, n)" by (cases e)
  from recover_extent_image [OF Cons.prems, of fa dev tick "s * 512" "n * 512"] obtain t1 d1 where
    d1: "recover_extent fa dev dsz (\<lambda>_. False) tick (s * 512) (n * 512) d = Inr (t1, d1)" "wf_daemon d1"
      "d_size d1 = dsz" "d_copying d1 = None" "d_dir d1 = d_dir d"
      "\<forall>x. d_image d1 x = (if s * 512 \<le> x \<and> x < s * 512 + n * 512 \<and> x < dsz then dev x else d_image d x)"
    by blast
  from Cons.IH [OF d1(2-4), of t1] obtain t2 d2 where
    d2: "fold_result (recover_step fa dev dsz (\<lambda>_. False)) es (t1, d1) = Inr (t2, d2)" "wf_daemon d2"
      "d_size d2 = dsz" "d_dir d2 = d_dir d1"
      "\<forall>x. d_image d2 x = (if x < dsz \<and> (\<exists>(s, n) \<in> set es. s * 512 \<le> x \<and> x < s * 512 + n * 512)
        then dev x else d_image d1 x)" by blast
  have "d_image d2 x = (if x < dsz \<and> (\<exists>(s, n) \<in> set (e # es). s * 512 \<le> x \<and> x < s * 512 + n * 512)
      then dev x else d_image d x)" for x
    using d2(5) d1(6) e by auto
  with d1 d2 e show ?case by (auto simp: recover_step_def)
qed auto

lemma recovery_image:
  assumes "wf_daemon d" and "d_size d = dsz" and "d_copying d = None"
    and "read_bitmap st_buf ioctl_bitmap True = Inr (bm, chunk, nbits)"
    and "nbits \<le> 8 * length bm" and "0 < chunk"
  shows "\<exists>d1 rec d2. start_recovery st_buf ioctl_bitmap gap now d = Inr d1 \<and> d_recovery d1 = Some rec \<and>
    nd_recovery (d_dir d1) = Some rec \<and>
    recover fa dev dsz (\<lambda>_. False) rec d1 = Inr d2 \<and> nd_recovery (d_dir d2) = None \<and> d_recovery d2 = None \<and>
    (\<forall>x < dsz. d_image d2 x =
      (if x div 512 div chunk < nbits \<and> bit_at bm (x div 512 div chunk) then dev x else d_image d x))"
proof -
  obtain es where es: "bitmap_extents bm chunk nbits = Inr es"
      "\<forall>s. (\<exists>(a, n) \<in> set es. a \<le> s \<and> s < a + n) \<longleftrightarrow> s div chunk < nbits \<and> bit_at bm (s div chunk)"
    using extents_of_bits [OF assms(5,6)] by blast
  let ?rec = "\<lparr>rc_gap_seq = gap, rc_extents = es, rc_started = now\<rparr>"
  let ?d1 = "d\<lparr>d_dir := (d_dir d)\<lparr>nd_recovery := Some ?rec\<rparr>, d_recovery := Some ?rec\<rparr>"
  have start: "start_recovery st_buf ioctl_bitmap gap now d = Inr ?d1"
    using assms(4) es(1) by (simp add: start_recovery_def Let_def)
  have "wf_daemon ?d1" "d_size ?d1 = dsz" "d_copying ?d1 = None" using assms(1-3) by (simp_all add: wf_daemon_def)
  from recover_extents_image [OF this, of fa dev es 0] obtain t d2 where
    d2: "fold_result (recover_step fa dev dsz (\<lambda>_. False)) es (0, ?d1) = Inr (t, d2)" "d_dir d2 = d_dir ?d1"
      "\<forall>x. d_image d2 x = (if x < dsz \<and> (\<exists>(s, n) \<in> set es. s * 512 \<le> x \<and> x < s * 512 + n * 512)
        then dev x else d_image ?d1 x)" by blast
  have img: "d_image ?d1 = d_image d" by simp
  have sectors: "s * 512 \<le> x \<and> x < s * 512 + n * 512 \<longleftrightarrow> s \<le> x div 512 \<and> x div 512 < s + n" for s n x :: nat
    using div_interval [of 512 s x "s + n"] by (simp add: add_mult_distrib)
  show ?thesis
    using start d2 es(2) unfolding img by (simp add: recover_def sectors)
qed

subsection \<open>A sample device\<close>

text \<open>The status of a device of 4 sectors with two chunks of two sectors, as the kernel lays it
  out, and a device whose bytes count upwards.\<close>

definition sample_status_bytes :: bytes where
  "sample_status_bytes = [1,0,0,0] @ replicate 4 0 @ [4] @ replicate 7 0 @ [2,0,0,0] @ replicate 4 0 @
     [2] @ replicate 7 0 @ [1] @ replicate 7 0 @ replicate 88 0"

definition sample_ioctl :: "nat \<Rightarrow> nat \<Rightarrow> bytes result" where
  "sample_ioctl nbytes flags = (if nbytes = 1 then Inr [2] else Inl OSError)"

definition sample_status :: cdp_status where
  "sample_status = \<lparr>s_abi_version = 1, s_flags = 0, s_dev_sectors = 4, s_chunk_sectors = 2, s_minor = 0,
     s_bitmap_bits = 2, s_bitmap_bytes = 1, s_bitmap_set = 0, s_ring_size = 0, s_ring_used = 0,
     s_seq_next = 0, s_records = 0, s_bytes_logged = 0, s_overflows = 0\<rparr>"

lemma sample_status_read: "status sample_status_bytes = Inr sample_status"
  by (simp add: status_def sample_status_bytes_def sample_status_def STATUS_SIZE_def STATUS_FMT_def
      eval_nat_numeral)
    (simp add: take_bit_eq_mod)

lemma sample_bitmap_read: "read_bitmap sample_status_bytes sample_ioctl True = Inr ([2], 2, 2)"
  by (simp add: read_bitmap_def sample_status_read sample_ioctl_def sample_status_def)

definition sample_dev :: image where "sample_dev x = of_nat (x + 1)"

lemma sample_daemon_size: "d_size sample_daemon = 2048" "d_image sample_daemon = (\<lambda>_. 0)"
  by (simp_all add: sample_daemon_def sample_rp_def os_truncated_def)

subsection \<open>Properties\<close>

text \<open>
  The base copy of a disk at rest: \<^verbatim>\<open>base_copy\<close>, not interrupted, runs through to the end,
  records \<^verbatim>\<open>base_end_seq\<close> in the manifest in memory and on disk, and leaves a replica that
  equals the disk on every 4 MiB block that is not entirely zero on the disk and is unchanged
  on the others.
\<close>

theorem base_copy_complete:
  assumes "wf_daemon d" and "d_size d = dsz" and "d_copying d = None"
  shows "\<exists>d'. base_copy fa dev dsz (\<lambda>_. False) st now d = Inr d' \<and> wf_daemon d' \<and> d_base_progress d' = None \<and>
    mf_base_end_seq (d_manifest d') = Some (s_seq_next st) \<and> nd_manifest (d_dir d') = Some (d_manifest d') \<and>
    (\<forall>x. d_image d' x =
      (if x < dsz \<and> \<not> zero_block dev dsz (x div COPY_CHUNK) then dev x else d_image d x))"
  using assms by (rule base_copy_image)

theorem base_copy_complete_witness:
  "\<exists>d'. base_copy no_fallocate sample_dev 2048 (\<lambda>_. False) sample_status 7 sample_daemon = Inr d' \<and> wf_daemon d' \<and>
    d_base_progress d' = None \<and>
    mf_base_end_seq (d_manifest d') = Some (s_seq_next sample_status) \<and> nd_manifest (d_dir d') = Some (d_manifest d') \<and>
    (\<forall>x. d_image d' x =
      (if x < 2048 \<and> \<not> zero_block sample_dev 2048 (x div COPY_CHUNK) then sample_dev x else d_image sample_daemon x))"
  by (rule base_copy_complete [OF sample_daemon_ok(1) sample_daemon_size(1) sample_daemon_ok(2)])

text \<open>
  (C38) A base copy into a fresh replica is exact: when the replica file reads as zero, the
  image after the copy is the disk.
\<close>

theorem base_copy_fresh_exact:
  assumes "wf_daemon d" and "d_size d = dsz" and "d_copying d = None" and "\<forall>x < dsz. d_image d x = 0"
  shows "\<exists>d'. base_copy fa dev dsz (\<lambda>_. False) st now d = Inr d' \<and> (\<forall>x < dsz. d_image d' x = dev x)"
  using base_copy_image [OF assms(1-3), of fa dev st now] assms(4) by (fastforce simp: zero_block_def)

theorem base_copy_fresh_exact_witness:
  "\<exists>d'. base_copy no_fallocate sample_dev 2048 (\<lambda>_. False) sample_status 7 sample_daemon = Inr d' \<and>
    (\<forall>x < 2048. d_image d' x = sample_dev x)"
  by (rule base_copy_fresh_exact [OF sample_daemon_ok(1) sample_daemon_size(1) sample_daemon_ok(2)])
    (simp add: sample_daemon_size)

text \<open>
  Into a replica that already holds data the copy is not exact: a block that is zero on
  the disk is skipped, so a byte that is not zero in the replica survives a complete base
  copy, although \<^verbatim>\<open>base_end_seq\<close> is recorded.
\<close>

theorem base_copy_keeps_stale:
  assumes "wf_daemon d" and "d_size d = dsz" and "d_copying d = None"
    and "zero_block dev dsz (x div COPY_CHUNK)" and "x < dsz" and "d_image d x \<noteq> 0"
  shows "\<exists>d'. base_copy fa dev dsz (\<lambda>_. False) st now d = Inr d' \<and> d_image d' x \<noteq> dev x \<and>
    mf_base_end_seq (d_manifest d') = Some (s_seq_next st)"
  using base_copy_image [OF assms(1-3), of fa dev st now] assms(4-6) by (fastforce simp: zero_block_def)

text \<open>A replica that holds a byte the disk does not have.\<close>

definition stale_daemon :: daemon where
  "stale_daemon = sample_daemon\<lparr>d_replica := sample_rp\<lparr>rp_file := (os_truncated 4096 2048)\<lparr>f_dat := (\<lambda>_. 0)(3 := 5),
     f_alloc := (\<lambda>_. True)\<rparr>\<rparr>\<rparr>"

theorem base_copy_keeps_stale_witness:
  "\<exists>d'. base_copy no_fallocate (\<lambda>_. 0) 2048 (\<lambda>_. False) sample_status 7 stale_daemon = Inr d' \<and>
    d_image d' 3 \<noteq> 0 \<and> mf_base_end_seq (d_manifest d') = Some (s_seq_next sample_status)"
  by (rule base_copy_keeps_stale)
    (simp_all add: stale_daemon_def sample_daemon_def wf_daemon_def wf_replica_def wf_file_def sample_rp_def
      os_truncated_def zero_block_def)

text \<open>
  (C10) Bitmap recovery of a disk at rest: after \<^verbatim>\<open>start_recovery\<close> and an uninterrupted
  \<^verbatim>\<open>recover\<close>, every byte whose chunk has its bit set equals the device, every other byte of
  the replica is unchanged, and \<^verbatim>\<open>recovery.json\<close> is gone.
\<close>

theorem recovery_restores_dirty:
  assumes "wf_daemon d" and "d_size d = dsz" and "d_copying d = None"
    and "read_bitmap st_buf ioctl_bitmap True = Inr (bm, chunk, nbits)"
    and "nbits \<le> 8 * length bm" and "0 < chunk"
  shows "\<exists>d1 rec d2. start_recovery st_buf ioctl_bitmap gap now d = Inr d1 \<and> d_recovery d1 = Some rec \<and>
    nd_recovery (d_dir d1) = Some rec \<and>
    recover fa dev dsz (\<lambda>_. False) rec d1 = Inr d2 \<and> nd_recovery (d_dir d2) = None \<and> d_recovery d2 = None \<and>
    (\<forall>x < dsz. d_image d2 x =
      (if x div 512 div chunk < nbits \<and> bit_at bm (x div 512 div chunk) then dev x else d_image d x))"
  using assms by (rule recovery_image)

theorem recovery_restores_dirty_witness:
  "\<exists>d1 rec d2. start_recovery sample_status_bytes sample_ioctl 5 7 sample_daemon = Inr d1 \<and> d_recovery d1 = Some rec \<and>
    nd_recovery (d_dir d1) = Some rec \<and>
    recover no_fallocate sample_dev 2048 (\<lambda>_. False) rec d1 = Inr d2 \<and> nd_recovery (d_dir d2) = None \<and>
    d_recovery d2 = None \<and>
    (\<forall>x < 2048. d_image d2 x =
      (if x div 512 div 2 < 2 \<and> bit_at [2] (x div 512 div 2) then sample_dev x else d_image sample_daemon x))"
  by (rule recovery_restores_dirty
      [OF sample_daemon_ok(1) sample_daemon_size(1) sample_daemon_ok(2) sample_bitmap_read]) simp_all

text \<open>A copy thread that finds \<^verbatim>\<open>stop\<close> set does nothing more.\<close>

lemma recover_stopped: "recover fa dev dsz (\<lambda>_. True) rec d = Inr (d\<lparr>d_recovery := None\<rparr>)"
proof -
  have "fold_result (recover_step fa dev dsz (\<lambda>_. True)) es (0, d) = Inr (0, d)" for es
    by (induction es) (auto simp: recover_step_def recover_extent.simps)
  then show ?thesis by (simp add: recover_def)
qed

lemma base_copy_stopped:
  "base_copy fa dev dsz (\<lambda>_. True) st now d = Inr (d\<lparr>d_base_progress := None, d_base_running := False\<rparr>)"
  by (simp add: base_copy_def base_loop.simps)

text \<open>
  An interrupted recovery is redone: when \<^verbatim>\<open>stop\<close> is set, \<^verbatim>\<open>recover\<close> ends without
  removing \<^verbatim>\<open>recovery.json\<close>, whatever it has copied so far.
\<close>

theorem recover_interrupted_keeps_file:
  "\<exists>d'. recover fa dev dsz (\<lambda>_. True) rec d = Inr d' \<and> nd_recovery (d_dir d') = nd_recovery (d_dir d) \<and>
    d_recovery d' = None"
  by (simp add: recover_stopped)

text \<open>
  The throttle never sleeps longer than a second at a time, never with a rate of zero,
  and whenever the sleep is shorter than that, the bytes accounted for stay within the rate
  once it is over.
\<close>

theorem account_keeps_rate:
  assumes "account n now th = (th', s)" and "0 < th_rate th"
  shows "0 \<le> s \<and> s \<le> 1 \<and> (s < 1 \<longrightarrow> of_nat (th_done th') \<le> th_rate th' * (now + s - th_t0 th'))"
proof -
  let ?done = "of_nat (th_done th + n) :: rat"
  let ?ahead = "?done / th_rate th - (now - th_t0 th)"
  have th': "th' = th\<lparr>th_done := th_done th + n\<rparr>" and s: "s = (if ?ahead > 0 then min ?ahead 1 else 0)"
    using assms by (auto simp: account_def Let_def)
  have "?done \<le> th_rate th * (now + s - th_t0 th)" if "s < 1"
  proof -
    have "?ahead \<le> s" using that s by (auto split: if_splits)
    then have "?done / th_rate th \<le> now + s - th_t0 th" by linarith
    with assms(2) show ?thesis by (simp add: pos_divide_le_eq mult.commute)
  qed
  with th' s show ?thesis by auto
qed

theorem account_keeps_rate_witness:
  "\<exists>th s. account 50 0 \<lparr>th_rate = 100, th_t0 = 0, th_done = 0\<rparr> = (th, s) \<and> 0 \<le> s \<and> s \<le> 1 \<and>
    (s < 1 \<longrightarrow> of_nat (th_done th) \<le> th_rate th * (0 + s - th_t0 th))"
proof -
  obtain th s where run: "account 50 0 \<lparr>th_rate = 100, th_t0 = 0, th_done = 0\<rparr> = (th, s)" by fastforce
  from account_keeps_rate [OF run] run show ?thesis by auto
qed

end
