(* ===== verification/Py_Values.thy ===== *)
theory Py_Values
  imports Cdp_Prelude
begin

text \<open>
  The Python that the configuration, the command line tools and the web service rest on:
  values as \<^verbatim>\<open>json\<close> reads them, \<^verbatim>\<open>int\<close> and \<^verbatim>\<open>float\<close> of a string, \<^verbatim>\<open>str.split\<close>, \<^verbatim>\<open>str.strip\<close>
  and \<^verbatim>\<open>%d\<close>, \<^verbatim>\<open>os.path\<close>, and external commands run one after the other on a state of the
  machine that the commands change.

  Numbers are rational: the rounding of floating-point values is not modelled, and the literals
  \<^verbatim>\<open>inf\<close> and \<^verbatim>\<open>nan\<close> are not numbers here.
\<close>

subsection \<open>JSON values\<close>

datatype jval =
    JNull
  | JBool bool
  | JNum rat
  | JStr string
  | JList "jval list"
  | JObj "(string \<times> jval) list"

fun truthy :: "jval \<Rightarrow> bool" where
  "truthy JNull = False"
| "truthy (JBool b) = b"
| "truthy (JNum q) = (q \<noteq> 0)"
| "truthy (JStr s) = (s \<noteq> [])"
| "truthy (JList xs) = (xs \<noteq> [])"
| "truthy (JObj kvs) = (kvs \<noteq> [])"

text \<open>\<^verbatim>\<open>d.get(k) or v\<close>.\<close>

definition get_or :: "(string \<rightharpoonup> jval) \<Rightarrow> string \<Rightarrow> jval \<Rightarrow> jval" where
  "get_or m k v = (case m k of None \<Rightarrow> v | Some x \<Rightarrow> if truthy x then x else v)"

text \<open>A dictionary read from a file: the last of several equal keys wins.\<close>

definition dict_of :: "(string \<times> jval) list \<Rightarrow> (string \<rightharpoonup> jval)" where
  "dict_of kvs = map_of (rev kvs)"

subsection \<open>Strings\<close>

definition py_space :: "char \<Rightarrow> bool" where
  "py_space c \<longleftrightarrow> (let n = (of_char c :: nat) in
     (9 \<le> n \<and> n \<le> 13) \<or> (28 \<le> n \<and> n \<le> 32) \<or> n = 133 \<or> n = 160)"

definition py_strip :: "string \<Rightarrow> string" where
  "py_strip s = rev (dropWhile py_space (rev (dropWhile py_space s)))"

lemma dropWhile_shorter: "length (dropWhile P xs) \<le> length xs"
  by (induction xs) auto

function py_split :: "string \<Rightarrow> string list" where
  "py_split s =
     (case dropWhile py_space s of
        [] \<Rightarrow> []
      | t \<Rightarrow> takeWhile (\<lambda>c. \<not> py_space c) t # py_split (dropWhile (\<lambda>c. \<not> py_space c) t))"
  by pat_completeness auto
termination
proof (relation "measure length")
  fix s :: string and c :: char and cs :: string
  assume "dropWhile py_space s = c # cs"
  moreover from this have "\<not> py_space c" by (metis hd_dropWhile list.distinct(1) list.sel(1))
  ultimately show "(dropWhile (\<lambda>c. \<not> py_space c) (c # cs), s) \<in> measure length"
    using dropWhile_shorter [of "\<lambda>c. \<not> py_space c" cs] dropWhile_shorter [of py_space s] by simp
qed simp

declare py_split.simps [simp del]

fun py_join :: "string \<Rightarrow> string list \<Rightarrow> string" where
  "py_join sep [] = []"
| "py_join sep [w] = w"
| "py_join sep (w # v # ws) = w @ sep @ py_join sep (v # ws)"

fun py_contains :: "string \<Rightarrow> string \<Rightarrow> bool" where
  "py_contains pat [] = (pat = [])"
| "py_contains pat (c # cs) = (take (length pat) (c # cs) = pat \<or> py_contains pat cs)"

definition basename :: "string \<Rightarrow> string" where
  "basename p = rev (takeWhile (\<lambda>c. c \<noteq> CHR ''/'') (rev p))"

definition path_join :: "string \<Rightarrow> string \<Rightarrow> string" where
  "path_join a b =
     (if b \<noteq> [] \<and> hd b = CHR ''/'' then b
      else if a = [] \<or> last a = CHR ''/'' then a @ b
      else a @ ''/'' @ b)"

subsection \<open>Numbers\<close>

definition digit_val :: "char \<Rightarrow> nat option" where
  "digit_val c = (let n = of_char c in if 48 \<le> n \<and> n \<le> 57 then Some (n - 48) else None)"

text \<open>The longest prefix of digits, in which single underscores may stand between two digits.\<close>

fun digit_run :: "bool \<Rightarrow> string \<Rightarrow> nat list \<times> string" where
  "digit_run p [] = ([], [])"
| "digit_run p (c # cs) =
     (case digit_val c of
        Some v \<Rightarrow> (let (vs, r) = digit_run True cs in (v # vs, r))
      | None \<Rightarrow>
          if p \<and> c = CHR ''_'' \<and> cs \<noteq> [] \<and> digit_val (hd cs) \<noteq> None then digit_run False cs
          else ([], c # cs))"

definition dec_value :: "nat list \<Rightarrow> nat" where
  "dec_value vs = foldl (\<lambda>a v. 10 * a + v) 0 vs"

definition split_sign :: "string \<Rightarrow> bool \<times> string" where
  "split_sign s = (case s of [] \<Rightarrow> (False, [])
     | c # cs \<Rightarrow> if c = CHR ''-'' then (True, cs) else if c = CHR ''+'' then (False, cs) else (False, c # cs))"

definition py_int :: "string \<Rightarrow> int result" where
  "py_int s =
     (let (neg, t) = split_sign (py_strip s); (vs, r) = digit_run False t in
      if vs \<noteq> [] \<and> r = [] then Inr (if neg then - int (dec_value vs) else int (dec_value vs))
      else Inl NumberError)"

text \<open>What follows the mantissa of a float: nothing, or an exponent.\<close>

definition exponent :: "string \<Rightarrow> int result" where
  "exponent s = (case s of [] \<Rightarrow> Inr 0
     | c # cs \<Rightarrow>
         if c = CHR ''e'' \<or> c = CHR ''E'' then
           (let (neg, t) = split_sign cs; (vs, r) = digit_run False t in
            if vs \<noteq> [] \<and> r = [] then Inr (if neg then - int (dec_value vs) else int (dec_value vs))
            else Inl NumberError)
         else Inl NumberError)"

definition py_float_str :: "string \<Rightarrow> rat result" where
  "py_float_str s =
     (let (neg, t) = split_sign (py_strip s);
          (ip, r1) = digit_run False t;
          (fp, r2) = (if r1 \<noteq> [] \<and> hd r1 = CHR ''.'' then digit_run False (tl r1) else ([], r1))
      in if ip = [] \<and> fp = [] then Inl NumberError
         else bind_result (exponent r2) (\<lambda>e.
           (let q = of_nat (dec_value (ip @ fp)) * power_int 10 (e - int (length fp))
            in Inr (if neg then - q else q))))"

fun py_float :: "jval \<Rightarrow> rat result" where
  "py_float (JNum q) = Inr q"
| "py_float (JBool b) = Inr (if b then 1 else 0)"
| "py_float (JStr s) = py_float_str s"
| "py_float _ = Inl TypeError"

text \<open>\<^verbatim>\<open>%d\<close> of a natural number.\<close>

definition digit_char :: "nat \<Rightarrow> char" where
  "digit_char n = char_of (48 + n)"

fun show_nat :: "nat \<Rightarrow> string" where
  "show_nat n = (if n < 10 then [digit_char n] else show_nat (n div 10) @ [digit_char (n mod 10)])"

declare show_nat.simps [simp del]

subsection \<open>Commands\<close>

text \<open>
  A command is its argument list. Running it on a state of the machine yields nothing (no such
  program) or a return code and the standard output, and the state afterwards. \<open>('w, 'a) io\<close>
  is an action that runs commands: a result or an exception, with the state it leaves.
\<close>

type_synonym 'w exec = "string list \<Rightarrow> 'w \<Rightarrow> (int \<times> string) option \<times> 'w"
type_synonym ('w, 'a) io = "'w \<Rightarrow> 'a result \<times> 'w"

definition io_bind :: "('w, 'a) io \<Rightarrow> ('a \<Rightarrow> ('w, 'b) io) \<Rightarrow> ('w, 'b) io" where
  "io_bind m k w = (case m w of (Inl e, w1) \<Rightarrow> (Inl e, w1) | (Inr x, w1) \<Rightarrow> k x w1)"

definition io_lift :: "'a result \<Rightarrow> ('w, 'a) io" where
  "io_lift r w = (r, w)"

text \<open>\<^verbatim>\<open>run(cmd, check)\<close>.\<close>

definition run :: "'w exec \<Rightarrow> string list \<Rightarrow> bool \<Rightarrow> ('w, int \<times> string) io" where
  "run exec cmd check w =
     (case exec cmd w of
        (None, w1) \<Rightarrow> (Inl OSError, w1)
      | (Some (rc, out), w1) \<Rightarrow> if check \<and> rc \<noteq> 0 then (Inl CalledProcessError, w1) else (Inr (rc, out), w1))"

text \<open>The same machine with a list of the commands that were run.\<close>

definition traced :: "'w exec \<Rightarrow> (string list list \<times> 'w) exec" where
  "traced exec cmd = (\<lambda>(tr, w). let (r, w1) = exec cmd w in (r, (tr @ [cmd], w1)))"

subsection \<open>Lemmas\<close>

lemma io_bind_simps [simp]:
  "m w = (Inl e, w1) \<Longrightarrow> io_bind m k w = (Inl e, w1)"
  "m w = (Inr x, w1) \<Longrightarrow> io_bind m k w = k x w1"
  by (simp_all add: io_bind_def)

lemma io_lift_simps [simp]: "io_lift r w = (r, w)"
  by (simp add: io_lift_def)

lemma io_bind_cases: "io_bind m k w = (case fst (m w) of Inl e \<Rightarrow> (Inl e, snd (m w)) | Inr x \<Rightarrow> k x (snd (m w)))"
  by (simp add: io_bind_def split: prod.splits sum.splits)

text \<open>An action that keeps a property of the state, whether it returns or raises.\<close>

definition io_keeps :: "('w \<Rightarrow> bool) \<Rightarrow> ('w, 'a) io \<Rightarrow> bool" where
  "io_keeps P act \<longleftrightarrow> (\<forall>w. P w \<longrightarrow> P (snd (act w)))"

named_theorems keeps "actions that keep a property of the state"

lemma io_keeps_bind [keeps]: "io_keeps P m \<Longrightarrow> (\<And>x. io_keeps P (k x)) \<Longrightarrow> io_keeps P (io_bind m k)"
  by (auto simp: io_keeps_def io_bind_cases split: sum.splits)

lemma io_keeps_lift [keeps]: "io_keeps P (io_lift r)"
  by (simp add: io_keeps_def)

lemma io_keeps_snd: "io_keeps P act \<Longrightarrow> P w \<Longrightarrow> act w = (r, w') \<Longrightarrow> P w'"
  by (force simp: io_keeps_def)

lemma get_or_simps [simp]:
  "m k = None \<Longrightarrow> get_or m k v = v"
  "m k = Some x \<Longrightarrow> get_or m k v = (if truthy x then x else v)"
  by (simp_all add: get_or_def)

lemma py_space_digit: "n < 10 \<Longrightarrow> \<not> py_space (digit_char n)"
  by (simp add: py_space_def digit_char_def Let_def)

lemma digit_val_char [simp]: "n < 10 \<Longrightarrow> digit_val (digit_char n) = Some n"
  by (simp add: digit_val_def digit_char_def Let_def)

lemma digit_run_digits:
  "list_all (\<lambda>n. n < 10) vs \<Longrightarrow> digit_run p (map digit_char vs) = (vs, [])"
  by (induction vs arbitrary: p) simp_all

fun dec_digits :: "nat \<Rightarrow> nat list" where
  "dec_digits n = (if n < 10 then [n] else dec_digits (n div 10) @ [n mod 10])"

declare dec_digits.simps [simp del]

lemma show_nat_digits: "show_nat n = map digit_char (dec_digits n)"
  by (induction n rule: dec_digits.induct) (subst show_nat.simps, subst dec_digits.simps, simp)

lemma dec_digits_ok: "list_all (\<lambda>d. d < 10) (dec_digits n)" "dec_digits n \<noteq> []" "dec_value (dec_digits n) = n"
proof -
  have "list_all (\<lambda>d. d < 10) (dec_digits n) \<and> dec_digits n \<noteq> [] \<and> dec_value (dec_digits n) = n"
  proof (induction n rule: dec_digits.induct)
    case (1 n)
    then show ?case by (subst (1 2 3) dec_digits.simps) (auto simp: dec_value_def)
  qed
  then show "list_all (\<lambda>d. d < 10) (dec_digits n)" "dec_digits n \<noteq> []" "dec_value (dec_digits n) = n" by auto
qed

lemma py_strip_line:
  assumes "s \<noteq> []" "\<not> py_space (hd s)" "\<not> py_space (last s)" "list_all py_space t"
  shows "py_strip (s @ t) = s"
proof -
  have a: "dropWhile py_space (s @ t) = s @ t" using assms(1,2) by (cases s) auto
  have "dropWhile py_space (rev t @ rev s) = dropWhile py_space (rev s)"
    using assms(4) by (intro dropWhile_append2) (simp add: list_all_iff)
  also have "\<dots> = rev s" using assms(1,3) by (cases s rule: rev_cases) auto
  finally show ?thesis using a by (simp add: py_strip_def)
qed

lemma show_nat_ends: "show_nat n \<noteq> []" "\<not> py_space (hd (show_nat n))" "\<not> py_space (last (show_nat n))"
proof -
  have "\<forall>c \<in> set (show_nat n). \<not> py_space c"
    using dec_digits_ok(1) [of n] py_space_digit by (auto simp: show_nat_digits list_all_iff)
  moreover show ne: "show_nat n \<noteq> []" using dec_digits_ok(2) by (simp add: show_nat_digits)
  ultimately show "\<not> py_space (hd (show_nat n))" "\<not> py_space (last (show_nat n))" by auto
qed

text \<open>\<^verbatim>\<open>int\<close> reads what \<^verbatim>\<open>%d\<close> prints, with any white space after it.\<close>

lemma py_int_show:
  assumes "list_all py_space t"
  shows "py_int (show_nat n @ t) = Inr (int n)"
proof -
  have strip: "py_strip (show_nat n @ t) = show_nat n"
    using py_strip_line [OF show_nat_ends assms] .
  have "hd (show_nat n) \<in> digit_char ` {d. d < 10}"
    using dec_digits_ok(1,2) [of n] by (cases "dec_digits n") (auto simp: show_nat_digits)
  then have "hd (show_nat n) \<noteq> CHR ''-''" "hd (show_nat n) \<noteq> CHR ''+''"
    using digit_val_char by (auto simp: digit_val_def Let_def dest: arg_cong [where f = digit_val])
  then have sign: "split_sign (show_nat n) = (False, show_nat n)"
    using show_nat_ends(1) [of n] by (auto simp: split_sign_def split: list.splits)
  show ?thesis
    using strip sign dec_digits_ok [of n] digit_run_digits [of "dec_digits n" False]
    by (simp add: py_int_def show_nat_digits)
qed

lemma py_split_word:
  assumes "w \<noteq> []" "list_all (\<lambda>c. \<not> py_space c) w" "rest = [] \<or> py_space (hd rest)"
  shows "py_split (w @ rest) = w # py_split rest"
proof -
  obtain c cs where w: "w = c # cs" using assms(1) by (cases w) auto
  have "takeWhile (\<lambda>c. \<not> py_space c) (w @ rest) = w" "dropWhile (\<lambda>c. \<not> py_space c) (w @ rest) = rest"
    using assms(2,3) by (cases rest; auto simp: list_all_iff takeWhile_append2 dropWhile_append2)+
  with w assms(2) show ?thesis by (subst py_split.simps) simp
qed

lemma py_split_space: "py_space c \<Longrightarrow> py_split (c # s) = py_split s"
  by (subst (1 2) py_split.simps) simp

lemma py_split_Nil [simp]: "py_split [] = []"
  by (subst py_split.simps) simp

text \<open>\<^verbatim>\<open>split\<close> gives back the words that were joined with blanks.\<close>

lemma py_split_join:
  "list_all (\<lambda>w. w \<noteq> [] \<and> list_all (\<lambda>c. \<not> py_space c) w) ws \<Longrightarrow> py_split (py_join '' '' ws) = ws"
proof (induction "'' ''" ws rule: py_join.induct)
  case (2 w)
  then show ?case using py_split_word [of w "[]"] by simp
next
  case (3 w v ws)
  have sp: "py_space CHR '' ''" by code_simp
  with 3 show ?case
    using py_split_word [of w "'' '' @ py_join '' '' (v # ws)"] by (simp add: py_split_space)
qed simp

end
