(* ===== verification/Startup.thy ===== *)
theory Startup
  imports Copy_Engine Py_Values
begin

text \<open>
  How a daemon comes up: \<^verbatim>\<open>load_conf\<close>, \<^verbatim>\<open>blockdev_sectors\<close>, \<^verbatim>\<open>root_disk\<close>, \<^verbatim>\<open>table_device\<close>,
  \<^verbatim>\<open>ensure_target\<close> and the constructor of \<^verbatim>\<open>Daemon\<close> in \<^verbatim>\<open>rkcdp/rkcdpd.py\<close>.

  The configuration is the dictionary that the code builds, with JSON values. External programs
  are a function \<open>exec\<close> on a state of the machine, \<^verbatim>\<open>os.path.realpath\<close> a function \<open>realpath\<close>
  of that state and a path; nothing is assumed of either unless a theorem says so.
\<close>

definition CONF :: string where "CONF = ''/etc/rkcdp/rkcdp.conf''"

type_synonym conf = "string \<rightharpoonup> jval"

definition load_conf :: "string \<Rightarrow> (string \<times> jval) list option \<Rightarrow> conf" where
  "load_conf hostname conf_file =
     (let conf = [''device'' \<mapsto> JNull, ''dm_name'' \<mapsto> JStr ''rkcdp'',
                  ''journal'' \<mapsto> JStr ''/replication/_kvmdr/rkcdp'', ''node'' \<mapsto> JStr hostname,
                  ''cycle_sec'' \<mapsto> JNum 1, ''base_copy_mbps'' \<mapsto> JNum 15]
      in case conf_file of None \<Rightarrow> conf | Some kvs \<Rightarrow> conf ++ dict_of kvs)"

text \<open>\<^verbatim>\<open>conf[k]\<close> used where a string is needed: a path or a word of a command.\<close>

definition conf_str :: "conf \<Rightarrow> string \<Rightarrow> string result" where
  "conf_str conf k =
     (case conf k of
        None \<Rightarrow> Inl (KeyError k)
      | Some (JStr s) \<Rightarrow> Inr s
      | Some _ \<Rightarrow> Inl TypeError)"

text \<open>The directory of the node.\<close>

definition node_root :: "conf \<Rightarrow> string result" where
  "node_root conf =
     bind_result (conf_str conf ''journal'') (\<lambda>journal.
     bind_result (conf_str conf ''node'') (\<lambda>node.
       Inr (path_join journal node)))"

definition blockdev_sectors :: "'w exec \<Rightarrow> string \<Rightarrow> ('w, int) io" where
  "blockdev_sectors exec dev =
     io_bind (run exec [''blockdev'', ''--getsz'', dev] True) (\<lambda>(_, out). io_lift (py_int (py_strip out)))"

definition root_disk :: "'w exec \<Rightarrow> ('w \<Rightarrow> string \<Rightarrow> string) \<Rightarrow> ('w, string) io" where
  "root_disk exec realpath =
     io_bind (run exec [''findmnt'', ''-n'', ''-o'', ''SOURCE'', ''/''] True) (\<lambda>(_, out) w.
       (let name = basename (realpath w (py_strip out)) in
        (Inr (''/dev/'' @ basename (realpath w (''/sys/class/block/'' @ name @ ''/..''))), w)))"

definition table_device :: "'w exec \<Rightarrow> ('w \<Rightarrow> string \<Rightarrow> string) \<Rightarrow> string \<Rightarrow> ('w, string) io" where
  "table_device exec realpath name =
     io_bind (run exec [''dmsetup'', ''table'', name] True) (\<lambda>(_, out) w.
       (let tbl = py_split out in
        if length tbl < 5 \<or> tbl ! 2 \<noteq> ''cdp'' then
          (Inl (SystemExit (''dm '' @ name @ '' is not a cdp target: '' @ py_join '' '' tbl)), w)
        else (Inr (''/dev/'' @ basename (realpath w (''/sys/dev/block/'' @ tbl ! 3))), w)))"

definition show_int :: "int \<Rightarrow> string" where
  "show_int i = (if i < 0 then ''-'' @ show_nat (nat (- i)) else show_nat (nat i))"

text \<open>The table of a new mapping, \<^verbatim>\<open>"0 %d cdp %s 0"\<close>.\<close>

definition cdp_table :: "int \<Rightarrow> string \<Rightarrow> string" where
  "cdp_table sectors dev = ''0 '' @ show_int sectors @ '' cdp '' @ dev @ '' 0''"

definition not_wrapped_msg :: "string \<Rightarrow> string" where
  "not_wrapped_msg disk = ''root disk '' @ disk @ '' is not wrapped: install the initramfs hook and reboot, or set '' @
     [CHR 0x27] @ ''device'' @ [CHR 0x27] @ '' in '' @ CONF @ '' to a non-root disk''"

text \<open>The branch of \<^verbatim>\<open>ensure_target\<close> that makes a mapping for the configured device.\<close>

definition create_target :: "'w exec \<Rightarrow> string \<Rightarrow> string \<Rightarrow> ('w, int \<times> string) io" where
  "create_target exec name dev =
     io_bind (run exec [''lsmod''] True) (\<lambda>(_, mods).
     io_bind (if py_contains ''dm_cdp'' mods then io_lift (Inr (0, []))
              else run exec [''modprobe'', ''dm-cdp''] True) (\<lambda>_.
     io_bind (blockdev_sectors exec dev) (\<lambda>sectors.
     io_bind (run exec [''dmsetup'', ''create'', name, ''--table'', cdp_table sectors dev] True) (\<lambda>_.
       run exec [''dmsetup'', ''status'', name] True))))"

definition ensure_target ::
  "'w exec \<Rightarrow> ('w \<Rightarrow> string \<Rightarrow> string) \<Rightarrow> conf \<Rightarrow> ('w, string \<times> conf) io" where
  "ensure_target exec realpath conf =
     io_bind (io_lift (conf_str conf ''dm_name'')) (\<lambda>name.
     io_bind (run exec [''dmsetup'', ''status'', name] False) (\<lambda>(rc, out).
     io_bind
       (if rc = 0 then
          io_bind (table_device exec realpath name) (\<lambda>dev.
            io_lift (Inr (out, conf(''device'' \<mapsto> JStr dev))))
        else if \<not> truthy (get_or conf ''device'' JNull) then
          io_bind (root_disk exec realpath) (\<lambda>disk.
            io_lift (Inl (SystemExit (not_wrapped_msg disk))))
        else
          io_bind (io_lift (conf_str conf ''device'')) (\<lambda>dev.
          io_bind (create_target exec name dev) (\<lambda>(_, out2). io_lift (Inr (out2, conf)))))
       (\<lambda>(out1, conf1).
         (let fields = py_split out1 in
          if length fields < 4 \<or> fields ! 2 \<noteq> ''cdp'' then
            io_lift (Inl (SystemExit (''dm '' @ name @ '' is not a cdp target: '' @ py_strip out1)))
          else io_lift (Inr (''/dev/'' @ fields ! 3, conf1))))))"

text \<open>
  The constructor of \<^verbatim>\<open>Daemon\<close>. \<open>dir\<close> holds the files found in the node directory, \<open>raw\<close> is
  \<^verbatim>\<open>replica.raw\<close> if it exists, \<open>st_buf\<close> the answer to the status ioctl and \<open>boot\<close> the boot id.
  Opening the record device and resetting its counters leave no trace in the model. An entry
  \<^verbatim>\<open>x or default\<close> takes the default for every value that counts as false.
\<close>

definition initial_manifest :: "conf \<Rightarrow> nat \<Rightarrow> manifest result" where
  "initial_manifest conf sz =
     bind_result (conf_str conf ''node'') (\<lambda>node.
     bind_result (conf_str conf ''device'') (\<lambda>device.
     bind_result (conf_str conf ''dm_name'') (\<lambda>dm_name.
       Inr \<lparr>mf_node = node, mf_device = device, mf_dm_name = dm_name, mf_gen = 1, mf_abi = ABI_VERSION,
            mf_size = sz, mf_base_end_seq = None, mf_base_time = None, mf_seeded = None,
            mf_consistent = None\<rparr>)))"

definition Daemon_init ::
  "'w exec \<Rightarrow> ('w \<Rightarrow> string \<Rightarrow> string) \<Rightarrow> nat \<Rightarrow> node_dir \<Rightarrow> sfile option \<Rightarrow> bytes \<Rightarrow> string option \<Rightarrow>
   conf \<Rightarrow> ('w, daemon) io" where
  "Daemon_init exec realpath blk dir raw st_buf boot conf =
     io_bind (io_lift (node_root conf)) (\<lambda>root.
     io_bind (io_lift (case conf ''cycle_sec'' of None \<Rightarrow> Inl (KeyError ''cycle_sec'')
                       | Some v \<Rightarrow> py_float v)) (\<lambda>cycle.
     io_bind (ensure_target exec realpath conf) (\<lambda>(cdp_path, conf1).
     io_lift
       (bind_result (status st_buf) (\<lambda>st.
        (let sz = s_dev_sectors st * 512 in
         bind_result (case nd_manifest dir of Some m \<Rightarrow> Inr m | None \<Rightarrow> initial_manifest conf1 sz) (\<lambda>m.
         bind_result (Replica_init blk raw (nd_seed_raw dir) sz) (\<lambda>rp.
         bind_result (py_float (get_or conf1 ''consistent_sec'' (JNum 3600))) (\<lambda>consistent.
         bind_result (py_float (get_or conf1 ''freeze_cap_sec'' (JNum 30))) (\<lambda>cap.
           Inr \<lparr>d_size = sz, d_manifest = m,
                d_seed_required = (truthy (get_or conf1 ''seed_required'' JNull) \<and> mf_base_end_seq m = None),
                d_replica = rp, d_boot_id = boot, d_copying = None, d_deferred = [],
                d_base_running = False, d_base_progress = None, d_recovery = None, d_recovery_queue = [],
                d_consistent_sec = consistent, d_freeze_cap_sec = cap, d_cycle_sec = cycle,
                d_last_consistent = 0, d_gap_seen = None, d_last_seq = None, d_last_time = None,
                d_records = 0, d_bytes = 0, d_dir = dir\<lparr>nd_manifest := Some m\<rparr>\<rparr>)))))))))) "

subsection \<open>Which commands run\<close>

text \<open>The commands of an action, as the machine sees them.\<close>

definition commands :: "((string list list \<times> 'w), 'a) io \<Rightarrow> 'w \<Rightarrow> string list list" where
  "commands act w = fst (snd (act ([], w)))"

lemma run_traced:
  "run (traced exec) cmd check (tr, w) =
    (case exec cmd w of
       (None, w1) \<Rightarrow> (Inl OSError, (tr @ [cmd], w1))
     | (Some (rc, out), w1) \<Rightarrow>
         ((if check \<and> rc \<noteq> 0 then Inl CalledProcessError else Inr (rc, out)), (tr @ [cmd], w1)))"
  by (auto simp: run_def traced_def split: option.splits prod.splits)

lemma table_device_commands:
  "fst (snd (table_device (traced exec) realpath name (tr, w))) = tr @ [[''dmsetup'', ''table'', name]]"
  by (simp add: table_device_def io_bind_cases run_traced Let_def split: option.splits prod.splits sum.splits)

lemma root_disk_commands:
  "fst (snd (root_disk (traced exec) realpath (tr, w))) = tr @ [[''findmnt'', ''-n'', ''-o'', ''SOURCE'', ''/'']]"
  by (simp add: root_disk_def io_bind_cases run_traced Let_def split: option.splits prod.splits sum.splits)


lemma run_ok: "exec cmd w = (Some (rc, out), w1) \<Longrightarrow> \<not> check \<or> rc = 0 \<Longrightarrow> run exec cmd check w = (Inr (rc, out), w1)"
  by (auto simp: run_def)

lemma traced_step: "exec cmd w = (r, w1) \<Longrightarrow> traced exec cmd (tr, w) = (r, (tr @ [cmd], w1))"
  by (simp add: traced_def)

lemmas command_simps = run_ok traced_step io_bind_cases Let_def

text \<open>\<^verbatim>\<open>ensure_target\<close> changes at most the entry \<^verbatim>\<open>device\<close> of the configuration.\<close>

lemma ensure_target_conf:
  assumes "fst (ensure_target exec realpath conf w) = Inr (p, conf1)"
  shows "k \<noteq> ''device'' \<Longrightarrow> conf1 k = conf k"
  using assms unfolding ensure_target_def
  by (auto simp: io_bind_cases io_lift_def Let_def split: sum.splits prod.splits if_splits)

text \<open>The commands of an action with their answers.\<close>

definition logged :: "'w exec \<Rightarrow> ((string list \<times> (int \<times> string) option) list \<times> 'w) exec" where
  "logged exec cmd = (\<lambda>(l, w). let (r, w1) = exec cmd w in (r, (l @ [(cmd, r)], w1)))"

lemma run_logged:
  "run (logged exec) cmd check (l, w) =
    (let (r, w1) = exec cmd w in
     ((case r of None \<Rightarrow> Inl OSError | Some (rc, out) \<Rightarrow> if check \<and> rc \<noteq> 0 then Inl CalledProcessError else Inr (rc, out)),
      (l @ [(cmd, r)], w1)))"
  by (auto simp: run_def logged_def Let_def split: option.splits prod.splits)

lemma run_loggedE:
  assumes "run (logged exec) cmd check (l, w) = (r, z)"
  obtains a w1 where "exec cmd w = (a, w1)" "z = (l @ [(cmd, a)], w1)"
    "r = (case a of None \<Rightarrow> Inl OSError | Some (rc, out) \<Rightarrow> if check \<and> rc \<noteq> 0 then Inl CalledProcessError else Inr (rc, out))"
  using assms by (auto simp: run_logged Let_def split: prod.splits)

lemma io_bindE:
  assumes "io_bind m k w = (r, z)"
  obtains (err) e where "m w = (Inl e, z)" "r = Inl e" | (ok) x w1 where "m w = (Inr x, w1)" "k x w1 = (r, z)"
  using assms by (cases "m w"; cases "fst (m w)") (auto simp: io_bind_def)

definition prepares :: "string list \<times> (int \<times> string) option \<Rightarrow> bool" where
  "prepares x \<longleftrightarrow> fst x \<in> {[''lsmod''], [''modprobe'', ''dm-cdp'']}"

text \<open>What stands in the log of a new mapping: the module, the size of the device, the mapping
  over exactly that many sectors, the status of the new mapping; it ends where a command fails.\<close>

definition creation_log ::
  "string \<Rightarrow> string \<Rightarrow> (string list \<times> (int \<times> string) option) list \<Rightarrow> (int \<times> string) result \<Rightarrow> bool" where
  "creation_log name dev l r \<longleftrightarrow> (\<exists>mid num n ans post.
     l = mid @ ([''blockdev'', ''--getsz'', dev], Some (0, num)) #
       ([''dmsetup'', ''create'', name, ''--table'', ''0 '' @ show_int n @ '' cdp '' @ dev @ '' 0''], ans) # post \<and>
     list_all prepares mid \<and> py_int (py_strip num) = Inr n \<and>
     (post = [] \<or> (\<exists>a. post = [([''dmsetup'', ''status'', name], a)])) \<and>
     (\<forall>k out. r = Inr (k, out) \<longrightarrow> k = 0 \<and> (\<exists>o1. ans = Some (0, o1)) \<and> post = [([''dmsetup'', ''status'', name], Some (0, out))]))"

lemma creation_logI:
  assumes "list_all prepares mid" and "py_int (py_strip num) = Inr n"
    and "post = [] \<or> (\<exists>a. post = [([''dmsetup'', ''status'', name], a)])"
    and "\<forall>k out. r = Inr (k, out) \<longrightarrow> k = 0 \<and> (\<exists>o1. ans = Some (0, o1)) \<and> post = [([''dmsetup'', ''status'', name], Some (0, out))]"
  shows "creation_log name dev (mid @ ([''blockdev'', ''--getsz'', dev], Some (0, num)) #
    ([''dmsetup'', ''create'', name, ''--table'', ''0 '' @ show_int n @ '' cdp '' @ dev @ '' 0''], ans) # post) r"
  unfolding creation_log_def using assms by blast

lemma create_target_last:
  assumes "io_bind (run (logged exec) [''dmsetup'', ''create'', name, ''--table'', cdp_table n dev] True)
      (\<lambda>_. run (logged exec) [''dmsetup'', ''status'', name] True) (l, w) = (r, (l', w'))"
  shows "\<exists>ans post. l' = l @ ([''dmsetup'', ''create'', name, ''--table'', ''0 '' @ show_int n @ '' cdp '' @ dev @ '' 0''], ans) # post \<and>
    (post = [] \<or> (\<exists>a. post = [([''dmsetup'', ''status'', name], a)])) \<and>
    (\<forall>k out. r = Inr (k, out) \<longrightarrow> k = 0 \<and> (\<exists>o1. ans = Some (0, o1)) \<and> post = [([''dmsetup'', ''status'', name], Some (0, out))])"
  using assms unfolding cdp_table_def
  by (elim io_bindE; elim run_loggedE; auto split: option.splits if_splits prod.splits elim!: run_loggedE)

lemma blockdev_logged:
  assumes "blockdev_sectors (logged exec) dev (l, w) = (r, (l', w'))"
  shows "\<exists>a. l' = l @ [([''blockdev'', ''--getsz'', dev], a)] \<and>
    (\<forall>n. r = Inr n \<longrightarrow> (\<exists>num. a = Some (0, num) \<and> py_int (py_strip num) = Inr n))"
  using assms unfolding blockdev_sectors_def
  by (elim io_bindE; elim run_loggedE) (auto simp: io_lift_def split: option.splits if_splits prod.splits)

lemma module_logged:
  assumes "(if c then io_lift (Inr (0, [])) else run (logged exec) [''modprobe'', ''dm-cdp''] True) (l, w) = (r, (l', w'))"
  shows "\<exists>mid. l' = l @ mid \<and> list_all prepares mid"
  using assms by (auto simp: io_lift_def prepares_def split: if_splits elim!: run_loggedE intro: exI [of _ "[]"])

lemma create_target_sized:
  assumes "io_bind (blockdev_sectors (logged exec) dev) (\<lambda>sectors.
      io_bind (run (logged exec) [''dmsetup'', ''create'', name, ''--table'', cdp_table sectors dev] True) (\<lambda>_.
        run (logged exec) [''dmsetup'', ''status'', name] True)) (l @ mid, w) = (r, (l', w'))"
    and pre: "list_all prepares mid"
  shows "\<exists>l1. l' = l @ l1 \<and> (creation_log name dev l1 r \<or>
    (\<exists>e. r = Inl e) \<and> list_all (\<lambda>x. prepares x \<or> fst x = [''blockdev'', ''--getsz'', dev]) l1)"
  using assms(1)
proof (rule io_bindE)
  fix e assume "blockdev_sectors (logged exec) dev (l @ mid, w) = (Inl e, (l', w'))" "r = Inl e"
  with blockdev_logged [of exec dev "l @ mid" w "Inl e" l' w'] pre show ?thesis by (auto simp: list_all_iff)
next
  fix n z
  assume n: "blockdev_sectors (logged exec) dev (l @ mid, w) = (Inr n, z)" and
    rest: "io_bind (run (logged exec) [''dmsetup'', ''create'', name, ''--table'', cdp_table n dev] True)
      (\<lambda>_. run (logged exec) [''dmsetup'', ''status'', name] True) z = (r, (l', w'))"
  obtain num w3 where z: "z = (l @ mid @ [([''blockdev'', ''--getsz'', dev], Some (0, num))], w3)" "py_int (py_strip num) = Inr n"
    using blockdev_logged [of exec dev "l @ mid" w "Inr n" "fst z" "snd z"] n by (cases z) auto
  obtain ans post where p: "l' = l @ mid @ ([''blockdev'', ''--getsz'', dev], Some (0, num)) #
      ([''dmsetup'', ''create'', name, ''--table'', ''0 '' @ show_int n @ '' cdp '' @ dev @ '' 0''], ans) # post"
    "post = [] \<or> (\<exists>a. post = [([''dmsetup'', ''status'', name], a)])"
    "\<forall>k out. r = Inr (k, out) \<longrightarrow> k = 0 \<and> (\<exists>o1. ans = Some (0, o1)) \<and> post = [([''dmsetup'', ''status'', name], Some (0, out))]"
    using create_target_last [OF rest [unfolded z(1)]] by auto
  show ?thesis by (rule exI, rule conjI, rule p(1), rule disjI1, rule creation_logI [OF pre z(2) p(2,3)])
qed

lemma create_target_logged:
  assumes "create_target (logged exec) name dev (l, w) = (r, (l', w'))"
  shows "\<exists>l1. l' = l @ l1 \<and> (creation_log name dev l1 r \<or>
    (\<exists>e. r = Inl e) \<and> list_all (\<lambda>x. prepares x \<or> fst x = [''blockdev'', ''--getsz'', dev]) l1)"
  using assms unfolding create_target_def
proof (rule io_bindE)
  fix e assume "run (logged exec) [''lsmod''] True (l, w) = (Inl e, l', w')" "r = Inl e"
  then show ?thesis by (auto simp: prepares_def elim!: run_loggedE)
next
  let ?module = "\<lambda>mods. if py_contains ''dm_cdp'' mods then io_lift (Inr (0, [])) else run (logged exec) [''modprobe'', ''dm-cdp''] True"
  fix x1 z1
  assume 1: "run (logged exec) [''lsmod''] True (l, w) = (Inr x1, z1)" and
    rest: "(case x1 of (_, mods) \<Rightarrow> io_bind (?module mods) (\<lambda>_.
      io_bind (blockdev_sectors (logged exec) dev) (\<lambda>sectors.
      io_bind (run (logged exec) [''dmsetup'', ''create'', name, ''--table'', cdp_table sectors dev] True) (\<lambda>_.
        run (logged exec) [''dmsetup'', ''status'', name] True)))) z1 = (r, (l', w'))"
  obtain a1 w1 where z1: "z1 = (l @ [([''lsmod''], a1)], w1)" using 1 by (auto elim!: run_loggedE)
  obtain k mods where x1: "x1 = (k, mods)" by (cases x1)
  from rest show ?thesis unfolding x1 prod.case
  proof (rule io_bindE)
    fix e assume "?module mods z1 = (Inl e, l', w')" "r = Inl e"
    with module_logged z1 show ?thesis by (fastforce simp: prepares_def list_all_iff)
  next
    fix x2 z2
    assume 2: "?module mods z1 = (Inr x2, z2)" and
      sized: "io_bind (blockdev_sectors (logged exec) dev) (\<lambda>sectors.
        io_bind (run (logged exec) [''dmsetup'', ''create'', name, ''--table'', cdp_table sectors dev] True) (\<lambda>_.
          run (logged exec) [''dmsetup'', ''status'', name] True)) z2 = (r, (l', w'))"
    obtain mid w2 where z2: "z2 = (l @ ([''lsmod''], a1) # mid, w2)" "list_all prepares mid"
      using module_logged [of _ exec "l @ [([''lsmod''], a1)]" w1 "Inr x2" "fst z2" "snd z2"] 2 z1 by (cases z2) auto
    then have "list_all prepares (([''lsmod''], a1) # mid)" by (simp add: prepares_def)
    from create_target_sized [OF sized [unfolded z2(1)] this] show ?thesis .
  qed
qed

lemma creation_log_create:
  assumes "creation_log name dev l r" and "(c, a) \<in> set l" and "take 2 c = [''dmsetup'', ''create'']"
  shows "\<exists>mid num n post. l = mid @ ([''blockdev'', ''--getsz'', dev], Some (0, num)) # (c, a) # post \<and>
    list_all prepares mid \<and> py_int (py_strip num) = Inr n \<and>
    c = [''dmsetup'', ''create'', name, ''--table'', ''0 '' @ show_int n @ '' cdp '' @ dev @ '' 0''] \<and>
    (\<forall>k out. r = Inr (k, out) \<longrightarrow> (\<exists>o1. a = Some (0, o1)) \<and> post = [([''dmsetup'', ''status'', name], Some (0, out))])"
proof -
  obtain mid num n ans post where l: "l = mid @ ([''blockdev'', ''--getsz'', dev], Some (0, num)) #
        ([''dmsetup'', ''create'', name, ''--table'', ''0 '' @ show_int n @ '' cdp '' @ dev @ '' 0''], ans) # post"
      "list_all prepares mid" "py_int (py_strip num) = Inr n" "post = [] \<or> (\<exists>a. post = [([''dmsetup'', ''status'', name], a)])"
      "\<forall>k out. r = Inr (k, out) \<longrightarrow> k = 0 \<and> (\<exists>o1. ans = Some (0, o1)) \<and> post = [([''dmsetup'', ''status'', name], Some (0, out))]"
    using assms(1) unfolding creation_log_def by blast
  have "(c, a) \<notin> set mid" "(c, a) \<notin> set post" using l(2,4) assms(3) by (auto simp: list_all_iff prepares_def)
  with assms(2,3) l(1) have "c = [''dmsetup'', ''create'', name, ''--table'', ''0 '' @ show_int n @ '' cdp '' @ dev @ '' 0'']" "a = ans"
    by auto
  with l show ?thesis by blast
qed

lemma table_device_logged:
  "fst (snd (table_device (logged exec) realpath name (l, w))) = l @ [([''dmsetup'', ''table'', name], fst (exec [''dmsetup'', ''table'', name] w))]"
  by (simp add: table_device_def io_bind_cases run_logged Let_def split: option.splits prod.splits sum.splits)

lemma root_disk_logged:
  "fst (snd (root_disk (logged exec) realpath (l, w))) =
    l @ [([''findmnt'', ''-n'', ''-o'', ''SOURCE'', ''/''], fst (exec [''findmnt'', ''-n'', ''-o'', ''SOURCE'', ''/''] w))]"
  by (simp add: root_disk_def io_bind_cases run_logged Let_def split: option.splits prod.splits sum.splits)

lemma ensure_target_logged:
  assumes "ensure_target (logged exec) realpath conf ([], w) = (r, (l, w'))"
    and "(c, a) \<in> set l" and "take 2 c = [''dmsetup'', ''create'']"
  obtains name dev rc out l1 r1 where "conf ''dm_name'' = Some (JStr name)" "conf ''device'' = Some (JStr dev)" "dev \<noteq> []" "rc \<noteq> 0"
    "l = ([''dmsetup'', ''status'', name], Some (rc, out)) # l1" "creation_log name dev l1 r1"
    "\<forall>p conf1. r = Inr (p, conf1) \<longrightarrow> conf1 = conf \<and> (\<exists>k o2. r1 = Inr (k, o2) \<and> p = ''/dev/'' @ py_split o2 ! 3)"
proof -
  obtain name where name: "conf ''dm_name'' = Some (JStr name)"
    using assms(1,2) by (cases "conf_str conf ''dm_name''") (auto simp: ensure_target_def conf_str_def split: option.splits jval.splits)
  obtain a0 w0 where st: "exec [''dmsetup'', ''status'', name] w = (a0, w0)" by fastforce
  let ?l0 = "[([''dmsetup'', ''status'', name], a0)]"
  have others: "l \<noteq> ?l0" "l \<noteq> ?l0 @ [([''dmsetup'', ''table'', name], x)]" "l \<noteq> ?l0 @ [([''findmnt'', ''-n'', ''-o'', ''SOURCE'', ''/''], x)]" for x
    using assms(2,3) by auto
  note start = assms(1) [unfolded ensure_target_def] name st
  obtain rc out where a0: "a0 = Some (rc, out)"
    using start others(1) by (cases a0) (auto simp: conf_str_def run_logged)
  have l_snd: "l = fst (snd (ensure_target (logged exec) realpath conf ([], w)))" using assms(1) by simp
  have "rc \<noteq> 0"
    using l_snd name st a0 others(2) table_device_logged [of exec realpath name ?l0 w0]
    by (auto simp: ensure_target_def conf_str_def run_logged io_bind_cases [of "table_device _ _ _"] io_bind_cases [of "io_bind _ _"]
        Let_def io_lift_def split: sum.splits prod.splits if_splits)
  have "truthy (get_or conf ''device'' JNull)"
    using l_snd name st a0 \<open>rc \<noteq> 0\<close> others(3) root_disk_logged [of exec realpath ?l0 w0]
    by (auto simp: ensure_target_def conf_str_def run_logged io_bind_cases [of "root_disk _ _"] io_bind_cases [of "io_bind _ _"]
        Let_def io_lift_def split: sum.splits prod.splits if_splits)
  moreover have "\<exists>dev. conf_str conf ''device'' = Inr dev"
    using l_snd name st a0 \<open>rc \<noteq> 0\<close> calculation others(1)
    by (cases "conf_str conf ''device''") (auto simp: ensure_target_def conf_str_def [of conf "''dm_name''"] run_logged)
  ultimately obtain dev where dev: "conf ''device'' = Some (JStr dev)" "dev \<noteq> []" "truthy (get_or conf ''device'' JNull)"
    by (auto simp: conf_str_def get_or_def split: option.splits jval.splits if_splits)
  obtain r1 l2 w2 where ct: "create_target (logged exec) name dev (?l0, w0) = (r1, (l2, w2))" by (metis prod.exhaust)
  have l: "l = l2" using l_snd name st a0 \<open>rc \<noteq> 0\<close> dev ct
    by (simp add: ensure_target_def conf_str_def run_logged io_bind_cases Let_def io_lift_def split: sum.splits prod.splits if_splits)
  obtain l1 where l1: "l2 = ?l0 @ l1" "creation_log name dev l1 r1 \<or>
      (\<exists>e. r1 = Inl e) \<and> list_all (\<lambda>x. prepares x \<or> fst x = [''blockdev'', ''--getsz'', dev]) l1"
    using create_target_logged [OF ct] by blast
  moreover have "\<not> list_all (\<lambda>x. prepares x \<or> fst x = [''blockdev'', ''--getsz'', dev]) l1"
    using assms(2,3) l l1(1) by (fastforce simp: list_all_iff prepares_def)
  moreover have "conf1 = conf \<and> (\<exists>k o2. r1 = Inr (k, o2) \<and> p = ''/dev/'' @ py_split o2 ! 3)" if "r = Inr (p, conf1)" for p conf1
    using assms(1) that name st a0 \<open>rc \<noteq> 0\<close> dev ct
    by (auto simp: ensure_target_def conf_str_def run_logged io_bind_cases Let_def io_lift_def split: sum.splits prod.splits if_splits)
  ultimately show thesis using that [OF name dev(1,2) \<open>rc \<noteq> 0\<close>, of out l1 r1] l a0 by auto
qed

subsection \<open>Sample machines\<close>

text \<open>A machine whose mapping exists, and one on which the root disk is not wrapped.\<close>

definition wrapped_exec :: "unit exec" where
  "wrapped_exec cmd w =
     (if cmd = [''dmsetup'', ''status'', ''rkcdp''] then (Some (0, ''0 4 cdp cdp0 ok''), w)
      else if cmd = [''dmsetup'', ''table'', ''rkcdp''] then (Some (0, ''0 4 cdp 8:16 0''), w)
      else (None, w))"

definition plain_exec :: "unit exec" where
  "plain_exec cmd w =
     (if cmd = [''findmnt'', ''-n'', ''-o'', ''SOURCE'', ''/''] then (Some (0, ''/dev/sda1''), w)
      else (Some (1, []), w))"

lemma wrapped_words:
  "py_split ''0 4 cdp cdp0 ok'' = [''0'', ''4'', ''cdp'', ''cdp0'', ''ok'']"
  "py_split ''0 4 cdp 8:16 0'' = [''0'', ''4'', ''cdp'', ''8:16'', ''0'']"
  by code_simp+

subsection \<open>Properties\<close>

text \<open>
  \<^verbatim>\<open>ensure_target\<close> adopts an existing mapping: when \<^verbatim>\<open>dmsetup status\<close> succeeds, exactly
  two read-only commands run, whatever they print, and no mapping is created; if the outputs
  are those of a cdp target, the record device named in the status is returned and the
  configured device is replaced by the one of the mapping.
\<close>

theorem ensure_target_adopts:
  assumes "conf ''dm_name'' = Some (JStr name)"
    and "exec [''dmsetup'', ''status'', name] w = (Some (0, out), w1)"
    and "exec [''dmsetup'', ''table'', name] w1 = (Some (0, tbl), w2)"
    and "4 \<le> length (py_split out)" and "py_split out ! 2 = ''cdp''"
    and "5 \<le> length (py_split tbl)" and "py_split tbl ! 2 = ''cdp''"
  shows "ensure_target exec realpath conf w =
      (Inr (''/dev/'' @ py_split out ! 3,
        conf(''device'' \<mapsto> JStr (''/dev/'' @ basename (realpath w2 (''/sys/dev/block/'' @ py_split tbl ! 3))))), w2) \<and>
    commands (ensure_target (traced exec) (realpath \<circ> snd) conf) w =
      [[''dmsetup'', ''status'', name], [''dmsetup'', ''table'', name]]"
  using assms by (simp add: ensure_target_def commands_def conf_str_def table_device_def command_simps)

theorem ensure_target_adopts_witness:
  "ensure_target wrapped_exec (\<lambda>_ p. p) (load_conf ''n1'' None) () =
      (Inr (''/dev/'' @ py_split ''0 4 cdp cdp0 ok'' ! 3,
        (load_conf ''n1'' None)(''device'' \<mapsto>
          JStr (''/dev/'' @ basename ((\<lambda>_ p. p) () (''/sys/dev/block/'' @ py_split ''0 4 cdp 8:16 0'' ! 3))))), ()) \<and>
    commands (ensure_target (traced wrapped_exec) ((\<lambda>_ p. p) \<circ> snd) (load_conf ''n1'' None)) () =
      [[''dmsetup'', ''status'', ''rkcdp''], [''dmsetup'', ''table'', ''rkcdp'']]"
  by (rule ensure_target_adopts)
    (simp_all add: load_conf_def wrapped_exec_def wrapped_words)

text \<open>
  \<^verbatim>\<open>ensure_target\<close> never wraps a disk that was not configured: without a mapping and
  without a configured device it raises, having run only the status query and \<^verbatim>\<open>findmnt\<close>.
\<close>

theorem ensure_target_refuses:
  assumes "conf ''dm_name'' = Some (JStr name)" and "\<not> truthy (get_or conf ''device'' JNull)"
    and "exec [''dmsetup'', ''status'', name] w = (Some (rc, out), w1)" and "rc \<noteq> 0"
  shows "(\<exists>e. fst (ensure_target exec realpath conf w) = Inl e) \<and>
    commands (ensure_target (traced exec) (realpath \<circ> snd) conf) w =
      [[''dmsetup'', ''status'', name], [''findmnt'', ''-n'', ''-o'', ''SOURCE'', ''/'']]"
  using assms root_disk_commands [of exec "realpath \<circ> snd" "[[''dmsetup'', ''status'', name]]" w1]
  by (auto simp: ensure_target_def commands_def conf_str_def command_simps split: sum.splits)

theorem ensure_target_refuses_witness:
  "(\<exists>e. fst (ensure_target plain_exec (\<lambda>_ p. p) (load_conf ''n1'' None) ()) = Inl e) \<and>
    commands (ensure_target (traced plain_exec) ((\<lambda>_ p. p) \<circ> snd) (load_conf ''n1'' None)) () =
      [[''dmsetup'', ''status'', ''rkcdp''], [''findmnt'', ''-n'', ''-o'', ''SOURCE'', ''/'']]"
  by (rule ensure_target_refuses [where rc = 1 and out = "[]"])
    (simp_all add: load_conf_def plain_exec_def get_or_def)

text \<open>
  (C37) \<^verbatim>\<open>ensure_target\<close> wraps only what it was told to wrap, on any machine and whatever its commands
  answer: when a \<^verbatim>\<open>dmsetup create\<close> has run, the status query of the configured mapping had failed
  just before, a device is configured, only the module was looked up or loaded in between, and
  the mapping has the configured name and the table \<^verbatim>\<open>0 n cdp dev 0\<close> of the configured device \<open>dev\<close>,
  where \<open>n\<close> is the number that \<^verbatim>\<open>blockdev --getsz\<close> printed for \<open>dev\<close> in the command before. If the call
  returns, the command succeeded, the record device is the one that the status of the new mapping
  names, and the configuration is unchanged.
\<close>

theorem ensure_target_creates:
  assumes "ensure_target (logged exec) realpath conf ([], w) = (r, (l, w'))"
    and "(c, a) \<in> set l" and "take 2 c = [''dmsetup'', ''create'']"
  shows "\<exists>name dev rc out mid num n post. conf ''dm_name'' = Some (JStr name) \<and> conf ''device'' = Some (JStr dev) \<and> dev \<noteq> [] \<and>
    l = ([''dmsetup'', ''status'', name], Some (rc, out)) # mid @ ([''blockdev'', ''--getsz'', dev], Some (0, num)) # (c, a) # post \<and>
    rc \<noteq> 0 \<and> (\<forall>x \<in> set mid. fst x \<in> {[''lsmod''], [''modprobe'', ''dm-cdp'']}) \<and> py_int (py_strip num) = Inr n \<and>
    c = [''dmsetup'', ''create'', name, ''--table'', ''0 '' @ show_int n @ '' cdp '' @ dev @ '' 0''] \<and>
    (\<forall>p conf1. r = Inr (p, conf1) \<longrightarrow> conf1 = conf \<and> (\<exists>o1 o2. a = Some (0, o1) \<and>
      post = [([''dmsetup'', ''status'', name], Some (0, o2))] \<and> p = ''/dev/'' @ py_split o2 ! 3))"
proof -
  obtain name dev rc out l1 r1 where s: "conf ''dm_name'' = Some (JStr name)" "conf ''device'' = Some (JStr dev)" "dev \<noteq> []" "rc \<noteq> 0"
      "l = ([''dmsetup'', ''status'', name], Some (rc, out)) # l1" "creation_log name dev l1 r1"
      "\<forall>p conf1. r = Inr (p, conf1) \<longrightarrow> conf1 = conf \<and> (\<exists>k o2. r1 = Inr (k, o2) \<and> p = ''/dev/'' @ py_split o2 ! 3)"
    by (rule ensure_target_logged [OF assms])
  from creation_log_create [OF s(6), of c a] assms(2,3) s(5) obtain mid num n post where
    l: "l1 = mid @ ([''blockdev'', ''--getsz'', dev], Some (0, num)) # (c, a) # post" "list_all prepares mid" "py_int (py_strip num) = Inr n"
      "c = [''dmsetup'', ''create'', name, ''--table'', ''0 '' @ show_int n @ '' cdp '' @ dev @ '' 0'']"
      "\<forall>k out. r1 = Inr (k, out) \<longrightarrow> (\<exists>o1. a = Some (0, o1)) \<and> post = [([''dmsetup'', ''status'', name], Some (0, out))]"
    by auto
  have "\<forall>x \<in> set mid. fst x \<in> {[''lsmod''], [''modprobe'', ''dm-cdp'']}" using l(2) unfolding prepares_def list_all_iff .
  moreover have "conf1 = conf \<and> (\<exists>o1 o2. a = Some (0, o1) \<and> post = [([''dmsetup'', ''status'', name], Some (0, o2))] \<and> p = ''/dev/'' @ py_split o2 ! 3)"
    if "r = Inr (p, conf1)" for p conf1 using s(7) l(5) that by blast
  ultimately show ?thesis using s(1-5) l(1,3,4) by blast
qed

text \<open>A machine on which the mapping comes into being when it is created.\<close>

definition creating_exec :: "bool exec" where
  "creating_exec cmd w =
     (if take 2 cmd = [''dmsetup'', ''status''] then (Some (if w then (0, ''0 4 cdp cdp0 ok'') else (1, [])), w)
      else if take 2 cmd = [''dmsetup'', ''create''] then (Some (0, []), True)
      else if take 1 cmd = [''blockdev''] then (Some (0, ''4''), w)
      else (Some (0, []), w))"

lemma creating_log:
  "\<exists>r w'. ensure_target (logged creating_exec) (\<lambda>_ p. p) (load_conf ''n1'' (Some [(''device'', JStr ''/dev/sdb'')])) ([], False) =
    (r, ([([''dmsetup'', ''status'', ''rkcdp''], Some (1, [])), ([''lsmod''], Some (0, [])), ([''modprobe'', ''dm-cdp''], Some (0, [])),
      ([''blockdev'', ''--getsz'', ''/dev/sdb''], Some (0, ''4'')),
      ([''dmsetup'', ''create'', ''rkcdp'', ''--table'', ''0 4 cdp /dev/sdb 0''], Some (0, [])),
      ([''dmsetup'', ''status'', ''rkcdp''], Some (0, ''0 4 cdp cdp0 ok''))], w'))"
proof -
  have "py_int (py_strip ''4'') = Inr 4" "show_int 4 = ''4''" "\<not> py_contains ''dm_cdp'' []" by code_simp+
  then show ?thesis
    by (auto simp: ensure_target_def create_target_def blockdev_sectors_def cdp_table_def conf_str_def load_conf_def dict_of_def
        get_or_def run_def logged_def creating_exec_def io_bind_def io_lift_def wrapped_words Let_def)
qed

theorem ensure_target_creates_witness:
  "\<exists>r l w' name dev rc out mid num n post.
    ensure_target (logged creating_exec) (\<lambda>_ p. p) (load_conf ''n1'' (Some [(''device'', JStr ''/dev/sdb'')])) ([], False) = (r, (l, w')) \<and>
    load_conf ''n1'' (Some [(''device'', JStr ''/dev/sdb'')]) ''dm_name'' = Some (JStr name) \<and>
    load_conf ''n1'' (Some [(''device'', JStr ''/dev/sdb'')]) ''device'' = Some (JStr dev) \<and> dev \<noteq> [] \<and>
    l = ([''dmsetup'', ''status'', name], Some (rc, out)) # mid @ ([''blockdev'', ''--getsz'', dev], Some (0, num)) #
      ([''dmsetup'', ''create'', ''rkcdp'', ''--table'', ''0 4 cdp /dev/sdb 0''], Some (0, [])) # post \<and>
    rc \<noteq> 0 \<and> py_int (py_strip num) = Inr n \<and>
    [''dmsetup'', ''create'', ''rkcdp'', ''--table'', ''0 4 cdp /dev/sdb 0''] =
      [''dmsetup'', ''create'', name, ''--table'', ''0 '' @ show_int n @ '' cdp '' @ dev @ '' 0'']"
proof -
  obtain r l w' where run: "ensure_target (logged creating_exec) (\<lambda>_ p. p)
      (load_conf ''n1'' (Some [(''device'', JStr ''/dev/sdb'')])) ([], False) = (r, (l, w'))"
    and c: "([''dmsetup'', ''create'', ''rkcdp'', ''--table'', ''0 4 cdp /dev/sdb 0''], Some (0, [])) \<in> set l"
    using creating_log by fastforce
  have "take 2 [''dmsetup'', ''create'', ''rkcdp'', ''--table'', ''0 4 cdp /dev/sdb 0''] = [''dmsetup'', ''create'']" by simp
  from ensure_target_creates [OF run c this] show ?thesis
    by (elim exE conjE) (intro exI conjI, rule run, assumption+)
qed

text \<open>What a daemon is after its constructor.\<close>

lemma Daemon_init_result:
  assumes "Daemon_init exec realpath blk dir raw st_buf boot conf w = (Inr d, w')"
  shows "\<exists>st. status st_buf = Inr st \<and> d_size d = s_dev_sectors st * 512 \<and>
    Replica_init blk raw (nd_seed_raw dir) (d_size d) = Inr (d_replica d) \<and> d_copying d = None \<and> d_deferred d = [] \<and>
    d_recovery_queue d = [] \<and> d_recovery d = None \<and> d_base_progress d = None \<and> d_boot_id d = boot \<and>
    d_dir d = dir\<lparr>nd_manifest := Some (d_manifest d)\<rparr> \<and> (d_seed_required d \<longrightarrow> mf_base_end_seq (d_manifest d) = None) \<and>
    \<not> d_base_running d \<and> (\<forall>m. nd_manifest dir = Some m \<longrightarrow> d_manifest d = m)"
  using assms unfolding Daemon_init_def
  by (auto simp: io_bind_cases io_lift_def bind_result_Inr_iff Let_def split: sum.splits prod.splits option.splits)

lemma Replica_init_wf:
  assumes "Replica_init blk raw seed_raw sz = Inr rp" and "0 < blk"
    and "\<forall>f. raw = Some f \<longrightarrow> wf_file f \<and> f_size f = sz"
    and "\<forall>g. seed_raw = Some g \<longrightarrow> wf_file g \<and> f_size g = sz \<and> f_blk g dvd SEED_CHUNK"
  shows "wf_replica sz rp"
proof (cases seed_raw)
  case None
  with assms show ?thesis
    by (auto simp: Replica_init_def wf_replica_def wf_file_def os_truncated_def split: option.splits)
next
  case (Some g)
  with assms(4) have "f_size g = sz" "wf_file g" "f_blk g dvd SEED_CHUNK" by auto
  from SeedLayer_restart [OF this] obtain s where "SeedLayer g sz = Inr s" "wf_seed s" "sl_size s = sz" by blast
  with Some assms(1-3) show ?thesis
    by (auto simp: Replica_init_def wf_replica_def wf_file_def os_truncated_def split: option.splits)
qed

text \<open>
  (C36) A daemon that came up is well-formed: its replica has the size of the device, no chunk
  is in flight, nothing is deferred or queued, the manifest on disk is the one in memory, and
  it waits for a seed only if no base has been recorded. The replica file and the seed file
  are assumed to be files of the size of the device, if they exist.
\<close>

theorem daemon_init_ok:
  assumes "Daemon_init exec realpath blk dir raw st_buf boot conf w = (Inr d, w')"
    and "0 < blk"
    and "\<forall>f. raw = Some f \<longrightarrow> wf_file f \<and> f_size f = d_size d"
    and "\<forall>f. nd_seed_raw dir = Some f \<longrightarrow> wf_file f \<and> f_size f = d_size d \<and> f_blk f dvd SEED_CHUNK"
  shows "wf_daemon d \<and> d_copying d = None \<and> d_deferred d = [] \<and> d_recovery_queue d = [] \<and>
    nd_manifest (d_dir d) = Some (d_manifest d) \<and>
    (d_seed_required d \<longrightarrow> mf_base_end_seq (d_manifest d) = None)"
proof -
  have d: "Replica_init blk raw (nd_seed_raw dir) (d_size d) = Inr (d_replica d)" "d_copying d = None"
      "d_deferred d = []" "d_recovery_queue d = []" "d_dir d = dir\<lparr>nd_manifest := Some (d_manifest d)\<rparr>"
      "d_seed_required d \<longrightarrow> mf_base_end_seq (d_manifest d) = None"
    using Daemon_init_result [OF assms(1)] by auto
  moreover have "wf_replica (d_size d) (d_replica d)" using Replica_init_wf [OF d(1)] assms(2-4) by simp
  ultimately show ?thesis by (simp add: wf_daemon_def)
qed

lemma Daemon_init_steps:
  assumes "ensure_target exec realpath conf w = (Inr (p, conf1), w1)"
    and "conf ''journal'' = Some (JStr j)" and "conf ''node'' = Some (JStr n)" and "conf ''cycle_sec'' = Some (JNum q)"
    and "status st_buf = Inr st" and "nd_manifest dir = None" and "initial_manifest conf1 (s_dev_sectors st * 512) = Inr m"
    and "Replica_init blk raw (nd_seed_raw dir) (s_dev_sectors st * 512) = Inr rp"
    and "py_float (get_or conf1 ''consistent_sec'' (JNum 3600)) = Inr a"
    and "py_float (get_or conf1 ''freeze_cap_sec'' (JNum 30)) = Inr b"
  shows "\<exists>d. Daemon_init exec realpath blk dir raw st_buf boot conf w = (Inr d, w1)"
  using assms by (simp add: Daemon_init_def io_bind_cases conf_str_def node_root_def Let_def)

lemma sample_target:
  assumes "conf ''dm_name'' = Some (JStr ''rkcdp'')"
  shows "ensure_target wrapped_exec (\<lambda>_ p. p) conf () = (Inr (''/dev/cdp0'', conf(''device'' \<mapsto> JStr ''/dev/8:16'')), ())"
  using assms
  by (simp add: ensure_target_def conf_str_def table_device_def wrapped_exec_def wrapped_words
      command_simps basename_def)

lemma sample_init:
  assumes "conf = load_conf ''n1'' None \<or>
    conf = load_conf ''n1'' (Some [(''consistent_sec'', JNum 0), (''freeze_cap_sec'', JNum 0)])"
  shows "\<exists>d. Daemon_init wrapped_exec (\<lambda>_ p. p) 4096 sample_dir None sample_status_bytes None conf () = (Inr d, ())"
proof -
  have conf: "conf ''dm_name'' = Some (JStr ''rkcdp'')" "conf ''journal'' = Some (JStr ''/replication/_kvmdr/rkcdp'')"
      "conf ''node'' = Some (JStr ''n1'')" "conf ''cycle_sec'' = Some (JNum 1)"
      "conf ''consistent_sec'' \<in> {None, Some (JNum 0)}" "conf ''freeze_cap_sec'' \<in> {None, Some (JNum 0)}"
    using assms by (auto simp: load_conf_def dict_of_def)
  then have "get_or (conf(''device'' \<mapsto> JStr ''/dev/8:16'')) ''consistent_sec'' (JNum 3600) = JNum 3600"
      "get_or (conf(''device'' \<mapsto> JStr ''/dev/8:16'')) ''freeze_cap_sec'' (JNum 30) = JNum 30"
    by (auto simp: get_or_def)
  with conf show ?thesis
    by (intro Daemon_init_steps [OF sample_target _ _ _ sample_status_read])
      (simp_all add: sample_dir_def initial_manifest_def conf_str_def Replica_init_def)
qed

theorem daemon_init_ok_witness:
  "\<exists>d. Daemon_init wrapped_exec (\<lambda>_ p. p) 4096 sample_dir None sample_status_bytes None (load_conf ''n1'' None) () =
      (Inr d, ()) \<and>
    wf_daemon d \<and> d_copying d = None \<and> d_deferred d = [] \<and> d_recovery_queue d = [] \<and>
    nd_manifest (d_dir d) = Some (d_manifest d) \<and>
    (d_seed_required d \<longrightarrow> mf_base_end_seq (d_manifest d) = None)"
proof -
  obtain d where d: "Daemon_init wrapped_exec (\<lambda>_ p. p) 4096 sample_dir None sample_status_bytes None
      (load_conf ''n1'' None) () = (Inr d, ())" using sample_init by blast
  then show ?thesis using daemon_init_ok [OF d] by (simp add: sample_dir_def)
qed

text \<open>
  The documented way to switch consistent points off does not work: a daemon that is
  configured with \<^verbatim>\<open>consistent_sec: 0\<close> (documented as "never") takes one every hour, and a
  \<^verbatim>\<open>freeze_cap_sec\<close> of 0 becomes 30 seconds.
\<close>

theorem zero_interval_is_an_hour:
  assumes "Daemon_init exec realpath blk dir raw st_buf boot conf w = (Inr d, w')"
    and "conf ''consistent_sec'' = Some (JNum 0)" and "conf ''freeze_cap_sec'' = Some (JNum 0)"
  shows "d_consistent_sec d = 3600 \<and> d_freeze_cap_sec d = 30"
proof -
  obtain p conf1 w1 where et: "fst (ensure_target exec realpath conf w) = Inr (p, conf1)"
    and d: "py_float (get_or conf1 ''consistent_sec'' (JNum 3600)) = Inr (d_consistent_sec d)"
      "py_float (get_or conf1 ''freeze_cap_sec'' (JNum 30)) = Inr (d_freeze_cap_sec d)"
    using assms(1) unfolding Daemon_init_def
    by (auto simp: io_bind_cases io_lift_def bind_result_Inr_iff Let_def split: sum.splits prod.splits option.splits)
  from ensure_target_conf [OF et] d assms(2,3) show ?thesis by simp
qed

theorem zero_interval_is_an_hour_witness:
  "\<exists>d. Daemon_init wrapped_exec (\<lambda>_ p. p) 4096 sample_dir None sample_status_bytes None
      (load_conf ''n1'' (Some [(''consistent_sec'', JNum 0), (''freeze_cap_sec'', JNum 0)])) () = (Inr d, ()) \<and>
    d_consistent_sec d = 3600 \<and> d_freeze_cap_sec d = 30"
proof -
  let ?conf = "load_conf ''n1'' (Some [(''consistent_sec'', JNum 0), (''freeze_cap_sec'', JNum 0)])"
  obtain d where d: "Daemon_init wrapped_exec (\<lambda>_ p. p) 4096 sample_dir None sample_status_bytes None ?conf () = (Inr d, ())"
    using sample_init by blast
  then show ?thesis using zero_interval_is_an_hour [OF d] by (simp add: load_conf_def dict_of_def)
qed

end
