(* ===== verification/Main_Loop.thy ===== *)
theory Main_Loop
  imports Startup
begin

text \<open>
  The main thread of \<^verbatim>\<open>rkcdp/rkcdpd.py\<close>: \<^verbatim>\<open>mark_consistent\<close>, \<^verbatim>\<open>check_seed\<close>, \<^verbatim>\<open>write_status\<close>,
  \<^verbatim>\<open>node_json\<close> and \<^verbatim>\<open>main\<close> (its start, one turn of its loop, the loop).

  What the turn finds outside the daemon is a record \<open>iter_env\<close>: what the record device
  returns, what other tools do to the node directory before and during the turn, the answers
  of the ioctls, the clock, and how \<^verbatim>\<open>fsfreeze\<close> ends. The freeze and thaw commands appear in a
  trace. The copy threads are started here (\<open>d_base_running\<close>, \<open>d_recovery\<close>); what they do is in
  \<open>Copy_Engine\<close>.
\<close>

unbundle bit_operations_syntax

datatype read_result = Data bytes | WouldBlock | ReadError

datatype fs_cmd = Freeze | Thaw

datatype freeze_result =
    FreezeExit int       \<comment> \<open>the return code\<close>
  | FreezeTimeout        \<comment> \<open>\<^verbatim>\<open>subprocess.TimeoutExpired\<close>\<close>
  | FreezeMissing        \<comment> \<open>no such program\<close>

subsection \<open>Consistent points\<close>

text \<open>The loop that drains the ring; \<open>clock k\<close> and \<open>rd k\<close> are the \<open>k\<close>-th values of
  \<^verbatim>\<open>time.time()\<close> and \<^verbatim>\<open>os.read\<close>. Not returning is the value \<open>None\<close>, whether the loop runs on for
  ever or one \<^verbatim>\<open>consume\<close> never comes back; an exception of \<^verbatim>\<open>consume\<close> is a value.\<close>

partial_function (option) drain ::
  "fallocate_call \<Rightarrow> (nat \<Rightarrow> rat) \<Rightarrow> (nat \<Rightarrow> read_result) \<Rightarrow> rat \<Rightarrow> nat \<Rightarrow> bytes \<Rightarrow> daemon \<Rightarrow>
   daemon result option" where
  "drain fa clock rd deadline k pending d =
     (if clock k < deadline then
        (case rd k of
           Data data \<Rightarrow>
             if data = [] then Some (Inr d)
             else (case consume fa (pending @ data) d of
                     Inl e \<Rightarrow> if e = Diverges then None else Some (Inl e)
                   | Inr (tail, d1) \<Rightarrow> drain fa clock rd deadline (Suc k) tail d1)
         | _ \<Rightarrow> Some (Inr d))
      else Some (Inr d))"

text \<open>\<^verbatim>\<open>round(x, 2)\<close>: to the nearest hundredth, a tie to the even one.\<close>

definition round2 :: "rat \<Rightarrow> rat" where
  "round2 x =
     (let y = 100 * x; f = \<lfloor>y\<rfloor>; r = y - of_int f in
      of_int (if r < 1 / 2 \<or> (r = 1 / 2 \<and> even f) then f else f + 1) / 100)"

text \<open>\<^verbatim>\<open>mark_consistent\<close>, with the commands it runs: \<open>t0\<close> is the clock at its start, \<open>t1\<close> after the
  thaw (the three readings there count as one). \<open>None\<close> is a call that never returns: it hangs in
  the drain, after the freeze, and the \<^verbatim>\<open>finally\<close> clause is not reached.\<close>

definition mark_consistent ::
  "fallocate_call \<Rightarrow> freeze_result \<Rightarrow> (nat \<Rightarrow> rat) \<Rightarrow> (nat \<Rightarrow> read_result) \<Rightarrow> rat \<Rightarrow> rat \<Rightarrow> daemon \<Rightarrow>
   (daemon result \<times> fs_cmd list) option" where
  "mark_consistent fa frz clock rd t0 t1 d =
     (if paused d \<or> recovery_active d \<or> d_base_progress d \<noteq> None then Some (Inr d, [])
      else (case frz of
          FreezeTimeout \<Rightarrow> Some (Inl TimeoutExpired, [Freeze])
        | FreezeMissing \<Rightarrow> Some (Inl OSError, [])
        | FreezeExit rc \<Rightarrow>
            if rc \<noteq> 0 then Some (Inr d, [Freeze])
            else (case drain fa clock rd (t0 + d_freeze_cap_sec d) 0 [] d of
                None \<Rightarrow> None
              | Some (Inl e) \<Rightarrow> Some (Inl e, [Freeze, Thaw])
              | Some (Inr d1) \<Rightarrow>
                  if d_recovery_queue d1 \<noteq> [] \<or> recovery_active d1 then Some (Inr d1, [Freeze, Thaw])
                  else Some (Inr ((set_manifest
                         ((d_manifest d1)\<lparr>mf_consistent := Some \<lparr>cs_seq = d_last_seq d1, cs_time = t1,
                            cs_held = round2 (t1 - t0)\<rparr>\<rparr>) d1)\<lparr>d_last_consistent := t1\<rparr>), [Freeze, Thaw]))))"

subsection \<open>Seeds\<close>

text \<open>\<^verbatim>\<open>check_seed\<close>. \<^verbatim>\<open>self.boot_id[:8]\<close> in the log line is a \<^verbatim>\<open>TypeError\<close> when there is no boot id.\<close>

definition check_seed :: "rat \<Rightarrow> daemon \<Rightarrow> daemon result" where
  "check_seed now d =
     (case nd_manifest (d_dir d) of
        None \<Rightarrow> Inr d
      | Some m \<Rightarrow>
          (case mf_seeded m of
             None \<Rightarrow> Inr d
           | Some seed \<Rightarrow>
               if sd_boot_id seed = None \<and> sd_time seed = None then Inr d
               else
                 bind_result (case (rp_seed (d_replica d), nd_seed_raw (d_dir d)) of
                     (None, Some f) \<Rightarrow> bind_result (SeedLayer f (d_size d)) (\<lambda>s. Inr ((d_replica d)\<lparr>rp_seed := Some s\<rparr>))
                   | _ \<Rightarrow> Inr (d_replica d)) (\<lambda>rp.
                   (let d1 = d\<lparr>d_manifest := m, d_seed_required := False, d_replica := rp\<rparr> in
                    if sd_boot_id seed = d_boot_id d then
                      (if d_boot_id d = None then Inl TypeError
                       else Inr (set_manifest
                         (m\<lparr>mf_base_end_seq := Some 0,
                            mf_base_time := Some (case sd_time seed of None \<Rightarrow> now | Some t \<Rightarrow> t)\<rparr>)
                         (d1\<lparr>d_recovery_queue := d_recovery_queue d1 @ [-1]\<rparr>)))
                    else Inr (d1\<lparr>d_base_running := True\<rparr>)))))"

subsection \<open>Status\<close>

datatype node_state = WAITING | SYNCING | RECOVERING | PAUSED | BITMAP | CDP

definition daemon_state :: "cdp_status \<Rightarrow> daemon \<Rightarrow> node_state" where
  "daemon_state st d =
     (if d_seed_required d then WAITING
      else if d_base_progress d \<noteq> None then SYNCING
      else if recovery_active d \<or> d_recovery_queue d \<noteq> [] then RECOVERING
      else if nd_lock (d_dir d) then PAUSED
      else if s_flags st AND S_OVERFLOWED \<noteq> 0 then BITMAP
      else CDP)"

text \<open>The names of the states in \<^verbatim>\<open>status.json\<close>.\<close>

fun state_name :: "node_state \<Rightarrow> string" where
  "state_name WAITING = ''WAITING''"
| "state_name SYNCING = ''SYNCING''"
| "state_name RECOVERING = ''RECOVERING''"
| "state_name PAUSED = ''PAUSED''"
| "state_name BITMAP = ''BITMAP''"
| "state_name CDP = ''CDP''"

record status_json =
  sj_node :: string
  sj_state :: node_state
  sj_time :: rat
  sj_boot_id :: "string option"
  sj_last_seq :: "nat option"
  sj_last_time :: "rat option"
  sj_seq_next :: nat
  sj_ring_used :: nat
  sj_ring_size :: nat
  sj_overflows :: nat
  sj_records :: nat
  sj_bytes :: nat
  sj_base_copy :: "progress_info option"
  sj_recovery_gap_seq :: "int option"
  sj_consistent :: "consistent_info option"
  sj_pending_bytes :: nat

definition write_status :: "bytes \<Rightarrow> string \<Rightarrow> rat \<Rightarrow> daemon \<Rightarrow> status_json result" where
  "write_status st_buf node now d =
     bind_result (status st_buf) (\<lambda>st.
       Inr \<lparr>sj_node = node, sj_state = daemon_state st d, sj_time = now, sj_boot_id = d_boot_id d,
            sj_last_seq = d_last_seq d, sj_last_time = d_last_time d,
            sj_seq_next = s_seq_next st, sj_ring_used = s_ring_used st, sj_ring_size = s_ring_size st,
            sj_overflows = s_overflows st, sj_records = d_records d, sj_bytes = d_bytes d,
            sj_base_copy = d_base_progress d,
            sj_recovery_gap_seq = map_option rc_gap_seq (nd_recovery (d_dir d)),
            sj_consistent = mf_consistent (d_manifest d),
            sj_pending_bytes = (case nd_pending (d_dir d) of None \<Rightarrow> 0 | Some b \<Rightarrow> length b)\<rparr>)"

text \<open>\<^verbatim>\<open>node_json\<close>: \<open>nets\<close> lists the network interfaces with their address if it can be read,
  \<open>meminfo\<close> the lines of the file, \<open>hostname_I\<close> the output of \<^verbatim>\<open>hostname -I\<close>.\<close>

record node_info =
  ni_hostname :: string
  ni_device :: string
  ni_disk_bytes :: nat
  ni_cpus :: nat
  ni_mem_mb :: int
  ni_macs :: "(string \<times> string) list"
  ni_ips :: "string list"
  ni_firmware :: string
  ni_time :: rat

definition mem_line :: "string \<Rightarrow> int \<Rightarrow> int result" where
  "mem_line line mem_kb =
     (if take 9 line = ''MemTotal:'' then
        (if length (py_split line) < 2 then Inl IndexError else py_int (py_split line ! 1))
      else Inr mem_kb)"

definition macs_of :: "(string \<times> string option) list \<Rightarrow> (string \<times> string) list" where
  "macs_of nets =
     concat (map (\<lambda>(n, addr). if n = ''lo'' then []
       else (case addr of None \<Rightarrow> [] | Some a \<Rightarrow> [(n, py_strip a)])) nets)"

definition node_json ::
  "string \<Rightarrow> string \<Rightarrow> nat \<Rightarrow> (string \<times> string option) list \<Rightarrow> string list \<Rightarrow> string \<Rightarrow> bool \<Rightarrow> rat \<Rightarrow> daemon \<Rightarrow>
   node_info result" where
  "node_json hostname device cpus nets meminfo hostname_I efi now d =
     bind_result (fold_result mem_line meminfo 0) (\<lambda>mem_kb.
       Inr \<lparr>ni_hostname = hostname, ni_device = device, ni_disk_bytes = d_size d, ni_cpus = cpus,
            ni_mem_mb = mem_kb div 1024, ni_macs = macs_of nets, ni_ips = py_split hostname_I,
            ni_firmware = (if efi then ''efi'' else ''bios''), ni_time = now\<rparr>)"

subsection \<open>The main loop\<close>

text \<open>What \<^verbatim>\<open>node_json\<close> finds on the machine.\<close>

record node_env =
  ne_hostname :: string
  ne_device :: string
  ne_cpus :: nat
  ne_nets :: "(string \<times> string option) list"
  ne_meminfo :: "string list"
  ne_hostname_I :: string
  ne_efi :: bool

record iter_env =
  e_read :: read_result
  e_tools :: "node_dir \<Rightarrow> node_dir"      \<comment> \<open>other tools, before the turn\<close>
  e_tools2 :: "node_dir \<Rightarrow> node_dir"     \<comment> \<open>other tools, before the lock is looked at again\<close>
  e_st_buf :: bytes
  e_ioctl :: "nat \<Rightarrow> nat \<Rightarrow> bytes result"
  e_now :: rat
  e_t0 :: rat                            \<comment> \<open>when a consistent point begins\<close>
  e_freeze :: freeze_result
  e_clock :: "nat \<Rightarrow> rat"
  e_drain :: "nat \<Rightarrow> read_result"
  e_thawed :: rat
  e_node :: node_env

record main_state =
  ms_daemon :: daemon
  ms_pending :: bytes
  ms_last_cycle :: rat
  ms_last_node :: rat
  ms_node :: "node_info option"          \<comment> \<open>\<^verbatim>\<open>node.json\<close>, once written\<close>
  ms_trace :: "fs_cmd list"

text \<open>The part of \<^verbatim>\<open>main\<close> before the loop.\<close>

definition main_start :: "rat \<Rightarrow> daemon \<Rightarrow> main_state" where
  "main_start now d =
     (let d1 = (case nd_recovery (d_dir d) of None \<Rightarrow> d | Some prev \<Rightarrow> d\<lparr>d_recovery := Some prev\<rparr>);
          d2 = (if mf_base_end_seq (d_manifest d1) = None \<and> \<not> d_seed_required d1
                then d1\<lparr>d_base_running := True\<rparr> else d1)
      in \<lparr>ms_daemon = d2, ms_pending = [], ms_last_cycle = now, ms_last_node = 0, ms_node = None, ms_trace = []\<rparr>)"

definition iter_consume :: "fallocate_call \<Rightarrow> bytes \<Rightarrow> bytes \<Rightarrow> daemon \<Rightarrow> (bytes \<times> daemon) result" where
  "iter_consume fa pending data d = (if data = [] then Inr (pending, d) else consume fa (pending @ data) d)"

definition iter_seed :: "rat \<Rightarrow> daemon \<Rightarrow> daemon result" where
  "iter_seed now d = (if d_seed_required d then check_seed now d else Inr d)"

definition iter_recovery ::
  "bytes \<Rightarrow> (nat \<Rightarrow> nat \<Rightarrow> bytes result) \<Rightarrow> rat \<Rightarrow> daemon \<Rightarrow> daemon result" where
  "iter_recovery st_buf ioctl_bitmap now d =
     (case d_recovery_queue d of
        [] \<Rightarrow> Inr d
      | g # gs \<Rightarrow>
          if \<not> recovery_active d \<and> d_base_progress d = None
          then start_recovery st_buf ioctl_bitmap g now (d\<lparr>d_recovery_queue := gs\<rparr>)
          else Inr d)"

definition iter_pending :: "fallocate_call \<Rightarrow> daemon \<Rightarrow> daemon result" where
  "iter_pending fa d =
     (if \<not> paused d \<and> nd_pending (d_dir d) \<noteq> None then apply_pending fa d else Inr d)"

definition iter_consistent ::
  "fallocate_call \<Rightarrow> iter_env \<Rightarrow> daemon \<Rightarrow> (daemon \<times> fs_cmd list) result" where
  "iter_consistent fa env d =
     (if 0 < d_consistent_sec d \<and> d_consistent_sec d \<le> e_now env - d_last_consistent d \<and>
         mf_base_end_seq (d_manifest d) \<noteq> None
      then (case mark_consistent fa (e_freeze env) (e_clock env) (e_drain env) (e_t0 env) (e_thawed env) d of
          None \<Rightarrow> Inl Diverges
        | Some (Inl e, _) \<Rightarrow> Inl e
        | Some (Inr d1, tr) \<Rightarrow> Inr (d1, tr))
      else Inr (d, []))"

definition iter_node :: "iter_env \<Rightarrow> rat \<Rightarrow> node_info option \<Rightarrow> daemon \<Rightarrow> (rat \<times> node_info option) result" where
  "iter_node env last_node old d =
     (if e_now env - last_node > 3600
      then (let n = e_node env in
        bind_result (node_json (ne_hostname n) (ne_device n) (ne_cpus n) (ne_nets n) (ne_meminfo n) (ne_hostname_I n) (ne_efi n)
            (e_now env) d) (\<lambda>j. Inr (e_now env, Some j)))
      else Inr (last_node, old))"

definition tools :: "(node_dir \<Rightarrow> node_dir) \<Rightarrow> daemon \<Rightarrow> daemon" where
  "tools f d = d\<lparr>d_dir := f (d_dir d)\<rparr>"

definition main_iter :: "fallocate_call \<Rightarrow> iter_env \<Rightarrow> main_state \<Rightarrow> main_state result" where
  "main_iter fa env ms =
     (let d0 = tools (e_tools env) (ms_daemon ms); now = e_now env in
      case e_read env of
        ReadError \<Rightarrow> Inr (ms\<lparr>ms_daemon := d0\<rparr>)
      | rd \<Rightarrow>
          bind_result (iter_consume fa (ms_pending ms) (case rd of Data b \<Rightarrow> b | _ \<Rightarrow> []) d0) (\<lambda>(pending, d1).
          bind_result (iter_seed now d1) (\<lambda>d2.
          bind_result (iter_recovery (e_st_buf env) (e_ioctl env) now d2) (\<lambda>d3.
          bind_result (iter_pending fa (tools (e_tools2 env) d3)) (\<lambda>d4.
            (let cycle = d_cycle_sec d4 \<le> now - ms_last_cycle ms;
                 d5 = (if cycle then d4\<lparr>d_last_time := Some now\<rparr> else d4) in
             bind_result (iter_consistent fa env d5) (\<lambda>(d6, tr).
             bind_result (iter_node env (ms_last_node ms) (ms_node ms) d6) (\<lambda>(last_node, node).
               Inr \<lparr>ms_daemon = d6, ms_pending = pending,
                    ms_last_cycle = (if cycle then now else ms_last_cycle ms),
                    ms_last_node = last_node, ms_node = node,
                    ms_trace = ms_trace ms @ tr\<rparr>))))))))"

definition main_loop :: "fallocate_call \<Rightarrow> iter_env list \<Rightarrow> main_state \<Rightarrow> main_state result" where
  "main_loop fa envs ms = fold_result (main_iter fa) envs ms"

subsection \<open>Draining\<close>

text \<open>The bytes of the first \<open>n\<close> reads.\<close>

definition drained :: "(nat \<Rightarrow> read_result) \<Rightarrow> nat \<Rightarrow> bytes" where
  "drained rd n = concat (map (\<lambda>k. case rd k of Data b \<Rightarrow> b | _ \<Rightarrow> []) [0..<n])"

lemma drained_Suc: "rd k = Data b \<Longrightarrow> drained rd (Suc k) = drained rd k @ b"
  by (simp add: drained_def)

lemma drain_ends:
  "deadline \<le> clock (k + n) \<Longrightarrow> \<forall>i \<le> k + n. iter_records (drained rd i) \<noteq> None \<Longrightarrow>
    visited (drained rd k) j \<Longrightarrow> j \<le> length (drained rd k) \<Longrightarrow>
    \<exists>r. drain fa clock rd deadline k (drop j (drained rd k)) d = Some r \<and> r \<noteq> Inl Diverges"
proof (induction n arbitrary: k j d)
  case 0
  then show ?case by (subst drain.simps) simp
next
  case (Suc n)
  show ?case
  proof (cases "\<exists>b. clock k < deadline \<and> rd k = Data b \<and> b \<noteq> []")
    case False
    then show ?thesis by (subst drain.simps) (auto split: read_result.splits)
  next
    case True
    then obtain b where b: "clock k < deadline" "rd k = Data b" "b \<noteq> []" by blast
    let ?s = "drained rd (Suc k)"
    have buf: "drop j (drained rd k) @ b = drop j ?s" using drained_Suc [of rd k b] b(2) Suc.prems(4) by simp
    have j: "visited ?s j" "j \<le> length ?s" using drained_Suc [of rd k b] b(2) Suc.prems(3,4) visited_append by auto
    have "iter_records ?s \<noteq> None" using Suc.prems(2) by simp
    then have nd: "consume fa (drop j ?s) d \<noteq> Inl Diverges"
      using iter_records_drop_ends [OF j] by (simp add: consume_diverges_iff)
    show ?thesis
    proof (cases "consume fa (drop j ?s) d")
      case (Inl e)
      then show ?thesis using nd b buf by (subst drain.simps) simp
    next
      case (Inr p)
      then obtain tl d1 where p: "consume fa (drop j ?s) d = Inr (tl, d1)" by (cases p) simp
      obtain i where i: "visited (drop j ?s) i" "i \<le> length (drop j ?s)" "tl = drop (j + i) ?s"
        using consume_tail [OF p] by (auto simp: add.commute)
      have "visited ?s (j + i)" "j + i \<le> length ?s" using visited_drop [OF j i(1)] i(2) j(2) by auto
      with Suc.IH [of "Suc k" "j + i" d1] Suc.prems(1,2) i(3) b buf p show ?thesis
        by (subst drain.simps) simp
    qed
  qed
qed

lemma drain_no_diverges: "drain fa clock rd deadline k pending d = Some r \<Longrightarrow> r \<noteq> Inl Diverges"
proof -
  assume run: "drain fa clock rd deadline k pending d = Some r"
  show ?thesis
    by (rule drain.raw_induct [OF _ run])
      (auto split: if_splits read_result.splits sum.splits prod.splits)
qed

text \<open>The reads from number \<open>k\<close> on return the pieces \<open>ds\<close>, all before the deadline, and then nothing.\<close>

definition reads_out :: "(nat \<Rightarrow> rat) \<Rightarrow> (nat \<Rightarrow> read_result) \<Rightarrow> rat \<Rightarrow> nat \<Rightarrow> bytes list \<Rightarrow> bool" where
  "reads_out clock rd deadline k ds \<longleftrightarrow>
     list_all (\<lambda>i. clock (k + i) < deadline \<and> rd (k + i) = Data (ds ! i) \<and> ds ! i \<noteq> []) [0..<length ds] \<and>
     clock (k + length ds) < deadline \<and> rd (k + length ds) \<in> {Data [], WouldBlock, ReadError}"

lemma reads_out_Nil:
  "reads_out clock rd deadline k [] \<longleftrightarrow> clock k < deadline \<and> rd k \<in> {Data [], WouldBlock, ReadError}"
  by (simp add: reads_out_def)

lemma reads_out_Cons:
  "reads_out clock rd deadline k (b # ds) \<longleftrightarrow>
    clock k < deadline \<and> rd k = Data b \<and> b \<noteq> [] \<and> reads_out clock rd deadline (Suc k) ds"
proof -
  have "[0..<length (b # ds)] = 0 # map Suc [0..<length ds]" by (simp add: upt_conv_Cons map_Suc_upt del: upt_Suc)
  then show ?thesis by (simp add: reads_out_def list.pred_map comp_def del: upt_Suc)
qed

lemma drain_all:
  assumes "punches_holes fa"
  shows "reads_out clock rd deadline k ds \<Longrightarrow> iter_records (tail @ concat ds) = Some (es, GReturn j) \<Longrightarrow> inside es \<Longrightarrow>
    iter_records tail = Some ([], GReturn 0) \<Longrightarrow> wf_daemon d \<Longrightarrow> d_copying d = None \<Longrightarrow> \<not> paused d \<Longrightarrow>
    list_all (fits (d_size d)) es \<Longrightarrow> \<exists>d'. drain fa clock rd deadline k tail d = Some (Inr d') \<and> consumed es d d'"
proof (induction ds arbitrary: k tail es j d)
  case Nil
  from Nil.prems(1) have "drain fa clock rd deadline k tail d = Some (Inr d)"
    by (subst drain.simps) (auto simp: reads_out_Nil)
  with Nil.prems show ?case by simp
next
  case (Cons b ds)
  have "iter_records ((tail @ b) @ concat ds) = Some (es, GReturn j)" using Cons.prems(2) by simp
  from iter_records_prefix [OF this Cons.prems(3)] obtain es1 es2 i where
    i: "iter_records (tail @ b) = Some (es1, GReturn i)" "es = es1 @ es2"
      "iter_records (drop i (tail @ b) @ concat ds) = Some (es2, GReturn (j - i))" by metis
  have ins: "inside es1" "inside es2" using Cons.prems(3) i(2) by auto
  have "list_all (fits (d_size d)) es1" using Cons.prems(8) i(2) by simp
  from consume_running [OF assms Cons.prems(5-7) i(1) this] obtain d1 where
    d1: "consume fa (tail @ b) d = Inr (drop i (tail @ b), d1)" "consumed es1 d d1" by blast
  have st: "wf_daemon d1" "d_copying d1 = None" "\<not> paused d1" "list_all (fits (d_size d1)) es2"
    using d1(2) Cons.prems(6-8) i(2) by (auto simp: consumed_def same_settings_def paused_def)
  have r: "reads_out clock rd deadline (Suc k) ds" "clock k < deadline" "rd k = Data b" "b \<noteq> []"
    using Cons.prems(1) by (auto simp: reads_out_Cons)
  from Cons.IH [OF r(1) i(3) ins(2) iter_records_tail [OF i(1) ins(1)] st] obtain d2 where
    d2: "drain fa clock rd deadline (Suc k) (drop i (tail @ b)) d1 = Some (Inr d2)" "consumed es2 d1 d2" by blast
  have "drain fa clock rd deadline k tail d = Some (Inr d2)"
    using r(2-4) d1(1) d2(1) by (subst drain.simps) simp
  with consumed_append [OF d1(2) d2(2)] i(2) show ?case by blast
qed

lemma le_nat_zeros: "le_nat (replicate n 0) = 0"
  by (induction n) simp_all

lemma iter_records_Nil: "iter_records [] = Some ([], GReturn 0)"
  by (simp add: iter_records_def iter_from_stop REC_SIZE_def)

subsection \<open>Properties of consistent points\<close>

text \<open>
  (C34) The file system is thawed on every path that leaves \<^verbatim>\<open>mark_consistent\<close>: when the moment is
  settled and the freeze succeeds, a call that returns or raises has run the freeze and then
  the thaw and nothing else, also when applying the drained records raises. A call that has run
  the freeze and not the thaw had it refused or ran into its timeout; in the second case the
  exception leaves \<^verbatim>\<open>mark_consistent\<close>. (A call that never comes back does not thaw:
  \<open>mark_consistent_hangs\<close>.)
\<close>

theorem mark_consistent_thaws:
  assumes "mark_consistent fa frz clock rd t0 t1 d = Some (r, tr)"
  shows "r \<noteq> Inl Diverges \<and>
    tr = (if paused d \<or> recovery_active d \<or> d_base_progress d \<noteq> None \<or> frz = FreezeMissing then []
          else if frz = FreezeExit 0 then [Freeze, Thaw] else [Freeze]) \<and>
    (tr = [Freeze] \<longrightarrow> (\<exists>rc. rc \<noteq> 0 \<and> frz = FreezeExit rc \<and> r = Inr d) \<or> (frz = FreezeTimeout \<and> r = Inl TimeoutExpired))"
proof -
  have "r \<noteq> Inl Diverges"
    using assms drain_no_diverges unfolding mark_consistent_def
    by (fastforce split: if_splits freeze_result.splits option.splits sum.splits)
  then show ?thesis
    using assms unfolding mark_consistent_def
    by (auto split: if_splits freeze_result.splits option.splits sum.splits)
qed

theorem mark_consistent_thaws_witness:
  "mark_consistent no_fallocate (FreezeExit 0) (\<lambda>_. 0) (\<lambda>_. Data (replicate 64 0)) 0 1 sample_daemon =
      Some (Inl (ValueError 0), [Freeze, Thaw]) \<and>
    Inl (ValueError 0) \<noteq> (Inl Diverges :: daemon result) \<and>
    [Freeze, Thaw] = (if paused sample_daemon \<or> recovery_active sample_daemon \<or>
        d_base_progress sample_daemon \<noteq> None \<or> FreezeExit 0 = FreezeMissing then []
      else if FreezeExit 0 = FreezeExit 0 then [Freeze, Thaw] else [Freeze])"
proof -
  have "Rec (replicate 64 0) 0 = Inl (ValueError 0)"
    by (simp add: Rec_def REC_FMT_def REC_MAGIC_def le_nat_zeros)
  then have "iter_records (replicate 64 0) = Some ([], GRaise (ValueError 0))"
    by (simp add: iter_records_def iter_from_bad REC_SIZE_def)
  then have "drain no_fallocate (\<lambda>_. 0) (\<lambda>_. Data (replicate 64 0)) 30 0 [] sample_daemon = Some (Inl (ValueError 0))"
    by (subst drain.simps) (simp add: consume_def)
  then have run: "mark_consistent no_fallocate (FreezeExit 0) (\<lambda>_. 0) (\<lambda>_. Data (replicate 64 0)) 0 1 sample_daemon =
      Some (Inl (ValueError 0), [Freeze, Thaw])"
    by (simp add: mark_consistent_def paused_def recovery_active_def sample_daemon_def sample_dir_def)
  with mark_consistent_thaws [OF run] show ?thesis by blast
qed

text \<open>
  (C33) What a consistent point stands for: with the file system frozen, the ring read out
  before the deadline in pieces that hold the records \<open>es\<close>, and no gap among them, the point is
  recorded in memory and on disk with the sequence number of the last record, and the replica
  has all of \<open>es\<close> applied in order.
\<close>

theorem mark_consistent_point:
  assumes "punches_holes fa" and "wf_daemon d" and "d_copying d = None" and "\<not> paused d"
    and "\<not> recovery_active d" and "d_base_progress d = None" and "d_recovery_queue d = []"
    and "reads_out clock rd (t0 + d_freeze_cap_sec d) 0 ds"
    and "iter_records (concat ds) = Some (es, GReturn j)" and "inside es" and "list_all (fits (d_size d)) es"
    and "new_gaps (d_gap_seen d) es = []"
  shows "\<exists>d' c. mark_consistent fa (FreezeExit 0) clock rd t0 t1 d = Some (Inr d', [Freeze, Thaw]) \<and> wf_daemon d' \<and>
    mf_consistent (d_manifest d') = Some c \<and> cs_seq c = (if es = [] then d_last_seq d else Some (r_seq (fst (last es)))) \<and>
    nd_manifest (d_dir d') = Some (d_manifest d') \<and> d_image d' = fold entry_effect es (d_image d)"
proof -
  obtain d1 where d1: "drain fa clock rd (t0 + d_freeze_cap_sec d) 0 [] d = Some (Inr d1)" "consumed es d d1"
    using drain_all [OF assms(1,8) _ assms(10) iter_records_Nil assms(2-4,11)] assms(9) by auto
  then have "d_recovery_queue d1 = []" "\<not> recovery_active d1" "wf_daemon d1"
    using assms(5,7,12) by (simp_all add: consumed_def same_settings_def recovery_active_def)
  with d1 assms(4-6) show ?thesis
    by (simp add: mark_consistent_def set_manifest_def consumed_def wf_daemon_def)
qed

theorem mark_consistent_point_witness:
  "\<exists>d' c. mark_consistent no_fallocate (FreezeExit 0) (\<lambda>_. 0) (\<lambda>k. if k = 0 then Data sample_bytes else WouldBlock) 0 1
        sample_daemon = Some (Inr d', [Freeze, Thaw]) \<and> wf_daemon d' \<and>
    mf_consistent (d_manifest d') = Some c \<and>
    cs_seq c = (if [(sample_rec, [7, 9 :: byte])] = [] then d_last_seq sample_daemon
      else Some (r_seq (fst (last [(sample_rec, [7, 9 :: byte])])))) \<and>
    nd_manifest (d_dir d') = Some (d_manifest d') \<and>
    d_image d' = fold entry_effect [(sample_rec, [7, 9])] (d_image sample_daemon)"
proof (rule mark_consistent_point [OF sample_rp_ok(1) sample_daemon_ok(1-3), where ds = "[sample_bytes]" and j = 64])
  show "reads_out (\<lambda>_. 0) (\<lambda>k. if k = 0 then Data sample_bytes else WouldBlock)
      (0 + d_freeze_cap_sec sample_daemon) 0 [sample_bytes]"
    by (simp add: reads_out_Cons reads_out_Nil sample_daemon_def sample_bytes_def)
  show "new_gaps (d_gap_seen sample_daemon) [(sample_rec, [7, 9])] = []" by (simp add: sample_rec_def)
qed (use sample_iter sample_daemon_ok(4,5) in \<open>simp_all add: recovery_active_def sample_daemon_def\<close>)

text \<open>
  (C35) The freeze is bounded: once the clock passes the cap at its \<open>n\<close>-th reading,
  \<^verbatim>\<open>mark_consistent\<close> comes back, by a return or by an exception, however fast the ring fills,
  provided that none of the bytes read out by then puts a header of record length 0 where a
  header is read.
\<close>

theorem mark_consistent_returns:
  assumes "t0 + d_freeze_cap_sec d \<le> clock n"
    and "\<forall>k \<le> n. iter_records (drained rd k) \<noteq> None"
  shows "\<exists>r tr. mark_consistent fa frz clock rd t0 t1 d = Some (r, tr) \<and> r \<noteq> Inl Diverges"
proof -
  obtain r where "drain fa clock rd (t0 + d_freeze_cap_sec d) 0 [] d = Some r" "r \<noteq> Inl Diverges"
    using drain_ends [of "t0 + d_freeze_cap_sec d" clock 0 n rd 0 fa d] assms visited_start
    by (auto simp: drained_def)
  then show ?thesis
    unfolding mark_consistent_def by (auto split: freeze_result.splits sum.splits if_splits)
qed

lemma drained_sample: "iter_records (drained (\<lambda>_. Data sample_bytes) k) \<noteq> None"
proof -
  have "drained (\<lambda>_. Data sample_bytes) k = concat (replicate k sample_bytes)"
    by (simp add: drained_def map_replicate_const)
  moreover have "list_all2 packed (replicate k (sample_rec, [7, 9])) (replicate k sample_bytes)"
      "list_all wf_entry (replicate k (sample_rec, [7, 9]))"
    by (simp_all add: list_all2_conv_all_nth sample_packed sample_wf list_all_iff)
  ultimately show ?thesis
    using iter_from_stream [of "replicate k (sample_rec, [7, 9])" "replicate k sample_bytes" "[]" "[]"]
      iter_records_any_fuel by (fastforce simp: incomplete_def REC_SIZE_def)
qed

theorem mark_consistent_returns_witness:
  "\<exists>r tr. mark_consistent no_fallocate (FreezeExit 0) (\<lambda>k. of_nat k) (\<lambda>_. Data sample_bytes) 0 1 sample_daemon =
    Some (r, tr) \<and> r \<noteq> Inl Diverges"
  by (rule mark_consistent_returns [of _ _ _ 30]) (simp_all add: sample_daemon_def drained_sample)

text \<open>
  The cap does not bound a hung \<^verbatim>\<open>consume\<close>: when the first read returns bytes with a header of
  record length 0, the call never comes back, with the file system frozen, whatever the clock
  says afterwards.
\<close>

theorem mark_consistent_hangs:
  assumes "\<not> paused d" and "\<not> recovery_active d" and "d_base_progress d = None"
    and "clock 0 < t0 + d_freeze_cap_sec d" and "rd 0 = Data b" and "iter_records b = None"
  shows "mark_consistent fa (FreezeExit 0) clock rd t0 t1 d = None"
proof -
  have "b \<noteq> []" using assms(6) iter_records_Nil by auto
  with assms(4-6) have "drain fa clock rd (t0 + d_freeze_cap_sec d) 0 [] d = None"
    by (subst drain.simps) (simp add: consume_def)
  with assms(1-3) show ?thesis by (simp add: mark_consistent_def)
qed

text \<open>
  A point is recorded although the ring was not drained: when the deadline has passed
  before the first read (the freeze itself took that long), nothing is read, and the sequence
  number reached before the freeze is recorded as consistent, whatever the ring holds.
\<close>

theorem mark_consistent_undrained:
  assumes "t0 + d_freeze_cap_sec d \<le> clock 0"
    and "\<not> paused d" and "\<not> recovery_active d" and "d_base_progress d = None" and "d_recovery_queue d = []"
  shows "\<exists>d' c. mark_consistent fa (FreezeExit 0) clock rd t0 t1 d = Some (Inr d', [Freeze, Thaw]) \<and>
    mf_consistent (d_manifest d') = Some c \<and> cs_seq c = d_last_seq d \<and> d_replica d' = d_replica d"
proof -
  have "drain fa clock rd (t0 + d_freeze_cap_sec d) 0 [] d = Some (Inr d)"
    using assms(1) by (subst drain.simps) simp
  with assms(2-5) show ?thesis by (simp add: mark_consistent_def set_manifest_def)
qed

theorem mark_consistent_undrained_witness:
  "\<exists>d' c. mark_consistent no_fallocate (FreezeExit 0) (\<lambda>_. 30) (\<lambda>_. Data sample_bytes) 0 31 sample_daemon =
      Some (Inr d', [Freeze, Thaw]) \<and>
    mf_consistent (d_manifest d') = Some c \<and> cs_seq c = d_last_seq sample_daemon \<and>
    d_replica d' = d_replica sample_daemon"
  by (rule mark_consistent_undrained)
    (simp_all add: sample_daemon_def recovery_active_def paused_def sample_dir_def)

subsection \<open>Properties of the status\<close>

text \<open>The order in which the states take precedence.\<close>

fun state_rank :: "node_state \<Rightarrow> nat" where
  "state_rank WAITING = 0"
| "state_rank SYNCING = 1"
| "state_rank RECOVERING = 2"
| "state_rank PAUSED = 3"
| "state_rank BITMAP = 4"
| "state_rank CDP = 5"

lemma state_rank_inj: "state_rank a = state_rank b \<longleftrightarrow> a = b"
  by (cases a; cases b) simp_all

instantiation node_state :: linorder
begin

definition less_eq_node_state :: "node_state \<Rightarrow> node_state \<Rightarrow> bool" where
  "less_eq_node_state a b \<longleftrightarrow> state_rank a \<le> state_rank b"

definition less_node_state :: "node_state \<Rightarrow> node_state \<Rightarrow> bool" where
  "less_node_state a b \<longleftrightarrow> state_rank a < state_rank b"

instance
  by standard (auto simp: less_eq_node_state_def less_node_state_def state_rank_inj)

end

text \<open>The conditions that hold at one moment.\<close>

definition state_holds :: "cdp_status \<Rightarrow> daemon \<Rightarrow> node_state \<Rightarrow> bool" where
  "state_holds st d s =
     (case s of
        WAITING \<Rightarrow> d_seed_required d
      | SYNCING \<Rightarrow> d_base_progress d \<noteq> None
      | RECOVERING \<Rightarrow> recovery_active d \<or> d_recovery_queue d \<noteq> []
      | PAUSED \<Rightarrow> paused d
      | BITMAP \<Rightarrow> s_flags st AND S_OVERFLOWED \<noteq> 0
      | CDP \<Rightarrow> True)"

text \<open>
  The state in \<^verbatim>\<open>status.json\<close> is the least, in the order of precedence, of the states
  whose condition holds. So \<^verbatim>\<open>CDP\<close> is shown only when no seed is awaited, no base copy or
  recovery runs or is queued, no rebuild holds the lock and the ring has not overflowed.
\<close>

theorem write_status_state:
  assumes "status st_buf = Inr st"
  shows "\<exists>j. write_status st_buf node now d = Inr j \<and> state_holds st d (sj_state j) \<and>
    (\<forall>s. state_holds st d s \<longrightarrow> sj_state j \<le> s)"
proof -
  have "state_holds st d (daemon_state st d)" by (simp add: state_holds_def daemon_state_def paused_def)
  moreover have "daemon_state st d \<le> s" if "state_holds st d s" for s
    using that by (cases s) (auto simp: state_holds_def daemon_state_def paused_def less_eq_node_state_def)
  ultimately show ?thesis using assms by (simp add: write_status_def)
qed

theorem write_status_state_witness:
  "\<exists>j. write_status sample_status_bytes ''n1'' 7 sample_daemon = Inr j \<and>
    state_holds sample_status sample_daemon (sj_state j) \<and>
    (\<forall>s. state_holds sample_status sample_daemon s \<longrightarrow> sj_state j \<le> s)"
  by (rule write_status_state [OF sample_status_read])

subsection \<open>Properties of the main loop\<close>

text \<open>The seed file, if there is one, is a file of the size of the device.\<close>

definition seed_raw_ok :: "nat \<Rightarrow> node_dir \<Rightarrow> bool" where
  "seed_raw_ok sz dir \<longleftrightarrow> (case nd_seed_raw dir of None \<Rightarrow> True
     | Some f \<Rightarrow> wf_file f \<and> f_size f = sz \<and> f_blk f dvd SEED_CHUNK)"

lemma check_seed_same_boot:
  assumes "wf_daemon d" "nd_manifest (d_dir d) = Some m" "mf_seeded m = Some seed"
    and "sd_boot_id seed = Some b" "d_boot_id d = Some b" "seed_raw_ok (d_size d) (d_dir d)"
  shows "\<exists>d'. check_seed now d = Inr d' \<and> wf_daemon d' \<and> d_size d' = d_size d \<and> d_image d' = d_image d \<and>
    d_copying d' = d_copying d \<and> d_recovery d' = d_recovery d \<and> d_base_progress d' = d_base_progress d \<and>
    \<not> d_seed_required d' \<and> d_recovery_queue d' = d_recovery_queue d @ [-1] \<and>
    mf_base_end_seq (d_manifest d') = Some 0 \<and> nd_manifest (d_dir d') = Some (d_manifest d')"
proof -
  have "\<exists>rp. (case (rp_seed (d_replica d), nd_seed_raw (d_dir d)) of
                (None, Some f) \<Rightarrow> bind_result (SeedLayer f (d_size d)) (\<lambda>s. Inr ((d_replica d)\<lparr>rp_seed := Some s\<rparr>))
              | _ \<Rightarrow> Inr (d_replica d)) = Inr rp \<and> wf_replica (d_size d) rp \<and> rp_file rp = rp_file (d_replica d)"
  proof (cases "rp_seed (d_replica d) = None \<and> nd_seed_raw (d_dir d) \<noteq> None")
    case True
    then obtain f where f: "nd_seed_raw (d_dir d) = Some f" "rp_seed (d_replica d) = None" by auto
    then have "f_size f = d_size d" "wf_file f" "f_blk f dvd SEED_CHUNK"
      using assms(6) by (simp_all add: seed_raw_ok_def)
    from SeedLayer_restart [OF this] obtain s where "SeedLayer f (d_size d) = Inr s" "wf_seed s" "sl_size s = d_size d"
      by blast
    with f assms(1) show ?thesis by (simp add: wf_daemon_def wf_replica_def)
  next
    case False
    with assms(1) show ?thesis by (auto simp: wf_daemon_def split: option.splits)
  qed
  with assms(2-5) show ?thesis
    by (auto simp: check_seed_def set_manifest_def Let_def wf_daemon_def)
qed

text \<open>
  Adopting a seed makes the replica current: when the seed is from this boot and every
  byte in which the replica differs from the disk has its bit set in the kernel bitmap, then
  adopting the seed, the recovery that the next step of the loop starts and running it to the
  end leave a replica that equals the disk, with the base recorded and no base copy.
\<close>

lemma seed_adopted_replica_current:
  assumes "wf_daemon d" and "d_size d = dsz" and "d_copying d = None" and "d_seed_required d"
    and "\<not> recovery_active d" and "d_base_progress d = None" and "d_recovery_queue d = []"
    and "nd_manifest (d_dir d) = Some m" and "mf_seeded m = Some seed"
    and "sd_boot_id seed = Some b" and "d_boot_id d = Some b" and "seed_raw_ok dsz (d_dir d)"
    and "read_bitmap st_buf ioctl_bitmap True = Inr (bm, chunk, nbits)"
    and "nbits \<le> 8 * length bm" and "0 < chunk"
    and "\<forall>x < dsz. d_image d x \<noteq> dev x \<longrightarrow> x div 512 div chunk < nbits \<and> bit_at bm (x div 512 div chunk)"
  shows "\<exists>d1 d2 rec d3. iter_seed now d = Inr d1 \<and> mf_base_end_seq (d_manifest d1) = Some 0 \<and> \<not> d_seed_required d1 \<and>
    iter_recovery st_buf ioctl_bitmap now d1 = Inr d2 \<and> d_recovery d2 = Some rec \<and>
    recover fa dev dsz (\<lambda>_. False) rec d2 = Inr d3 \<and> nd_recovery (d_dir d3) = None \<and>
    (\<forall>x < dsz. d_image d3 x = dev x)"
proof -
  obtain d1 where d1: "check_seed now d = Inr d1" "wf_daemon d1" "d_size d1 = dsz" "d_image d1 = d_image d"
      "d_copying d1 = None" "d_recovery d1 = None" "d_base_progress d1 = None" "\<not> d_seed_required d1"
      "d_recovery_queue d1 = [-1]" "mf_base_end_seq (d_manifest d1) = Some 0"
    using check_seed_same_boot [OF assms(1,8-11), of now] assms(2-7,12) by (auto simp: recovery_active_def)
  let ?e = "d1\<lparr>d_recovery_queue := []\<rparr>"
  have "wf_daemon ?e" "d_size ?e = dsz" "d_copying ?e = None" using d1 by (simp_all add: wf_daemon_def)
  from recovery_image [OF this assms(13-15), of "-1" now fa dev] obtain d2 rec d3 where
    r: "start_recovery st_buf ioctl_bitmap (-1) now ?e = Inr d2" "d_recovery d2 = Some rec"
      "recover fa dev dsz (\<lambda>_. False) rec d2 = Inr d3" "nd_recovery (d_dir d3) = None"
      "\<forall>x < dsz. d_image d3 x = (if x div 512 div chunk < nbits \<and> bit_at bm (x div 512 div chunk)
        then dev x else d_image ?e x)" by blast
  have "\<forall>x < dsz. d_image d3 x = dev x" using r(5) d1(4) assms(16) by auto
  with d1 r assms(4) show ?thesis by (auto simp: iter_seed_def iter_recovery_def recovery_active_def)
qed

definition seeded_daemon :: daemon where
  "seeded_daemon = sample_daemon\<lparr>d_seed_required := True, d_boot_id := Some ''b'',
     d_dir := sample_dir\<lparr>nd_manifest := Some (sample_manifest\<lparr>mf_seeded := Some \<lparr>sd_boot_id = Some ''b'', sd_time = None\<rparr>\<rparr>)\<rparr>\<rparr>"

text \<open>A disk that differs from the empty replica in its last two sectors.\<close>

definition seeded_dev :: image where "seeded_dev x = (if x < 1024 then 0 else 1)"

lemma seeded_dev_dirty:
  "x < 2048 \<Longrightarrow> seeded_dev x \<noteq> 0 \<Longrightarrow> x div 512 div 2 < 2 \<and> bit_at [2] (x div 512 div 2)"
proof -
  assume "x < 2048" "seeded_dev x \<noteq> 0"
  then have "x div 1024 = 1" by (auto simp: seeded_dev_def split: if_splits)
  then show ?thesis by (simp add: div_mult2_eq [symmetric] bit_at_def bm_bit_def)
qed

text \<open>
  A queued recovery starts only when no recovery runs and no base copy is in progress; it
  is the one for the oldest gap, its extents are on disk before the thread has them, and only
  that gap leaves the queue. Otherwise this step of the loop changes nothing.
\<close>

theorem recovery_gate:
  assumes "iter_recovery st_buf ioctl_bitmap now d = Inr d'" and "d_recovery_queue d' \<noteq> d_recovery_queue d"
  shows "\<not> recovery_active d \<and> d_base_progress d = None \<and>
    (\<exists>rec. d_recovery_queue d = rc_gap_seq rec # d_recovery_queue d' \<and>
      d_recovery d' = Some rec \<and> nd_recovery (d_dir d') = Some rec)"
proof (cases "d_recovery_queue d")
  case Nil
  with assms show ?thesis by (simp add: iter_recovery_def)
next
  case (Cons g gs)
  with assms have "\<not> recovery_active d" "d_base_progress d = None"
      "start_recovery st_buf ioctl_bitmap g now (d\<lparr>d_recovery_queue := gs\<rparr>) = Inr d'"
    by (auto simp: iter_recovery_def split: if_splits)
  with Cons show ?thesis by (auto simp: start_recovery_def bind_result_Inr_iff Let_def)
qed

lemma sample_recovery_started:
  "\<exists>d'. iter_recovery sample_status_bytes sample_ioctl 7 (sample_daemon\<lparr>d_recovery_queue := [5, 6]\<rparr>) = Inr d' \<and>
    d_recovery_queue d' = [6]"
proof -
  obtain es where "bitmap_extents [2] 2 2 = Inr es" using extents_of_bits [of 2 "[2]" 2] by auto
  then show ?thesis
    by (simp add: iter_recovery_def start_recovery_def sample_bitmap_read recovery_active_def sample_daemon_def Let_def)
qed

theorem recovery_gate_witness:
  "\<exists>d'. iter_recovery sample_status_bytes sample_ioctl 7 (sample_daemon\<lparr>d_recovery_queue := [5, 6]\<rparr>) = Inr d' \<and>
    \<not> recovery_active (sample_daemon\<lparr>d_recovery_queue := [5, 6]\<rparr>) \<and>
    d_base_progress (sample_daemon\<lparr>d_recovery_queue := [5, 6]\<rparr>) = None \<and>
    (\<exists>rec. d_recovery_queue (sample_daemon\<lparr>d_recovery_queue := [5, 6]\<rparr>) = rc_gap_seq rec # d_recovery_queue d' \<and>
      d_recovery d' = Some rec \<and> nd_recovery (d_dir d') = Some rec)"
proof -
  obtain d' where d': "iter_recovery sample_status_bytes sample_ioctl 7 (sample_daemon\<lparr>d_recovery_queue := [5, 6]\<rparr>) = Inr d'"
      "d_recovery_queue d' = [6]" using sample_recovery_started by blast
  with recovery_gate [OF d'(1)] show ?thesis by simp
qed

text \<open>
  The gate does not cover the start: a daemon that finds an interrupted recovery and no
  recorded base starts both copy threads at once, although they share the one flag that says
  which chunk is in flight.
\<close>

theorem main_start_runs_both:
  assumes "nd_recovery (d_dir d) = Some prev" and "mf_base_end_seq (d_manifest d) = None" and "\<not> d_seed_required d"
  shows "d_recovery (ms_daemon (main_start now d)) = Some prev \<and> d_base_running (ms_daemon (main_start now d))"
  using assms by (simp add: main_start_def Let_def)

theorem main_start_runs_both_witness:
  "d_recovery (ms_daemon (main_start 7 (sample_daemon\<lparr>d_dir := sample_dir\<lparr>nd_recovery :=
      Some \<lparr>rc_gap_seq = 5, rc_extents = [(0, 2)], rc_started = 1\<rparr>\<rparr>\<rparr>))) =
    Some \<lparr>rc_gap_seq = 5, rc_extents = [(0, 2)], rc_started = 1\<rparr> \<and>
   d_base_running (ms_daemon (main_start 7 (sample_daemon\<lparr>d_dir := sample_dir\<lparr>nd_recovery :=
      Some \<lparr>rc_gap_seq = 5, rc_extents = [(0, 2)], rc_started = 1\<rparr>\<rparr>\<rparr>)))"
  by (rule main_start_runs_both) (simp_all add: sample_daemon_def sample_manifest_def)

text \<open>
  The turn of the loop after a rebuild applies the parked records last: with the lock gone,
  records \<open>old\<close> in \<^verbatim>\<open>pending.bin\<close> and newer records \<open>new\<close> just read from the ring, the new ones
  are applied before the old ones, so that every byte a parked record touches is set back to
  what the parked records say.
\<close>

theorem main_iter_applies_parked_last:
  assumes "punches_holes fa" and "wf_daemon d" and "d_copying d = None" and "\<not> paused d" and "\<not> d_seed_required d"
    and "d_recovery_queue d = []" and "d_last_consistent d = e_now env"
    and "0 < d_consistent_sec d"
    and "nd_pending (d_dir d) = Some content" and "iter_records content = Some (old, GReturn k)" and "inside old"
    and "iter_records data = Some (new, GReturn j)" and "data \<noteq> []" and "new_gaps (d_gap_seen d) new = []"
    and "list_all (fits (d_size d)) (old @ new)"
    and "e_read env = Data data" and "e_tools env = id" and "e_tools2 env = id" and "e_now env - n \<le> 3600"
  shows "\<exists>ms'. main_iter fa env \<lparr>ms_daemon = d, ms_pending = [], ms_last_cycle = c, ms_last_node = n, ms_node = nj, ms_trace = tr\<rparr> = Inr ms' \<and>
    d_image (ms_daemon ms') = fold entry_effect old (fold entry_effect new (d_image d)) \<and>
    (\<forall>x. (\<exists>e \<in> set old. entry_touches e x) \<longrightarrow>
      d_image (ms_daemon ms') x = fold entry_effect old (d_image d) x)"
proof -
  obtain d1 where d1: "consume fa data d = Inr (drop j data, d1)" "consumed new d d1"
    using consume_running [OF assms(1-4,12)] assms(15) by auto
  then have s1: "wf_daemon d1" "d_copying d1 = None" "\<not> paused d1" "\<not> d_seed_required d1" "d_recovery_queue d1 = []"
      "nd_pending (d_dir d1) = Some content" "d_size d1 = d_size d" "d_image d1 = fold entry_effect new (d_image d)"
      "d_last_consistent d1 = e_now env" "0 < d_consistent_sec d1"
    using assms by (simp_all add: consumed_def same_settings_def paused_def)
  have "list_all (fits (d_size d1)) old" using assms(15) s1(7) by simp
  from apply_all_idle [OF assms(1) s1(1,2) this] obtain d2 where
    d2: "fold_result (apply_one fa) old d1 = Inr d2" "same_control d1 d2"
      "d_image d2 = fold entry_effect old (d_image d1)" by blast
  have p: "iter_pending fa d1 = Inr (d2\<lparr>d_dir := (d_dir d2)\<lparr>nd_pending := None\<rparr>\<rparr>)"
    using apply_pending_fold [OF s1(6) assms(10,11), of fa] d2(1) s1(3,6) by (simp add: iter_pending_def)
  have c: "\<not> d_consistent_sec d2 \<le> e_now env - d_last_consistent d2"
    using d2(2) s1(9,10) by (simp add: same_control_def same_settings_def)
  have run: "\<exists>ms'. main_iter fa env \<lparr>ms_daemon = d, ms_pending = [], ms_last_cycle = c, ms_last_node = n, ms_node = nj, ms_trace = tr\<rparr> =
      Inr ms' \<and> d_image (ms_daemon ms') = d_image d2"
    using assms(13,16-19) d1(1) s1(4,5) p c
    by (simp add: main_iter_def iter_node_def tools_def iter_consume_def iter_seed_def iter_recovery_def iter_consistent_def Let_def)
  have "fold entry_effect old (d_image d1) x = fold entry_effect old (d_image d) x"
    if "\<exists>e \<in> set old. entry_touches e x" for x
    using that fold_effect_touched [of old x] by blast
  with run d2(3) s1(8) show ?thesis by auto
qed

text \<open>A record that is older than the sample record and writes the same two bytes.\<close>

definition old_rec :: cdp_rec where "old_rec = sample_rec\<lparr>r_seq := 4\<rparr>"

definition old_bytes :: bytes where "old_bytes = sample_bytes[16 := 4, 56 := 1, 57 := 2]"

lemma old_iter: "iter_records old_bytes = Some ([(old_rec, [1, 2])], GReturn 64)"
proof (rule iter_records_any_fuel)
  have "replicate 6 (0 :: byte) = [0, 0, 0, 0, 0, 0]" by (simp add: numeral_eq_Suc)
  then have "wf_entry (old_rec, [1, 2])" "packed (old_rec, [1, 2]) old_bytes"
    by (simp_all add: wf_entry_def packed_def pack_rec_def old_rec_def old_bytes_def sample_rec_def sample_bytes_def
      REC_FMT_def REC_MAGIC_def ABI_VERSION_def REC_WRITE_def REC_SIZE_def aligned_len_eq le_bytes_2 le_bytes_4 le_bytes_8)
  then have "iter_from 1 old_bytes 0 = Some ([(old_rec, [1, 2])], GReturn (length old_bytes))"
    using iter_from_stream [of "[(old_rec, [1, 2])]" "[old_bytes]" "[]" "[]"] by (simp add: incomplete_def REC_SIZE_def)
  then show "iter_from 1 old_bytes 0 = Some ([(old_rec, [1, 2])], GReturn 64)"
    by (simp add: old_bytes_def sample_bytes_def)
qed

definition unlocked_daemon :: daemon where
  "unlocked_daemon = sample_daemon\<lparr>d_dir := sample_dir\<lparr>nd_pending := Some old_bytes\<rparr>, d_last_consistent := 100\<rparr>"

definition sample_env :: iter_env where
  "sample_env = \<lparr>e_read = Data sample_bytes, e_tools = id, e_tools2 = id, e_st_buf = sample_status_bytes,
     e_ioctl = sample_ioctl, e_now = 100, e_t0 = 100, e_freeze = FreezeExit 0, e_clock = (\<lambda>k. 100 + of_nat k),
     e_drain = (\<lambda>_. WouldBlock), e_thawed = 101,
     e_node = \<lparr>ne_hostname = ''n'', ne_device = ''/dev/sda'', ne_cpus = 2, ne_nets = [], ne_meminfo = [''MemTotal: 2048 kB''],
       ne_hostname_I = [], ne_efi = False\<rparr>\<rparr>"

theorem main_iter_applies_parked_last_witness:
  "\<exists>ms'. main_iter no_fallocate sample_env
      \<lparr>ms_daemon = unlocked_daemon, ms_pending = [], ms_last_cycle = 99, ms_last_node = 99, ms_node = None, ms_trace = []\<rparr> = Inr ms' \<and>
    d_image (ms_daemon ms') = fold entry_effect [(old_rec, [1, 2])]
      (fold entry_effect [(sample_rec, [7, 9])] (d_image unlocked_daemon)) \<and>
    (\<forall>x. (\<exists>e \<in> set [(old_rec, [1, 2])]. entry_touches e x) \<longrightarrow>
      d_image (ms_daemon ms') x = fold entry_effect [(old_rec, [1, 2])] (d_image unlocked_daemon) x)"
  by (rule main_iter_applies_parked_last [OF sample_rp_ok(1) _ _ _ _ _ _ _ _ old_iter _ sample_iter])
    (use sample_daemon_ok(1,3) sample_fits in \<open>simp_all add: unlocked_daemon_def sample_env_def sample_daemon_def
      sample_dir_def wf_daemon_def paused_def inside_def fits_def old_rec_def sample_rec_def REC_SIZE_def REC_WRITE_def
      sample_bytes_def RW_MAX_def\<close>)

end
