(* ===== verification/Copy_Protocol.thy ===== *)
theory Copy_Protocol
  imports Main_Loop
begin

text \<open>
  The copy protocol of \<^verbatim>\<open>rkcdp/rkcdpd.py\<close> under interleaving: the copy thread inside
  \<^verbatim>\<open>copy_chunk\<close> (as \<^verbatim>\<open>recover\<close> calls it, without skipping zeros), the main thread in
  \<^verbatim>\<open>apply_one\<close>, and the system writing to the disk.

  A step is what one thread does while the others cannot interfere: a section under
  \<^verbatim>\<open>self.lock\<close>, a part of the read of the device (the read of a chunk is not atomic, it may
  see writes that happen meanwhile), the write of the chunk into the replica, which no record
  can touch while the range is flagged. The kernel hands a record out once the disk has
  acknowledged the write, so a write to the disk appends its record to the ring.

  A \<open>guard\<close> on the apply step says when the main thread may take the next record. The code has
  none (\<open>code_guard\<close>). With \<open>strict_guard\<close>, under which the late records are applied without a
  break and a deferred record lies inside the chunk, the replica converges to the disk; two
  runs show that the code loses an update without either half of it.
\<close>

subsection \<open>States and steps\<close>

datatype pc =
    Idle
  | Reading nat nat bytes        \<comment> \<open>the flagged range and what was read so far\<close>
  | Landed nat nat
  | Applying "entry list"        \<comment> \<open>the rest of \<^verbatim>\<open>late\<close>\<close>

record proto =
  p_dev :: image
  p_ring :: "entry list"
  p_pc :: pc
  p_daemon :: daemon
  p_synced :: "nat set"          \<comment> \<open>the bytes that have been copied\<close>

definition entry_ok :: "nat \<Rightarrow> entry \<Rightarrow> bool" where
  "entry_ok sz e \<longleftrightarrow> fits sz e \<and> (r_type (fst e) = REC_WRITE \<longrightarrow> length (snd e) = r_len (fst e))"

inductive proto_step :: "(pc \<Rightarrow> entry \<Rightarrow> bool) \<Rightarrow> fallocate_call \<Rightarrow> proto \<Rightarrow> proto \<Rightarrow> bool"
  for guard fa where
  dev_write: "entry_ok (d_size (p_daemon s)) e \<Longrightarrow>
    proto_step guard fa s (s\<lparr>p_dev := entry_effect e (p_dev s), p_ring := p_ring s @ [e]\<rparr>)"
| apply_rec: "p_ring s = e # es \<Longrightarrow> guard (p_pc s) e \<Longrightarrow> apply_one fa e (p_daemon s) = Inr d \<Longrightarrow>
    proto_step guard fa s (s\<lparr>p_ring := es, p_daemon := d\<rparr>)"
| flag_range: "p_pc s = Idle \<Longrightarrow> n \<le> COPY_CHUNK \<Longrightarrow> off + n \<le> d_size (p_daemon s) \<Longrightarrow>
    proto_step guard fa s (s\<lparr>p_pc := Reading off n [], p_daemon := copy_flag off n (p_daemon s)\<rparr>)"
| read_dev: "p_pc s = Reading off n buf \<Longrightarrow> length buf + m \<le> n \<Longrightarrow>
    proto_step guard fa s (s\<lparr>p_pc := Reading off n (buf @ img_slice (p_dev s) (off + length buf) m)\<rparr>)"
| land: "p_pc s = Reading off n buf \<Longrightarrow> length buf = n \<Longrightarrow> copy_land buf off None (p_daemon s) = Inr d \<Longrightarrow>
    proto_step guard fa s (s\<lparr>p_pc := Landed off n, p_daemon := d, p_synced := p_synced s \<union> {off..<off + n}\<rparr>)"
| unflag: "p_pc s = Landed off n \<Longrightarrow> copy_unflag (p_daemon s) = (late, d) \<Longrightarrow>
    proto_step guard fa s (s\<lparr>p_pc := Applying late, p_daemon := d\<rparr>)"
| apply_late: "p_pc s = Applying (e # es) \<Longrightarrow> apply_one fa e (p_daemon s) = Inr d \<Longrightarrow>
    proto_step guard fa s (s\<lparr>p_pc := Applying es, p_daemon := d\<rparr>)"
| finish: "p_pc s = Applying [] \<Longrightarrow> proto_step guard fa s (s\<lparr>p_pc := Idle\<rparr>)"

inductive_cases proto_stepE: "proto_step guard fa s s'"

definition code_guard :: "pc \<Rightarrow> entry \<Rightarrow> bool" where
  "code_guard pc e = True"

definition lies_in :: "nat \<Rightarrow> nat \<Rightarrow> entry \<Rightarrow> bool" where
  "lies_in off n e \<longleftrightarrow> off \<le> r_sector (fst e) * 512 \<and> r_sector (fst e) * 512 + r_len (fst e) \<le> off + n"

definition overlaps :: "nat \<Rightarrow> nat \<Rightarrow> entry \<Rightarrow> bool" where
  "overlaps off n e \<longleftrightarrow> r_sector (fst e) * 512 < off + n \<and> off < r_sector (fst e) * 512 + r_len (fst e)"

definition strict_guard :: "pc \<Rightarrow> entry \<Rightarrow> bool" where
  "strict_guard pc e =
     (case pc of
        Idle \<Rightarrow> True
      | Reading off n buf \<Rightarrow> overlaps off n e \<longrightarrow> lies_in off n e
      | Landed off n \<Rightarrow> overlaps off n e \<longrightarrow> lies_in off n e
      | Applying es \<Rightarrow> False)"

subsection \<open>Invariants of a step relation\<close>

locale step_invariant =
  fixes step :: "'s \<Rightarrow> 's \<Rightarrow> bool" and inv :: "'s \<Rightarrow> bool"
  assumes preserved: "inv s \<Longrightarrow> step s s' \<Longrightarrow> inv s'"
begin

lemma reachable_inv: "step\<^sup>*\<^sup>* s s' \<Longrightarrow> inv s \<Longrightarrow> inv s'"
  by (induction rule: rtranclp_induct) (auto intro: preserved)

end

subsection \<open>Outstanding records\<close>

definition untouched :: "entry list \<Rightarrow> nat \<Rightarrow> bool" where
  "untouched es x \<longleftrightarrow> (\<forall>e \<in> set es. \<not> entry_touches e x)"

text \<open>The records decide every byte they touch, and they decide it as the disk has it.\<close>

definition settles :: "entry list \<Rightarrow> image \<Rightarrow> bool" where
  "settles es dev \<longleftrightarrow> (\<forall>x m. \<not> untouched es x \<longrightarrow> fold entry_effect es m x = dev x)"

lemma untouched_simps [simp]:
  "untouched [] x" "untouched (e # es) x \<longleftrightarrow> \<not> entry_touches e x \<and> untouched es x"
  "untouched (as @ bs) x \<longleftrightarrow> untouched as x \<and> untouched bs x"
  by (auto simp: untouched_def)

lemma fold_untouched: "untouched es x \<Longrightarrow> fold entry_effect es m x = m x"
  by (simp add: untouched_def fold_effect_untouched)

lemma settles_Nil [simp]: "settles [] dev"
  by (simp add: settles_def)

lemma settles_write: "settles es dev \<Longrightarrow> settles (es @ [e]) (entry_effect e dev)"
proof -
  assume s: "settles es dev"
  have "entry_effect e (fold entry_effect es m) x = entry_effect e dev x" if "\<not> untouched (es @ [e]) x" for m x
    using that s entry_effect_touched [of e x "fold entry_effect es m" dev]
    by (cases "entry_touches e x") (auto simp: entry_effect_untouched settles_def)
  then show ?thesis by (simp add: settles_def)
qed

lemma settles_drop:
  assumes "settles (as @ e # bs) dev" "\<And>x. entry_touches e x \<Longrightarrow> untouched as x"
  shows "settles (as @ bs) dev"
proof -
  have "fold entry_effect bs (fold entry_effect as m) x = dev x" if t: "\<not> untouched (as @ bs) x" for m x
  proof -
    have dev: "fold entry_effect bs (entry_effect e (fold entry_effect as m)) x = dev x"
      using assms(1) t by (auto simp: settles_def)
    show ?thesis
    proof (cases "entry_touches e x")
      case False
      with dev show ?thesis
        using fold_effect_cong [of "entry_effect e (fold entry_effect as m)" x "fold entry_effect as m" bs]
        by (simp add: entry_effect_untouched)
    next
      case True
      with t assms(2) have "\<exists>b \<in> set bs. entry_touches b x" by (auto simp: untouched_def)
      with dev fold_effect_touched show ?thesis by metis
    qed
  qed
  then show ?thesis by (simp add: settles_def)
qed

lemma settles_applied:
  assumes "settles (as @ e # bs) dev" "entry_touches e x" "untouched (as @ bs) x"
  shows "entry_effect e m x = dev x"
proof -
  have "fold entry_effect bs (entry_effect e (fold entry_effect as m)) x = dev x"
    using assms by (auto simp: settles_def)
  then show ?thesis
    using assms(2,3) fold_untouched [of bs x] entry_effect_touched [of e x "fold entry_effect as m" m] by simp
qed

lemma touches_overlaps:
  assumes "entry_ok sz e" "entry_touches e x" "off \<le> x" "x < off + n"
  shows "overlaps off n e"
  using assms by (cases e) (auto simp: entry_ok_def entry_touches_def overlaps_def split: if_splits)

lemma touches_lies_in:
  assumes "entry_ok sz e" "entry_touches e x" "lies_in off n e"
  shows "off \<le> x \<and> x < off + n"
  using assms by (cases e) (auto simp: entry_ok_def entry_touches_def lies_in_def split: if_splits)

lemma in_flight_overlaps: "d_copying d = Some (off, off + n) \<Longrightarrow> in_flight d (fst e) = overlaps off n e"
  by (auto simp: in_flight_def overlaps_def)

subsection \<open>The invariant\<close>

fun pc_range :: "pc \<Rightarrow> (nat \<times> nat) option" where
  "pc_range (Reading off n buf) = Some (off, off + n)"
| "pc_range (Landed off n) = Some (off, off + n)"
| "pc_range _ = None"

definition waiting :: "pc \<Rightarrow> daemon \<Rightarrow> entry list" where
  "waiting pc d = (case pc of Idle \<Rightarrow> [] | Applying es \<Rightarrow> es | _ \<Rightarrow> d_deferred d)"

definition being_read :: "pc \<Rightarrow> nat \<Rightarrow> bool" where
  "being_read pc x = (case pc of Reading off n buf \<Rightarrow> off \<le> x \<and> x < off + n | _ \<Rightarrow> False)"

text \<open>What was read is current, but for what the outstanding records \<open>es\<close> will bring.\<close>

definition read_ok :: "image \<Rightarrow> entry list \<Rightarrow> pc \<Rightarrow> nat \<Rightarrow> bool" where
  "read_ok dev es pc sz =
     (case pc of
        Reading off n buf \<Rightarrow> length buf \<le> n \<and> off + n \<le> sz \<and> n \<le> COPY_CHUNK \<and>
          (\<forall>i < length buf. untouched es (off + i) \<longrightarrow> buf ! i = dev (off + i))
      | _ \<Rightarrow> True)"

definition synced_ok :: "image \<Rightarrow> entry list \<Rightarrow> pc \<Rightarrow> image \<Rightarrow> nat set \<Rightarrow> bool" where
  "synced_ok dev es pc img S \<longleftrightarrow>
     (\<forall>x \<in> S. \<not> being_read pc x \<longrightarrow> untouched es x \<longrightarrow> img x = dev x)"

definition deferred_inside :: "pc \<Rightarrow> entry list \<Rightarrow> bool" where
  "deferred_inside pc es \<longleftrightarrow> (case pc_range pc of None \<Rightarrow> True | Some (a, b) \<Rightarrow> list_all (lies_in a (b - a)) es)"

definition inv_parts :: "image \<Rightarrow> entry list \<Rightarrow> pc \<Rightarrow> daemon \<Rightarrow> nat set \<Rightarrow> bool" where
  "inv_parts dev es pc d S \<longleftrightarrow> wf_daemon d \<and> d_copying d = pc_range pc \<and>
     list_all (entry_ok (d_size d)) es \<and> settles es dev \<and> deferred_inside pc (d_deferred d) \<and>
     read_ok dev es pc (d_size d) \<and> synced_ok dev es pc (d_image d) S"

definition proto_inv :: "proto \<Rightarrow> bool" where
  "proto_inv s \<longleftrightarrow>
     inv_parts (p_dev s) (waiting (p_pc s) (p_daemon s) @ p_ring s) (p_pc s) (p_daemon s) (p_synced s)"

lemma inv_write:
  assumes "inv_parts dev es pc d S" "entry_ok (d_size d) e"
  shows "inv_parts (entry_effect e dev) (es @ [e]) pc d S"
proof -
  have "settles (es @ [e]) (entry_effect e dev)"
    using assms(1) settles_write [of es dev e] by (simp add: inv_parts_def)
  moreover have "entry_effect e dev x = dev x" if "untouched (es @ [e]) x" for x
    using that by (simp add: entry_effect_untouched)
  ultimately show ?thesis
    using assms unfolding inv_parts_def read_ok_def synced_ok_def by (auto split: pc.splits)
qed

text \<open>A record is applied that is not ordered after anything outstanding it touches, and outside
  the range in flight.\<close>

lemma inv_applied:
  assumes "inv_parts dev (as @ e # bs) pc d S"
    and "\<And>x. entry_touches e x \<Longrightarrow> untouched as x \<and> \<not> being_read pc x"
    and "wf_daemon d'" "same_control d d'" "d_deferred d' = d_deferred d" "d_image d' = entry_effect e (d_image d)"
  shows "inv_parts dev (as @ bs) pc d' S"
proof -
  have old: "settles (as @ e # bs) dev" "read_ok dev (as @ e # bs) pc (d_size d)"
      "synced_ok dev (as @ e # bs) pc (d_image d) S"
    using assms(1) by (simp_all add: inv_parts_def)
  have "settles (as @ bs) dev" using settles_drop [OF old(1)] assms(2) by blast
  moreover have "d_image d' x = dev x" if "x \<in> S" "\<not> being_read pc x" "untouched (as @ bs) x" for x
  proof (cases "entry_touches e x")
    case True
    then show ?thesis using settles_applied [OF old(1) True that(3)] assms(6) by simp
  next
    case False
    with that old(3) assms(6) show ?thesis by (simp add: synced_ok_def entry_effect_untouched)
  qed
  moreover have "read_ok dev (as @ bs) pc (d_size d)"
  proof (cases pc)
    case (Reading off n buf)
    have "\<not> entry_touches e (off + i)" if "i < length buf" for i
      using that assms(2) [of "off + i"] old(2) Reading by (auto simp: being_read_def read_ok_def)
    with old(2) Reading show ?thesis by (auto simp: read_ok_def)
  qed (simp_all add: read_ok_def)
  ultimately show ?thesis
    using assms(1,3,4,5) by (auto simp: inv_parts_def synced_ok_def same_control_def same_settings_def)
qed

lemma apply_one_free:
  assumes "punches_holes fa" "wf_daemon d" "fits (d_size d) e" "\<not> in_flight d (fst e)"
  shows "\<exists>d'. apply_one fa e d = Inr d' \<and> wf_daemon d' \<and> same_control d d' \<and>
    d_deferred d' = d_deferred d \<and> d_image d' = entry_effect e (d_image d)"
proof -
  obtain r p where e: "e = (r, p)" by (cases e)
  have "wf_replica (d_size d) (d_replica d)" using assms(2) by (simp add: wf_daemon_def)
  from rp_write_step [OF assms(1) this assms(3)] obtain rp where
    "rp_write fa e (d_replica d) = Inr rp" "wf_replica (d_size d) rp" "f_dat (rp_file rp) = entry_effect e (d_image d)"
    by blast
  with e assms(4) show ?thesis
    by (simp add: apply_one_def wf_daemon_def same_control_def same_settings_def)
qed

lemma inv_not_flagged:
  assumes "inv_parts dev (as @ e # bs) pc d S" "punches_holes fa" "\<not> in_flight d (fst e)"
  shows "\<exists>d'. apply_one fa e d = Inr d' \<and> wf_daemon d' \<and> same_control d d' \<and>
    d_deferred d' = d_deferred d \<and> d_image d' = entry_effect e (d_image d)"
  using assms by (intro apply_one_free) (simp_all add: inv_parts_def entry_ok_def)

text \<open>The apply step while a range is flagged.\<close>

lemma inv_apply_flagged:
  assumes inv: "inv_parts dev (d_deferred d @ e # es) pc d S" and fa: "punches_holes fa"
    and pc: "pc_range pc = Some (off, off + n)" and guard: "overlaps off n e \<longrightarrow> lies_in off n e"
    and run: "apply_one fa e d = Inr d'"
  shows "inv_parts dev (d_deferred d' @ es) pc d' S"
proof (cases "overlaps off n e")
  case True
  have cp: "d_copying d = Some (off, off + n)" using inv pc by (simp add: inv_parts_def)
  from in_flight_overlaps [OF cp, of e] True run have "d' = d\<lparr>d_deferred := d_deferred d @ [e]\<rparr>"
    by (cases e) (simp add: apply_one_def)
  with inv guard True pc show ?thesis by (simp add: inv_parts_def deferred_inside_def wf_daemon_def)
next
  case False
  have cp: "d_copying d = Some (off, off + n)" using inv pc by (simp add: inv_parts_def)
  have nf: "\<not> in_flight d (fst e)" using in_flight_overlaps [OF cp] False by simp
  from inv_not_flagged [OF inv fa nf] run have
    d': "wf_daemon d'" "same_control d d'" "d_deferred d' = d_deferred d" "d_image d' = entry_effect e (d_image d)"
    by auto
  have eok: "entry_ok (d_size d) e" and dok: "list_all (entry_ok (d_size d)) (d_deferred d)"
    and ins: "list_all (lies_in off n) (d_deferred d)"
    using inv pc by (simp_all add: inv_parts_def deferred_inside_def)
  have out: "\<not> (off \<le> x \<and> x < off + n)" if "entry_touches e x" for x
    using touches_overlaps [OF eok that, of off n] False by blast
  have "untouched (d_deferred d) x \<and> \<not> being_read pc x" if "entry_touches e x" for x
  proof
    show "untouched (d_deferred d) x"
      using out [OF that] dok ins touches_lies_in [of "d_size d" _ x off n]
      unfolding untouched_def list_all_iff by blast
    show "\<not> being_read pc x" using out [OF that] pc by (cases pc) (auto simp: being_read_def)
  qed
  from inv_applied [OF inv this d'] show ?thesis using d'(3) by simp
qed

lemma inv_read:
  assumes "inv_parts dev es (Reading off n buf) d S" "length buf + m \<le> n"
  shows "inv_parts dev es (Reading off n (buf @ img_slice dev (off + length buf) m)) d S"
proof -
  have "(buf @ img_slice dev (off + length buf) m) ! i = dev (off + i)"
    if "i < length buf + m" "untouched es (off + i)" for i
    using that assms(1) by (auto simp: inv_parts_def read_ok_def nth_append img_slice_def)
  with assms show ?thesis
    by (auto simp: inv_parts_def read_ok_def synced_ok_def being_read_def deferred_inside_def img_slice_def)
qed

lemma copy_land_step:
  assumes "wf_daemon d" "off + length buf \<le> d_size d" "length buf \<le> COPY_CHUNK"
  shows "\<exists>rp. copy_land buf off None d = Inr (d\<lparr>d_replica := rp\<rparr>) \<and> wf_replica (d_size d) rp \<and>
    f_dat (rp_file rp) = img_write (d_image d) off buf"
proof (cases "buf = []")
  case True
  with assms show ?thesis
    by (intro exI [of _ "d_replica d"]) (auto simp: copy_land_def wf_daemon_def img_write_def fun_eq_iff)
next
  case False
  have "length buf \<le> RW_MAX" using assms(3) by (simp add: COPY_CHUNK_def RW_MAX_def)
  with rp_pwrite_step [of "d_size d" "d_replica d" off buf] assms(1,2) False show ?thesis
    by (auto simp: copy_land_def wf_daemon_def)
qed

lemma inv_land:
  assumes inv: "inv_parts dev es (Reading off n buf) d S" and n: "length buf = n"
    and run: "copy_land buf off None d = Inr d'"
  shows "inv_parts dev es (Landed off n) d' (S \<union> {off..<off + n}) \<and> d_deferred d' = d_deferred d"
proof -
  have r: "off + n \<le> d_size d" "n \<le> COPY_CHUNK" "\<forall>i < n. untouched es (off + i) \<longrightarrow> buf ! i = dev (off + i)"
    using inv n by (simp_all add: inv_parts_def read_ok_def)
  have "wf_daemon d" using inv by (simp add: inv_parts_def)
  from copy_land_step [OF this, of off buf] n r(1,2) run
  have "\<exists>rp. d' = d\<lparr>d_replica := rp\<rparr> \<and> wf_replica (d_size d) rp \<and> f_dat (rp_file rp) = img_write (d_image d) off buf"
    by auto
  then obtain rp where d': "d' = d\<lparr>d_replica := rp\<rparr>" "wf_replica (d_size d) rp"
      "f_dat (rp_file rp) = img_write (d_image d) off buf" by blast
  have "d_image d' x = dev x" if "x \<in> S \<union> {off..<off + n}" "untouched es x" for x
  proof (cases "off \<le> x \<and> x < off + n")
    case True
    with r(3) that(2) n d' show ?thesis
      using spec [of _ "x - off"] by (auto simp: img_write_def dest: spec [of _ "x - off"])
  next
    case False
    with that inv d' n show ?thesis
      by (auto simp: img_write_def inv_parts_def synced_ok_def being_read_def)
  qed
  with d' inv show ?thesis
    by (simp add: inv_parts_def wf_daemon_def deferred_inside_def read_ok_def synced_ok_def)
qed

lemma proto_preserved:
  assumes fa: "punches_holes fa" and inv: "proto_inv s" and step: "proto_step strict_guard fa s s'"
  shows "proto_inv s'"
  using step
proof (cases rule: proto_step.cases)
  case (dev_write e)
  have "inv_parts (entry_effect e (p_dev s)) ((waiting (p_pc s) (p_daemon s) @ p_ring s) @ [e]) (p_pc s)
      (p_daemon s) (p_synced s)"
    using inv dev_write(2) by (intro inv_write) (simp_all add: proto_inv_def)
  with dev_write(1) show ?thesis by (simp add: proto_inv_def)
next
  case (apply_rec e es d)
  show ?thesis
  proof (cases "pc_range (p_pc s)")
    case None
    then have idle: "p_pc s = Idle" using apply_rec(3) by (cases "p_pc s") (simp_all add: strict_guard_def)
    have i: "inv_parts (p_dev s) ([] @ e # es) Idle (p_daemon s) (p_synced s)"
      using inv idle apply_rec(2) by (simp add: proto_inv_def waiting_def)
    then have "\<not> in_flight (p_daemon s) (fst e)" by (simp add: inv_parts_def in_flight_def)
    from inv_not_flagged [OF i fa this] apply_rec(4) have "wf_daemon d" "same_control (p_daemon s) d"
        "d_deferred d = d_deferred (p_daemon s)" "d_image d = entry_effect e (d_image (p_daemon s))" by auto
    from inv_applied [OF i _ this] idle apply_rec(1) show ?thesis
      by (simp add: proto_inv_def waiting_def being_read_def)
  next
    case (Some ab)
    then obtain off n where pc: "pc_range (p_pc s) = Some (off, off + n)" by (cases "p_pc s") auto
    then have w: "waiting (p_pc s) d = d_deferred d" for d by (cases "p_pc s") (auto simp: waiting_def)
    have g: "overlaps off n e \<longrightarrow> lies_in off n e"
      using pc apply_rec(3) by (cases "p_pc s") (auto simp: strict_guard_def)
    have "inv_parts (p_dev s) (d_deferred (p_daemon s) @ e # es) (p_pc s) (p_daemon s) (p_synced s)"
      using inv apply_rec(2) by (simp add: proto_inv_def w)
    from inv_apply_flagged [OF this fa pc g apply_rec(4)] apply_rec(1) show ?thesis by (simp add: proto_inv_def w)
  qed
next
  case (flag_range n off)
  with inv show ?thesis
    by (auto simp: proto_inv_def waiting_def inv_parts_def copy_flag_def wf_daemon_def deferred_inside_def
        read_ok_def synced_ok_def being_read_def)
next
  case (read_dev off n buf m)
  with inv inv_read [of "p_dev s" _ off n buf "p_daemon s" "p_synced s" m] show ?thesis
    by (simp add: proto_inv_def waiting_def)
next
  case (land off n buf d)
  with inv inv_land [of "p_dev s" _ off n buf "p_daemon s" "p_synced s" d] show ?thesis
    by (simp add: proto_inv_def waiting_def)
next
  case (unflag off n late d)
  with inv show ?thesis
    by (auto simp: proto_inv_def waiting_def inv_parts_def copy_unflag_def wf_daemon_def deferred_inside_def
        read_ok_def synced_ok_def being_read_def)
next
  case (apply_late e es d)
  have i: "inv_parts (p_dev s) ([] @ e # (es @ p_ring s)) (Applying (e # es)) (p_daemon s) (p_synced s)"
    using inv apply_late(2) by (simp add: proto_inv_def waiting_def)
  then have "\<not> in_flight (p_daemon s) (fst e)" by (simp add: inv_parts_def in_flight_def)
  from inv_not_flagged [OF i fa this] apply_late(3) have "wf_daemon d" "same_control (p_daemon s) d"
      "d_deferred d = d_deferred (p_daemon s)" "d_image d = entry_effect e (d_image (p_daemon s))" by auto
  from inv_applied [OF i _ this] apply_late(1) show ?thesis
    by (auto simp: proto_inv_def waiting_def being_read_def inv_parts_def deferred_inside_def read_ok_def synced_ok_def)
next
  case finish
  with inv show ?thesis
    by (simp add: proto_inv_def waiting_def inv_parts_def deferred_inside_def read_ok_def synced_ok_def being_read_def)
qed

interpretation pi: step_invariant "proto_step strict_guard fa" "\<lambda>s. punches_holes fa \<and> proto_inv s" for fa
  by unfold_locales (auto intro: proto_preserved)

subsection \<open>Runs\<close>

text \<open>The states from which a run starts: nothing outstanding, the bytes in \<open>S\<close> equal to the disk.\<close>

definition proto_start :: "image \<Rightarrow> daemon \<Rightarrow> nat set \<Rightarrow> proto" where
  "proto_start dev d S = \<lparr>p_dev = dev, p_ring = [], p_pc = Idle, p_daemon = d, p_synced = S\<rparr>"

lemma proto_start_inv:
  "wf_daemon d \<Longrightarrow> d_copying d = None \<Longrightarrow> \<forall>x \<in> S. d_image d x = dev x \<Longrightarrow> proto_inv (proto_start dev d S)"
  by (simp add: proto_start_def proto_inv_def waiting_def inv_parts_def deferred_inside_def read_ok_def synced_ok_def)

lemma inv_idle:
  assumes "proto_inv s" "p_pc s = Idle" "x \<in> p_synced s"
  shows "fold entry_effect (p_ring s) (d_image (p_daemon s)) x = p_dev s x"
proof (cases "untouched (p_ring s) x")
  case True
  with assms show ?thesis
    by (simp add: fold_untouched proto_inv_def inv_parts_def synced_ok_def waiting_def being_read_def)
next
  case False
  with assms show ?thesis by (simp add: proto_inv_def inv_parts_def settles_def waiting_def)
qed

text \<open>The steps on states written out.\<close>

abbreviation st :: "image \<Rightarrow> entry list \<Rightarrow> pc \<Rightarrow> daemon \<Rightarrow> nat set \<Rightarrow> proto" where
  "st dev ring pc d S \<equiv> \<lparr>p_dev = dev, p_ring = ring, p_pc = pc, p_daemon = d, p_synced = S\<rparr>"

lemma run_write:
  "entry_ok (d_size d) e \<Longrightarrow> proto_step g fa (st dev ring pc d S) (st (entry_effect e dev) (ring @ [e]) pc d S)"
  using proto_step.dev_write [of "st dev ring pc d S" e g fa] by simp

lemma run_apply:
  "apply_one fa e d = Inr d' \<Longrightarrow> proto_step code_guard fa (st dev (e # ring) pc d S) (st dev ring pc d' S)"
  using proto_step.apply_rec [of "st dev (e # ring) pc d S" e ring code_guard fa d'] by (simp add: code_guard_def)

lemma run_flag:
  "n \<le> COPY_CHUNK \<Longrightarrow> off + n \<le> d_size d \<Longrightarrow>
    proto_step g fa (st dev ring Idle d S) (st dev ring (Reading off n []) (copy_flag off n d) S)"
  using proto_step.flag_range [of "st dev ring Idle d S" n off g fa] by simp

lemma run_read:
  "proto_step g fa (st dev ring (Reading off n []) d S) (st dev ring (Reading off n (img_slice dev off n)) d S)"
  using proto_step.read_dev [of "st dev ring (Reading off n []) d S" off n "[]" n g fa] by simp

lemma run_land:
  "length buf = n \<Longrightarrow> copy_land buf off None d = Inr d' \<Longrightarrow>
    proto_step g fa (st dev ring (Reading off n buf) d S) (st dev ring (Landed off n) d' (S \<union> {off..<off + n}))"
  using proto_step.land [of "st dev ring (Reading off n buf) d S" off n buf d' g fa] by simp

lemma run_unflag:
  "proto_step g fa (st dev ring (Landed off n) d S)
    (st dev ring (Applying (d_deferred d)) (d\<lparr>d_copying := None, d_deferred := []\<rparr>) S)"
  using proto_step.unflag [of "st dev ring (Landed off n) d S" off n "d_deferred d" _ g fa] by (simp add: copy_unflag_def)

lemma run_late:
  "apply_one fa e d = Inr d' \<Longrightarrow> proto_step g fa (st dev ring (Applying (e # es)) d S) (st dev ring (Applying es) d' S)"
  using proto_step.apply_late [of "st dev ring (Applying (e # es)) d S" e es fa d' g] by simp

lemma run_finish: "proto_step g fa (st dev ring (Applying []) d S) (st dev ring Idle d S)"
  using proto_step.finish [of "st dev ring (Applying []) d S" g fa] by simp

text \<open>The rest of \<^verbatim>\<open>copy_chunk\<close> up to the late records, with nothing in between.\<close>

lemma run_landing:
  assumes "wf_daemon d" "off + n \<le> d_size d" "n \<le> COPY_CHUNK"
  shows "\<exists>rp. (proto_step g fa)\<^sup>*\<^sup>* (st dev ring (Reading off n []) d S)
      (st dev ring (Applying (d_deferred d)) (d\<lparr>d_replica := rp, d_copying := None, d_deferred := []\<rparr>) (S \<union> {off..<off + n})) \<and>
    wf_replica (d_size d) rp \<and> f_dat (rp_file rp) = img_write (d_image d) off (img_slice dev off n)"
proof -
  let ?buf = "img_slice dev off n"
  have len: "length ?buf = n" by (simp add: img_slice_def)
  with copy_land_step [OF assms(1), of off ?buf] assms(2,3) obtain rp where
    rp: "copy_land ?buf off None d = Inr (d\<lparr>d_replica := rp\<rparr>)" "wf_replica (d_size d) rp"
      "f_dat (rp_file rp) = img_write (d_image d) off ?buf" by auto
  have "(proto_step g fa)\<^sup>*\<^sup>* (st dev ring (Reading off n []) d S) (st dev ring (Landed off n) (d\<lparr>d_replica := rp\<rparr>) (S \<union> {off..<off + n}))"
    using run_read run_land [OF len rp(1)] by (meson rtranclp.rtrancl_into_rtrancl rtranclp.rtrancl_refl)
  with run_unflag [of g fa dev ring off n "d\<lparr>d_replica := rp\<rparr>" "S \<union> {off..<off + n}"] rp show ?thesis
    by (intro exI [of _ rp]) simp
qed

text \<open>A chunk copied while nothing else happens, under any guard.\<close>

lemma copy_run:
  assumes "wf_daemon d" "off + n \<le> d_size d" "n \<le> COPY_CHUNK"
  shows "\<exists>d'. (proto_step g fa)\<^sup>*\<^sup>* (proto_start dev d S) (proto_start dev d' (S \<union> {off..<off + n})) \<and>
    d_image d' = img_write (d_image d) off (img_slice dev off n)"
proof -
  let ?f = "copy_flag off n d"
  have "wf_daemon ?f" "off + n \<le> d_size ?f" "d_deferred ?f = []" "d_image ?f = d_image d"
    using assms by (simp_all add: copy_flag_def wf_daemon_def)
  with run_landing [OF _ _ assms(3), of ?f off g fa dev "[]" S] obtain rp where
    rp: "(proto_step g fa)\<^sup>*\<^sup>* (st dev [] (Reading off n []) ?f S)
        (st dev [] (Applying []) (?f\<lparr>d_replica := rp, d_copying := None, d_deferred := []\<rparr>) (S \<union> {off..<off + n}))"
      "f_dat (rp_file rp) = img_write (d_image d) off (img_slice dev off n)" by auto
  from run_flag [OF assms(3,2)] rp(1) run_finish
  have "(proto_step g fa)\<^sup>*\<^sup>* (st dev [] Idle d S)
      (st dev [] Idle (?f\<lparr>d_replica := rp, d_copying := None, d_deferred := []\<rparr>) (S \<union> {off..<off + n}))"
    by (meson converse_rtranclp_into_rtranclp rtranclp.rtrancl_into_rtrancl)
  with rp(2) show ?thesis unfolding proto_start_def
    by (intro exI [of _ "?f\<lparr>d_replica := rp, d_copying := None, d_deferred := []\<rparr>"]) simp
qed

subsection \<open>Properties\<close>

text \<open>
  (C6) The copy protocol converges. Start with a replica that equals the disk on a set of bytes;
  let the copy thread copy any chunks, the main thread apply records and the system write to
  the disk in any interleaving in which the strict guard holds. Whenever the copy thread is
  between two chunks, the bytes copied so far, with the records still in the ring applied, are
  those of the disk; with an empty ring the replica equals the disk there.
\<close>

theorem copy_protocol_converges:
  assumes "punches_holes fa" and "wf_daemon d" and "d_copying d = None" and "\<forall>x \<in> S. d_image d x = dev x"
    and "(proto_step strict_guard fa)\<^sup>*\<^sup>* (proto_start dev d S) s" and "p_pc s = Idle" and "x \<in> p_synced s"
  shows "fold entry_effect (p_ring s) (d_image (p_daemon s)) x = p_dev s x"
proof -
  have "punches_holes fa \<and> proto_inv s"
    using pi.reachable_inv [OF assms(5)] proto_start_inv [OF assms(2-4)] assms(1) by blast
  with inv_idle assms(6,7) show ?thesis by blast
qed

theorem copy_protocol_converges_witness:
  "\<exists>s. (proto_step strict_guard no_fallocate)\<^sup>*\<^sup>* (proto_start sample_dev sample_daemon {}) s \<and> p_pc s = Idle \<and>
    5 \<in> p_synced s \<and> fold entry_effect (p_ring s) (d_image (p_daemon s)) 5 = p_dev s 5"
proof -
  obtain d' where run: "(proto_step strict_guard no_fallocate)\<^sup>*\<^sup>* (proto_start sample_dev sample_daemon {})
      (proto_start sample_dev d' ({} \<union> {0..<0 + 2048}))"
    using copy_run [of sample_daemon 0 2048 strict_guard no_fallocate sample_dev "{}"] sample_daemon_ok(1)
    by (auto simp: sample_daemon_size COPY_CHUNK_def)
  let ?s = "proto_start sample_dev d' ({} \<union> {0..<0 + 2048})"
  have quiet: "p_pc ?s = Idle" "5 \<in> p_synced ?s" by (simp_all add: proto_start_def)
  have "fold entry_effect (p_ring ?s) (d_image (p_daemon ?s)) 5 = p_dev ?s 5"
    by (rule copy_protocol_converges [OF sample_rp_ok(1) sample_daemon_ok(1,2) _ run quiet]) simp
  with run quiet show ?thesis by blast
qed

subsection \<open>Two runs of the code\<close>

definition wr :: "nat \<Rightarrow> nat \<Rightarrow> bytes \<Rightarrow> entry" where
  "wr seq sector p = (sample_rec\<lparr>r_seq := seq, r_sector := sector, r_len := length p\<rparr>, p)"

lemma wr_simps [simp]:
  "entry_effect (wr q sec p) m = img_write m (sec * 512) p"
  "in_flight d (fst (wr q sec p)) \<longleftrightarrow>
    (case d_copying d of None \<Rightarrow> False | Some c \<Rightarrow> sec * 512 < snd c \<and> fst c < sec * 512 + length p)"
  by (auto simp: wr_def entry_effect_def sample_rec_def REC_WRITE_def in_flight_def split: option.splits)

lemma wr_ok: "sec * 512 + length p \<le> sz \<Longrightarrow> length p \<le> RW_MAX \<Longrightarrow> fits sz (wr q sec p) \<and> entry_ok sz (wr q sec p)"
  by (simp add: wr_def fits_def entry_ok_def sample_rec_def REC_WRITE_def)

lemma apply_one_defer: "in_flight d (fst e) \<Longrightarrow> apply_one fa e d = Inr (d\<lparr>d_deferred := d_deferred d @ [e]\<rparr>)"
  by (cases e) (simp add: apply_one_def)

text \<open>All is quiet, and yet a byte that was copied differs from the disk.\<close>

definition lost_update :: "proto \<Rightarrow> bool" where
  "lost_update s \<longleftrightarrow> p_pc s = Idle \<and> p_ring s = [] \<and> (\<exists>x \<in> p_synced s. d_image (p_daemon s) x \<noteq> p_dev s x)"

text \<open>
  A newer record overtakes a late one. A record that arrives while its chunk is copied is
  deferred; once the range is unflagged, and before the copy thread applies the record, the
  main thread applies a newer record for the same byte; then the copy thread puts the older
  value back. At the end everything is quiet and the replica differs from the disk.
\<close>

theorem late_record_overtaken:
  "\<exists>s. (proto_step code_guard no_fallocate)\<^sup>*\<^sup>* (proto_start (\<lambda>_. 0) sample_daemon {0..<2048}) s \<and> lost_update s"
proof -
  let ?g = code_guard and ?fa = no_fallocate and ?S = "{0..<2048} :: nat set" and ?T = "{0..<2048} \<union> {0..<0 + 512} :: nat set"
  let ?e1 = "wr 1 0 [1]" and ?e2 = "wr 2 0 [2]" and ?f = "copy_flag 0 512 sample_daemon"
  let ?f1 = "?f\<lparr>d_deferred := [?e1]\<rparr>"
  let ?dev1 = "entry_effect ?e1 (\<lambda>_. 0)" and ?dev2 = "entry_effect ?e2 (entry_effect ?e1 (\<lambda>_. 0))"
  have wf: "wf_daemon ?f1" "d_size ?f1 = 2048" "d_size ?f = 2048"
    using sample_daemon_ok(1) by (simp_all add: copy_flag_def wf_daemon_def sample_daemon_size)
  have ok: "fits 2048 ?e1" "entry_ok 2048 ?e1" "fits 2048 ?e2" "entry_ok 2048 ?e2"
    using wr_ok [of 0 "[1]" 2048 1] wr_ok [of 0 "[2]" 2048 2] by (simp_all add: RW_MAX_def)
  have held: "apply_one ?fa ?e1 ?f = Inr ?f1"
    using apply_one_defer [of ?f ?e1 ?fa] by (simp add: copy_flag_def)
  from run_landing [OF wf(1), of 0 512 ?g ?fa ?dev1 "[]" ?S] wf(2) obtain rp where
    rp: "(proto_step ?g ?fa)\<^sup>*\<^sup>* (st ?dev1 [] (Reading 0 512 []) ?f1 ?S)
        (st ?dev1 [] (Applying [?e1]) (?f1\<lparr>d_replica := rp, d_copying := None, d_deferred := []\<rparr>) ?T)" "wf_replica 2048 rp"
    by (auto simp: COPY_CHUNK_def)
  let ?u = "?f1\<lparr>d_replica := rp, d_copying := None, d_deferred := []\<rparr>"
  have u: "wf_daemon ?u" "d_size ?u = 2048" "d_copying ?u = None" using rp(2) wf(2) by (simp_all add: wf_daemon_def)
  obtain d2 where d2: "apply_one ?fa ?e2 ?u = Inr d2" "wf_daemon d2" "d_size d2 = 2048" "d_copying d2 = None"
    using apply_one_free [OF sample_rp_ok(1) u(1), of ?e2] ok(3) u(2,3)
    by (auto simp: same_control_def same_settings_def)
  obtain d3 where d3: "apply_one ?fa ?e1 d2 = Inr d3" "d_image d3 = entry_effect ?e1 (d_image d2)"
    using apply_one_free [OF sample_rp_ok(1) d2(2), of ?e1] ok(1) d2(3,4) by auto
  have "proto_step ?g ?fa (st (\<lambda>_. 0) [] Idle sample_daemon ?S) (st (\<lambda>_. 0) [] (Reading 0 512 []) ?f ?S)"
      "proto_step ?g ?fa (st (\<lambda>_. 0) [] (Reading 0 512 []) ?f ?S) (st ?dev1 [?e1] (Reading 0 512 []) ?f ?S)"
      "proto_step ?g ?fa (st ?dev1 [] (Applying [?e1]) ?u ?T) (st ?dev2 [?e2] (Applying [?e1]) ?u ?T)"
    using run_write [of ?f ?e1 ?g ?fa "\<lambda>_. 0" "[]"] run_write [of ?u ?e2 ?g ?fa ?dev1 "[]"] ok(2,4) wf(3) u(2)
    by (auto simp: sample_daemon_size COPY_CHUNK_def intro!: run_flag simp del: wr_simps)
  then have "(proto_step ?g ?fa)\<^sup>*\<^sup>* (st (\<lambda>_. 0) [] Idle sample_daemon ?S) (st ?dev2 [] Idle d3 ?T)"
    using rp(1) run_apply [OF held] run_apply [OF d2(1)] run_late [OF d3(1)] run_finish
    by (meson converse_rtranclp_into_rtranclp rtranclp.rtrancl_into_rtrancl rtranclp_trans rtranclp.rtrancl_refl)
  moreover have "lost_update (st ?dev2 [] Idle d3 ?T)"
    using d3(2) by (auto simp: lost_update_def img_write_def intro: bexI [of _ 0])
  ultimately show ?thesis unfolding proto_start_def by blast
qed

text \<open>
  A deferred record may reach beyond the chunk. The record straddles the end of the chunk
  in flight and is deferred as a whole; a newer record for a byte after the chunk is not in
  flight and is applied at once; when the chunk has landed, the older record is applied over
  it. No two threads have to meet for this: the order of the steps of the code is enough.
\<close>

theorem deferred_record_straddles:
  "\<exists>s. (proto_step code_guard no_fallocate)\<^sup>*\<^sup>* (proto_start (\<lambda>_. 0) sample_daemon {0..<2048}) s \<and> lost_update s \<and>
    1024 \<in> p_synced s \<and> d_image (p_daemon s) 1024 = 1 \<and> p_dev s 1024 = 2"
proof -
  let ?g = code_guard and ?fa = no_fallocate and ?S = "{0..<2048} :: nat set" and ?T = "{0..<2048} \<union> {0..<0 + 1024} :: nat set"
  let ?p = "replicate 1024 1 :: bytes"
  let ?e1 = "wr 1 1 ?p" and ?e2 = "wr 2 2 [2]" and ?f = "copy_flag 0 1024 sample_daemon"
  let ?f1 = "?f\<lparr>d_deferred := [?e1]\<rparr>"
  let ?dev1 = "entry_effect ?e1 (\<lambda>_. 0)" and ?dev2 = "entry_effect ?e2 (entry_effect ?e1 (\<lambda>_. 0))"
  have wf: "wf_daemon ?f1" "d_size ?f1 = 2048" "d_size ?f = 2048" "d_copying ?f1 = Some (0, 1024)"
    using sample_daemon_ok(1) by (simp_all add: copy_flag_def wf_daemon_def sample_daemon_size)
  have ok: "fits 2048 ?e1" "entry_ok 2048 ?e1" "fits 2048 ?e2" "entry_ok 2048 ?e2"
    using wr_ok [of 1 ?p 2048 1] wr_ok [of 2 "[2]" 2048 2] by (simp_all add: RW_MAX_def)
  have held: "apply_one ?fa ?e1 ?f = Inr ?f1"
    using apply_one_defer [of ?f ?e1 ?fa] by (simp add: copy_flag_def)
  obtain d2 where d2: "apply_one ?fa ?e2 ?f1 = Inr d2" "wf_daemon d2" "d_size d2 = 2048" "d_deferred d2 = [?e1]"
    using apply_one_free [OF sample_rp_ok(1) wf(1), of ?e2] ok(3) wf(2,4)
    by (auto simp: same_control_def same_settings_def)
  from run_landing [OF d2(2), of 0 1024 ?g ?fa ?dev2 "[]" ?S] d2(3,4) obtain rp where
    rp: "(proto_step ?g ?fa)\<^sup>*\<^sup>* (st ?dev2 [] (Reading 0 1024 []) d2 ?S)
        (st ?dev2 [] (Applying [?e1]) (d2\<lparr>d_replica := rp, d_copying := None, d_deferred := []\<rparr>) ?T)" "wf_replica 2048 rp"
    by (auto simp: COPY_CHUNK_def)
  let ?u = "d2\<lparr>d_replica := rp, d_copying := None, d_deferred := []\<rparr>"
  have u: "wf_daemon ?u" "d_size ?u = 2048" "d_copying ?u = None" using rp(2) d2(3) by (simp_all add: wf_daemon_def)
  obtain d3 where d3: "apply_one ?fa ?e1 ?u = Inr d3" "d_image d3 = entry_effect ?e1 (d_image ?u)"
    using apply_one_free [OF sample_rp_ok(1) u(1), of ?e1] ok(1) u(2,3) by auto
  have "proto_step ?g ?fa (st (\<lambda>_. 0) [] Idle sample_daemon ?S) (st (\<lambda>_. 0) [] (Reading 0 1024 []) ?f ?S)"
      "proto_step ?g ?fa (st (\<lambda>_. 0) [] (Reading 0 1024 []) ?f ?S) (st ?dev1 [?e1] (Reading 0 1024 []) ?f ?S)"
      "proto_step ?g ?fa (st ?dev1 [?e1] (Reading 0 1024 []) ?f ?S) (st ?dev2 [?e1, ?e2] (Reading 0 1024 []) ?f ?S)"
    using run_write [of ?f ?e1 ?g ?fa "\<lambda>_. 0" "[]"] run_write [of ?f ?e2 ?g ?fa ?dev1 "[?e1]"] ok(2,4) wf(3)
    by (auto simp: sample_daemon_size COPY_CHUNK_def intro!: run_flag simp del: wr_simps)
  then have "(proto_step ?g ?fa)\<^sup>*\<^sup>* (st (\<lambda>_. 0) [] Idle sample_daemon ?S) (st ?dev2 [] Idle d3 ?T)"
    using rp(1) run_apply [OF held] run_apply [OF d2(1)] run_late [OF d3(1)] run_finish
    by (meson converse_rtranclp_into_rtranclp rtranclp.rtrancl_into_rtrancl rtranclp_trans rtranclp.rtrancl_refl)
  moreover have "d_image d3 1024 = 1" "?dev2 1024 = 2" using d3(2) by (simp_all add: img_write_def)
  ultimately show ?thesis unfolding proto_start_def
    by (intro exI [of _ "st ?dev2 [] Idle d3 ?T"]) (auto simp: lost_update_def intro: bexI [of _ 1024])
qed

end
