(* ===== verification/Snapshot.thy ===== *)
theory Snapshot
  imports Copy_Protocol
begin

text \<open>
  A rebuild that copies the replica while the daemon runs: steps 2 and 3 of \<^verbatim>\<open>main\<close> in
  \<^verbatim>\<open>rkcdp/rkcdp-rebuild.py\<close> interleaved with the threads of \<^verbatim>\<open>rkcdp/rkcdpd.py\<close>.

  The rebuild creates the lock, waits for the status thread to report, reads the replica from the
  front to the end in pieces of any size and removes the lock. The main thread is cut where the
  lock or the replica is looked at: \<^verbatim>\<open>consume\<close> evaluates \<^verbatim>\<open>paused()\<close> once and then takes record after
  record; \<^verbatim>\<open>apply_pending\<close> likewise. A chunk of a copy thread is one step here; how it interleaves
  with single records is the subject of \<open>Copy_Protocol\<close>.

  Two guards are parameters: \<open>start\<close>, when the rebuild begins to copy, and \<open>copying\<close>, when the copy
  threads go on. In the code the wait ends on the report \<^verbatim>\<open>PAUSED\<close> or by itself after 30 turns, and
  the copy threads never look at the lock. With \<open>settled_start\<close> and \<open>unlocked\<close> the copy is an image
  that the replica had at one moment; with the guards of the code, even when \<^verbatim>\<open>PAUSED\<close> was
  reported before, it need not be.
\<close>

subsection \<open>States and steps\<close>

datatype main_pc =
    Between
  | Consuming bool bytes "entry list" nat bytes  \<comment> \<open>\<^verbatim>\<open>park\<close>, \<^verbatim>\<open>buf\<close>, the records left, \<^verbatim>\<open>off\<close>, \<^verbatim>\<open>parked\<close>\<close>
  | Unparking "entry list"                       \<comment> \<open>the rest of \<^verbatim>\<open>pending.bin\<close>\<close>

datatype rb_pc =
    NotYet
  | Quiescing
  | Copying nat                                  \<comment> \<open>how far the copy has come\<close>
  | Copied nat                                   \<comment> \<open>the length of the finished copy\<close>

record snap =
  sn_daemon :: daemon
  sn_main :: main_pc
  sn_shown :: node_state                         \<comment> \<open>the state in \<^verbatim>\<open>status.json\<close>\<close>
  sn_rb :: rb_pc
  sn_copy :: image

definition set_lock :: "bool \<Rightarrow> daemon \<Rightarrow> daemon" where
  "set_lock b d = d\<lparr>d_dir := (d_dir d)\<lparr>nd_lock := b\<rparr>\<rparr>"

inductive snap_step :: "(snap \<Rightarrow> bool) \<Rightarrow> (snap \<Rightarrow> bool) \<Rightarrow> fallocate_call \<Rightarrow> snap \<Rightarrow> snap \<Rightarrow> bool"
  for start copying fa where
  main_read: "sn_main s = Between \<Longrightarrow> iter_records buf = Some (es, GReturn k) \<Longrightarrow>
    snap_step start copying fa s (s\<lparr>sn_main := Consuming (paused (sn_daemon s)) buf es 0 []\<rparr>)"
| main_take: "sn_main s = Consuming park buf (e # es) off parked \<Longrightarrow>
    consume_entry fa park buf e (sn_daemon s, off, parked) = Inr (d, off', parked') \<Longrightarrow>
    snap_step start copying fa s (s\<lparr>sn_main := Consuming park buf es off' parked', sn_daemon := d\<rparr>)"
| main_end: "sn_main s = Consuming park buf [] off parked \<Longrightarrow>
    snap_step start copying fa s (s\<lparr>sn_main := Between, sn_daemon := append_pending parked (sn_daemon s)\<rparr>)"
| main_seed: "sn_main s = Between \<Longrightarrow> iter_seed now (sn_daemon s) = Inr d \<Longrightarrow>
    snap_step start copying fa s (s\<lparr>sn_daemon := d\<rparr>)"
| main_recovery: "sn_main s = Between \<Longrightarrow> copying s \<Longrightarrow> iter_recovery st_buf ioctl_bitmap now (sn_daemon s) = Inr d \<Longrightarrow>
    snap_step start copying fa s (s\<lparr>sn_daemon := d\<rparr>)"
| main_unpark: "sn_main s = Between \<Longrightarrow> \<not> paused (sn_daemon s) \<Longrightarrow> nd_pending (d_dir (sn_daemon s)) = Some content \<Longrightarrow>
    iter_records content = Some (es, GReturn k) \<Longrightarrow>
    snap_step start copying fa s (s\<lparr>sn_main := Unparking es\<rparr>)"
| unpark_take: "sn_main s = Unparking (e # es) \<Longrightarrow> apply_one fa e (sn_daemon s) = Inr d \<Longrightarrow>
    snap_step start copying fa s (s\<lparr>sn_main := Unparking es, sn_daemon := d\<rparr>)"
| unpark_end: "sn_main s = Unparking [] \<Longrightarrow>
    snap_step start copying fa s
      (s\<lparr>sn_main := Between, sn_daemon := (sn_daemon s)\<lparr>d_dir := (d_dir (sn_daemon s))\<lparr>nd_pending := None\<rparr>\<rparr>\<rparr>)"
| copy_piece: "recovery_active (sn_daemon s) \<or> d_base_running (sn_daemon s) \<Longrightarrow> copying s \<Longrightarrow> n \<le> COPY_CHUNK \<Longrightarrow>
    copy_chunk fa dev (d_size (sn_daemon s)) off n skip (sn_daemon s) = Inr (k, d) \<Longrightarrow>
    snap_step start copying fa s (s\<lparr>sn_daemon := d\<rparr>)"
| recovery_end: "d_recovery (sn_daemon s) = Some rec \<Longrightarrow>
    snap_step start copying fa s
      (s\<lparr>sn_daemon := (sn_daemon s)\<lparr>d_recovery := None, d_dir := (d_dir (sn_daemon s))\<lparr>nd_recovery := None\<rparr>\<rparr>\<rparr>)"
| report: "snap_step start copying fa s (s\<lparr>sn_shown := daemon_state sts (sn_daemon s)\<rparr>)"
| rb_lock: "sn_rb s = NotYet \<Longrightarrow>
    snap_step start copying fa s (s\<lparr>sn_rb := Quiescing, sn_daemon := set_lock True (sn_daemon s)\<rparr>)"
| rb_start: "sn_rb s = Quiescing \<Longrightarrow> start s \<Longrightarrow> snap_step start copying fa s (s\<lparr>sn_rb := Copying 0\<rparr>)"
| rb_read: "sn_rb s = Copying pos \<Longrightarrow> pos + m \<le> d_size (sn_daemon s) \<Longrightarrow>
    snap_step start copying fa s
      (s\<lparr>sn_rb := Copying (pos + m), sn_copy := img_write (sn_copy s) pos (img_slice (d_image (sn_daemon s)) pos m)\<rparr>)"
| rb_unlock: "sn_rb s = Copying pos \<Longrightarrow> pos = d_size (sn_daemon s) \<Longrightarrow>
    snap_step start copying fa s (s\<lparr>sn_rb := Copied pos, sn_daemon := set_lock False (sn_daemon s)\<rparr>)"

inductive_cases snap_stepE: "snap_step start copying fa s s'"

text \<open>The main thread is in a loop that it entered before it saw the lock.\<close>

definition applying :: "main_pc \<Rightarrow> bool" where
  "applying m = (case m of Between \<Rightarrow> False | Consuming park buf es off parked \<Rightarrow> \<not> park | Unparking es \<Rightarrow> True)"

definition paused_start :: "snap \<Rightarrow> bool" where
  "paused_start s \<longleftrightarrow> sn_shown s = PAUSED"

definition settled_start :: "snap \<Rightarrow> bool" where
  "settled_start s \<longleftrightarrow> \<not> applying (sn_main s)"

definition any_time :: "snap \<Rightarrow> bool" where
  "any_time s = True"

definition unlocked :: "snap \<Rightarrow> bool" where
  "unlocked s \<longleftrightarrow> \<not> paused (sn_daemon s)"

subsection \<open>What the steps leave alone\<close>

lemma apply_one_dir: "apply_one fa e d = Inr d' \<Longrightarrow> d_dir d' = d_dir d"
  by (cases e) (auto simp: apply_one_def bind_result_Inr_iff split: if_splits)

lemma consume_entry_dir:
  "consume_entry fa park buf e (d, off, parked) = Inr (d', off', parked') \<Longrightarrow>
    d_dir d' = d_dir d \<and> (park \<longrightarrow> d_replica d' = d_replica d)"
  by (cases e) (auto simp: consume_entry_def Let_def note_gap_control bind_result_Inr_iff dest: apply_one_dir split: if_splits)

lemma append_pending_keeps:
  "d_replica (append_pending p d) = d_replica d" "nd_lock (d_dir (append_pending p d)) = nd_lock (d_dir d)"
  by (simp_all add: append_pending_def)

lemma iter_seed_keeps: "iter_seed now d = Inr d' \<Longrightarrow> d_image d' = d_image d \<and> nd_lock (d_dir d') = nd_lock (d_dir d)"
  by (auto simp: iter_seed_def check_seed_def set_manifest_def Let_def bind_result_Inr_iff
      split: if_splits option.splits)

lemma iter_recovery_keeps:
  "iter_recovery st_buf ioctl_bitmap now d = Inr d' \<Longrightarrow> d_replica d' = d_replica d \<and> nd_lock (d_dir d') = nd_lock (d_dir d)"
  by (auto simp: iter_recovery_def start_recovery_def Let_def bind_result_Inr_iff split: if_splits list.splits)

lemma fold_apply_one_dir: "fold_result (apply_one fa) es d = Inr d' \<Longrightarrow> d_dir d' = d_dir d"
  by (rule fold_result_invariant [where P = "\<lambda>u. d_dir u = d_dir d"]) (auto dest: apply_one_dir)

lemma copy_chunk_dir: "copy_chunk fa dev dsz off n skip d = Inr (k, d') \<Longrightarrow> d_dir d' = d_dir d"
  by (auto simp: copy_chunk_def copy_unflag_def copy_land_def copy_flag_def Let_def bind_result_Inr_iff
      dest!: fold_apply_one_dir split: if_splits)

lemma set_lock_simps [simp]:
  "d_replica (set_lock b d) = d_replica d" "paused (set_lock b d) = b" "nd_lock (d_dir (set_lock b d)) = b"
  "d_size (set_lock b d) = d_size d"
  by (simp_all add: set_lock_def paused_def)

text \<open>Every step is one of the daemon, which leaves the lock and the rebuild alone, or one of the
  four of the rebuild.\<close>

lemma snap_step_kinds:
  assumes "snap_step start copying fa s s'"
  obtains (daemon) "sn_rb s' = sn_rb s" "sn_copy s' = sn_copy s" "paused (sn_daemon s') = paused (sn_daemon s)"
  | (lock) "sn_rb s = NotYet" "sn_rb s' = Quiescing" "paused (sn_daemon s')"
  | (start) "sn_rb s = Quiescing" "start s" "s' = s\<lparr>sn_rb := Copying 0\<rparr>"
  | (read) pos m where "sn_rb s = Copying pos" "pos + m \<le> d_size (sn_daemon s)"
      "s' = s\<lparr>sn_rb := Copying (pos + m), sn_copy := img_write (sn_copy s) pos (img_slice (d_image (sn_daemon s)) pos m)\<rparr>"
  | (unlock) pos where "sn_rb s = Copying pos" "sn_rb s' = Copied pos" "sn_copy s' = sn_copy s"
  using assms
proof cases
  case (main_take park buf e es off parked d off' parked')
  then show ?thesis using consume_entry_dir [OF main_take(3)] by (intro daemon) (simp_all add: paused_def)
next
  case (main_seed now d)
  then show ?thesis using iter_seed_keeps [OF main_seed(3)] by (intro daemon) (simp_all add: paused_def)
next
  case (main_recovery st_buf ioctl_bitmap now d)
  then show ?thesis using iter_recovery_keeps [OF main_recovery(4)] by (intro daemon) (simp_all add: paused_def)
next
  case (unpark_take e es d)
  then show ?thesis using apply_one_dir [OF unpark_take(3)] by (intro daemon) (simp_all add: paused_def)
next
  case (copy_piece n dev off skip k d)
  then show ?thesis using copy_chunk_dir [OF copy_piece(5)] by (intro daemon) (simp_all add: paused_def)
next
  case rb_lock
  then show ?thesis by (intro lock) simp_all
next
  case rb_start
  then show ?thesis by (intro start) simp_all
next
  case (rb_read pos m)
  then show ?thesis by (intro read) simp_all
next
  case (rb_unlock pos)
  then show ?thesis by (intro unlock) simp_all
next
  case (main_read buf es k)
  then show ?thesis by (intro daemon) (simp_all add: paused_def append_pending_keeps)
next
  case (main_end park buf off parked)
  then show ?thesis by (intro daemon) (simp_all add: paused_def append_pending_keeps)
next
  case (main_unpark content es k)
  then show ?thesis by (intro daemon) (simp_all add: paused_def append_pending_keeps)
next
  case unpark_end
  then show ?thesis by (intro daemon) (simp_all add: paused_def append_pending_keeps)
next
  case (recovery_end rec)
  then show ?thesis by (intro daemon) (simp_all add: paused_def append_pending_keeps)
next
  case (report sts)
  then show ?thesis by (intro daemon) (simp_all add: paused_def append_pending_keeps)
qed

text \<open>Under the lock, with the main thread parking and the copy threads held, nothing changes the replica.\<close>

lemma locked_step:
  assumes "snap_step start unlocked fa s s'" and "paused (sn_daemon s)" and "\<not> applying (sn_main s)"
  shows "d_image (sn_daemon s') = d_image (sn_daemon s) \<and> \<not> applying (sn_main s')"
  using assms
proof cases
  case (main_take park buf e es off parked d off' parked')
  then show ?thesis using consume_entry_dir [OF main_take(3)] assms(3) by (simp add: applying_def)
next
  case (main_seed now d)
  then show ?thesis using iter_seed_keeps [OF main_seed(3)] assms(3) by simp
qed (use assms(2,3) in \<open>auto simp: applying_def append_pending_keeps unlocked_def\<close>)

subsection \<open>The invariant\<close>

text \<open>The first \<open>n\<close> bytes of the copy are those the replica had in a state between \<open>s0\<close> and \<open>s\<close>.\<close>

definition taken :: "(snap \<Rightarrow> snap \<Rightarrow> bool) \<Rightarrow> snap \<Rightarrow> nat \<Rightarrow> snap \<Rightarrow> image \<Rightarrow> bool" where
  "taken step s0 n s img \<longleftrightarrow> (\<exists>u. step\<^sup>*\<^sup>* s0 u \<and> step\<^sup>*\<^sup>* u s \<and> d_image (sn_daemon u) = img \<and> (\<forall>x < n. sn_copy s x = img x))"

definition snap_inv :: "(snap \<Rightarrow> snap \<Rightarrow> bool) \<Rightarrow> snap \<Rightarrow> snap \<Rightarrow> bool" where
  "snap_inv step s0 s \<longleftrightarrow> step\<^sup>*\<^sup>* s0 s \<and>
     (case sn_rb s of
        NotYet \<Rightarrow> True
      | Quiescing \<Rightarrow> paused (sn_daemon s)
      | Copying pos \<Rightarrow> paused (sn_daemon s) \<and> \<not> applying (sn_main s) \<and> taken step s0 pos s (d_image (sn_daemon s))
      | Copied n \<Rightarrow> \<exists>img. taken step s0 n s img)"

lemma taken_step: "taken step s0 n s img \<Longrightarrow> step s s' \<Longrightarrow> sn_copy s' = sn_copy s \<Longrightarrow> taken step s0 n s' img"
  unfolding taken_def by (metis rtranclp.rtrancl_into_rtrancl)

lemma taken_read:
  assumes "taken step s0 pos s (d_image (sn_daemon s))" "step s s'" "sn_daemon s' = sn_daemon s"
    and "sn_copy s' = img_write (sn_copy s) pos (img_slice (d_image (sn_daemon s)) pos m)"
  shows "taken step s0 (pos + m) s' (d_image (sn_daemon s'))"
proof -
  obtain u where u: "step\<^sup>*\<^sup>* s0 u" "step\<^sup>*\<^sup>* u s" "d_image (sn_daemon u) = d_image (sn_daemon s)"
      "\<forall>x < pos. sn_copy s x = d_image (sn_daemon s) x" using assms(1) by (auto simp: taken_def)
  have "step\<^sup>*\<^sup>* u s'" using u(2) assms(2) by simp
  with u assms(3,4) show ?thesis by (auto simp: taken_def img_write_def intro!: exI [of _ u])
qed

interpretation sv: step_invariant "snap_step settled_start unlocked fa" "snap_inv (snap_step settled_start unlocked fa) s0" for fa s0
proof unfold_locales
  fix s s'
  let ?step = "snap_step settled_start unlocked fa"
  assume inv: "snap_inv ?step s0 s" and step: "?step s s'"
  then have run: "?step\<^sup>*\<^sup>* s0 s'" by (auto simp: snap_inv_def)
  from step show "snap_inv ?step s0 s'"
  proof (cases rule: snap_step_kinds)
    case daemon
    with inv run step locked_step [OF step] show ?thesis
      by (auto simp: snap_inv_def split: rb_pc.splits intro: taken_step)
  next
    case start
    then have "taken ?step s0 0 s' (d_image (sn_daemon s'))" using run by (auto simp: taken_def)
    with start inv run show ?thesis by (simp add: snap_inv_def settled_start_def)
  next
    case (read pos m)
    then have "taken ?step s0 (pos + m) s' (d_image (sn_daemon s'))"
      using inv step taken_read [of ?step s0 pos s s' m] by (simp add: snap_inv_def)
    with read inv run show ?thesis by (simp add: snap_inv_def)
  next
    case (unlock pos)
    with inv run step show ?thesis by (auto simp: snap_inv_def intro: taken_step)
  qed (use run in \<open>simp add: snap_inv_def\<close>)
qed

subsection \<open>Properties\<close>

text \<open>
  (C16) The copy of a rebuild is a snapshot, under two guards stronger than the code's: when copying
  begins only once the main thread has left every loop it entered before it saw the lock, and the
  copy threads rest while the lock is held, then a finished copy agrees byte for byte with the
  replica as it was at one moment of the run, whatever the daemon did meanwhile.
\<close>

theorem rebuild_copy_is_snapshot:
  assumes "(snap_step settled_start unlocked fa)\<^sup>*\<^sup>* s0 s" and "sn_rb s0 = NotYet" and "sn_rb s = Copied n"
  shows "\<exists>u. (snap_step settled_start unlocked fa)\<^sup>*\<^sup>* s0 u \<and> (snap_step settled_start unlocked fa)\<^sup>*\<^sup>* u s \<and>
    (\<forall>x < n. sn_copy s x = d_image (sn_daemon u) x)"
proof -
  have "snap_inv (snap_step settled_start unlocked fa) s0 s0" using assms(2) by (simp add: snap_inv_def)
  from sv.reachable_inv [OF assms(1) this] assms(3) show ?thesis by (auto simp: snap_inv_def taken_def)
qed

subsection \<open>Runs\<close>

abbreviation sn :: "daemon \<Rightarrow> main_pc \<Rightarrow> node_state \<Rightarrow> rb_pc \<Rightarrow> image \<Rightarrow> snap" where
  "sn d m shown rb img \<equiv> \<lparr>sn_daemon = d, sn_main = m, sn_shown = shown, sn_rb = rb, sn_copy = img\<rparr>"

lemma go_lock: "snap_step g h fa (sn d m sh NotYet c) (sn (set_lock True d) m sh Quiescing c)"
  using snap_step.rb_lock [of "sn d m sh NotYet c" g h fa] by simp

lemma go_report: "snap_step g h fa (sn d m sh rb c) (sn d m (daemon_state sts d) rb c)"
  using snap_step.report [of g h fa "sn d m sh rb c" sts] by simp

lemma go_start: "g (sn d m sh Quiescing c) \<Longrightarrow> snap_step g h fa (sn d m sh Quiescing c) (sn d m sh (Copying 0) c)"
  using snap_step.rb_start [of "sn d m sh Quiescing c" g h fa] by simp

lemma go_read:
  "pos + m \<le> d_size d \<Longrightarrow> snap_step g h fa (sn d p sh (Copying pos) c)
    (sn d p sh (Copying (pos + m)) (img_write c pos (img_slice (d_image d) pos m)))"
  using snap_step.rb_read [of "sn d p sh (Copying pos) c" pos m g h fa] by simp

lemma go_unlock:
  "n = d_size d \<Longrightarrow> snap_step g h fa (sn d p sh (Copying n) c) (sn (set_lock False d) p sh (Copied n) c)"
  using snap_step.rb_unlock [of "sn d p sh (Copying n) c" n g h fa] by simp

lemma go_consume:
  "iter_records buf = Some (es, GReturn k) \<Longrightarrow>
    snap_step g h fa (sn d Between sh rb c) (sn d (Consuming (paused d) buf es 0 []) sh rb c)"
  using snap_step.main_read [of "sn d Between sh rb c" buf es k g h fa] by simp

lemma go_take:
  "consume_entry fa park buf e (d, off, parked) = Inr (d', off', parked') \<Longrightarrow>
    snap_step g h fa (sn d (Consuming park buf (e # es) off parked) sh rb c) (sn d' (Consuming park buf es off' parked') sh rb c)"
  using snap_step.main_take [of "sn d (Consuming park buf (e # es) off parked) sh rb c" park buf e es off parked fa d' off' parked' g h]
  by simp

lemma go_end:
  "snap_step g h fa (sn d (Consuming park buf [] off parked) sh rb c) (sn (append_pending parked d) Between sh rb c)"
  using snap_step.main_end [of "sn d (Consuming park buf [] off parked) sh rb c" park buf off parked g h fa] by simp

lemma go_recovery:
  "h (sn d Between sh rb c) \<Longrightarrow> iter_recovery st_buf ioctl_bitmap now d = Inr d' \<Longrightarrow>
    snap_step g h fa (sn d Between sh rb c) (sn d' Between sh rb c)"
  using snap_step.main_recovery [of "sn d Between sh rb c" h st_buf ioctl_bitmap now d' g fa] by simp

lemma go_chunk:
  "recovery_active d \<Longrightarrow> h (sn d m sh rb c) \<Longrightarrow> n \<le> COPY_CHUNK \<Longrightarrow> copy_chunk fa dev (d_size d) off n skip d = Inr (k, d') \<Longrightarrow>
    snap_step g h fa (sn d m sh rb c) (sn d' m sh rb c)"
  using snap_step.copy_piece [of "sn d m sh rb c" h n fa dev off skip k d' g] by simp

lemmas chain = converse_rtranclp_into_rtranclp rtranclp.rtrancl_refl

lemma sample_snapshot_run:
  "\<exists>s. (snap_step settled_start unlocked no_fallocate)\<^sup>*\<^sup>* (sn sample_daemon Between CDP NotYet (\<lambda>_. 1)) s \<and> sn_rb s = Copied 2048"
proof -
  let ?g = settled_start and ?h = unlocked and ?fa = no_fallocate and ?d = "set_lock True sample_daemon"
  let ?c = "img_write (\<lambda>_. 1) 0 (img_slice (d_image ?d) 0 2048)"
  have "snap_step ?g ?h ?fa (sn ?d Between CDP Quiescing (\<lambda>_. 1)) (sn ?d Between CDP (Copying 0) (\<lambda>_. 1))"
    by (rule go_start) (simp add: settled_start_def applying_def)
  moreover have "snap_step ?g ?h ?fa (sn ?d Between CDP (Copying 0) (\<lambda>_. 1)) (sn ?d Between CDP (Copying 2048) ?c)"
    using go_read [of 0 2048 ?d] by (simp add: sample_daemon_size)
  moreover have "snap_step ?g ?h ?fa (sn ?d Between CDP (Copying 2048) ?c) (sn (set_lock False ?d) Between CDP (Copied 2048) ?c)"
    by (rule go_unlock) (simp add: sample_daemon_size)
  ultimately have "(snap_step ?g ?h ?fa)\<^sup>*\<^sup>* (sn sample_daemon Between CDP NotYet (\<lambda>_. 1)) (sn (set_lock False ?d) Between CDP (Copied 2048) ?c)"
    by (meson chain go_lock)
  moreover have "sn_rb (sn (set_lock False ?d) Between CDP (Copied 2048) ?c) = Copied 2048" by simp
  ultimately show ?thesis by (intro exI conjI)
qed

theorem rebuild_copy_is_snapshot_witness:
  "\<exists>s u. (snap_step settled_start unlocked no_fallocate)\<^sup>*\<^sup>* (sn sample_daemon Between CDP NotYet (\<lambda>_. 1)) u \<and>
    (snap_step settled_start unlocked no_fallocate)\<^sup>*\<^sup>* u s \<and> sn_rb s = Copied 2048 \<and>
    (\<forall>x < 2048. sn_copy s x = d_image (sn_daemon u) x)"
proof -
  obtain s where s: "(snap_step settled_start unlocked no_fallocate)\<^sup>*\<^sup>* (sn sample_daemon Between CDP NotYet (\<lambda>_. 1)) s"
      "sn_rb s = Copied 2048" using sample_snapshot_run by (elim exE conjE)
  from rebuild_copy_is_snapshot [OF s(1) _ s(2)] s(2) show ?thesis by simp metis
qed

text \<open>
  A report of \<^verbatim>\<open>PAUSED\<close> is not enough. \<^verbatim>\<open>consume\<close> looked for the lock before it was created; the lock
  is created, \<^verbatim>\<open>PAUSED\<close> is reported, the copy passes the first byte of a record, the record is applied,
  and the copy goes on: it has one byte from before and one from after a single write.
\<close>

theorem paused_copy_torn:
  "\<exists>s. (snap_step paused_start any_time no_fallocate)\<^sup>*\<^sup>* (sn sample_daemon Between CDP NotYet (\<lambda>_. 0)) s \<and>
    sn_rb s = Copied 2048 \<and> d_image (sn_daemon s) 1536 = 7 \<and> d_image (sn_daemon s) 1537 = 9 \<and>
    sn_copy s 1536 = 0 \<and> sn_copy s 1537 = 9"
proof -
  let ?step = "snap_step paused_start any_time no_fallocate" and ?e = "(sample_rec, [7, 9] :: bytes)"
  let ?m = "Consuming False sample_bytes [?e] 0 []" and ?d = "set_lock True sample_daemon"
  let ?c1 = "img_write (\<lambda>_. 0) 0 (img_slice (d_image sample_daemon) 0 1537)"
  have d: "wf_daemon ?d" "d_copying ?d = None" "d_size ?d = 2048" "\<not> recovery_active ?d" "d_recovery_queue ?d = []"
      "\<not> d_seed_required ?d" "d_base_progress ?d = None" "d_image ?d = (\<lambda>_. 0)"
    using sample_daemon_ok(1,2) by (simp_all add: set_lock_def wf_daemon_def sample_daemon_def recovery_active_def sample_rp_def os_truncated_def)
  obtain d' where d': "apply_one no_fallocate ?e (note_gap sample_rec ?d) = Inr d'" "consumed [?e] ?d d'"
    using consumed_one [OF sample_rp_ok(1) d(1,2), of sample_rec "[7, 9]"] sample_daemon_ok(4) d(3)
    by (auto simp: sample_daemon_size)
  let ?m' = "Consuming False sample_bytes [] 64 []"
  let ?c2 = "img_write ?c1 1537 (img_slice (d_image d') 1537 511)"
  have img: "d_image d' = img_write (\<lambda>_. 0) 1536 [7, 9]" "d_size d' = 2048"
    using d'(2) d(3,8) by (simp_all add: consumed_def same_settings_def entry_effect_def sample_rec_def REC_WRITE_def)
  have "?step (sn sample_daemon Between CDP NotYet (\<lambda>_. 0)) (sn sample_daemon ?m CDP NotYet (\<lambda>_. 0))"
    using go_consume [OF sample_iter] sample_daemon_ok(3) by (metis (full_types))
  moreover have "?step (sn sample_daemon ?m CDP NotYet (\<lambda>_. 0)) (sn ?d ?m CDP Quiescing (\<lambda>_. 0))" by (rule go_lock)
  moreover have "?step (sn ?d ?m CDP Quiescing (\<lambda>_. 0)) (sn ?d ?m PAUSED Quiescing (\<lambda>_. 0))"
    using go_report [of paused_start any_time no_fallocate ?d] d(4-7) by (simp add: daemon_state_def)
  moreover have "?step (sn ?d ?m PAUSED Quiescing (\<lambda>_. 0)) (sn ?d ?m PAUSED (Copying 0) (\<lambda>_. 0))"
    by (rule go_start) (simp add: paused_start_def)
  moreover have "?step (sn ?d ?m PAUSED (Copying 0) (\<lambda>_. 0)) (sn ?d ?m PAUSED (Copying 1537) ?c1)"
    using go_read [of 0 1537 ?d] d(3) by simp
  moreover have "?step (sn ?d ?m PAUSED (Copying 1537) ?c1) (sn d' ?m' PAUSED (Copying 1537) ?c1)"
    using d'(1) by (intro go_take) (simp add: consume_entry_def sample_rec_def)
  moreover have "?step (sn d' ?m' PAUSED (Copying 1537) ?c1) (sn d' ?m' PAUSED (Copying 2048) ?c2)"
    using go_read [of 1537 511 d'] img(2) by simp
  moreover have "?step (sn d' ?m' PAUSED (Copying 2048) ?c2) (sn (set_lock False d') ?m' PAUSED (Copied 2048) ?c2)"
    using img(2) by (intro go_unlock) simp
  ultimately have "?step\<^sup>*\<^sup>* (sn sample_daemon Between CDP NotYet (\<lambda>_. 0)) (sn (set_lock False d') ?m' PAUSED (Copied 2048) ?c2)"
    by (meson chain)
  then show ?thesis using img(1)
    by (intro exI [of _ "sn (set_lock False d') ?m' PAUSED (Copied 2048) ?c2"])
      (simp add: img_write_def sample_daemon_def sample_rp_def os_truncated_def)
qed

text \<open>The sample record with the flag that announces a gap, and its bytes.\<close>

definition gap_rec :: cdp_rec where
  "gap_rec = sample_rec\<lparr>r_flags := 8\<rparr>"

definition gap_bytes :: bytes where
  "gap_bytes = sample_bytes[8 := 8]"

lemma gap_iter: "iter_records gap_bytes = Some ([(gap_rec, [7, 9])], GReturn 64)"
proof (rule iter_records_any_fuel)
  have "replicate 6 (0 :: byte) = [0, 0, 0, 0, 0, 0]" by (simp add: numeral_eq_Suc)
  then have "packed (gap_rec, [7, 9]) gap_bytes"
    by (simp add: packed_def pack_rec_def gap_rec_def sample_rec_def gap_bytes_def sample_bytes_def REC_FMT_def REC_MAGIC_def
      ABI_VERSION_def REC_SIZE_def aligned_len_eq le_bytes_2 le_bytes_4 le_bytes_8)
  moreover have "wf_entry (gap_rec, [7, 9])" 
    by (simp add: wf_entry_def gap_rec_def sample_rec_def REC_MAGIC_def ABI_VERSION_def REC_WRITE_def REC_SIZE_def aligned_len_eq)
  ultimately have "iter_from 1 gap_bytes 0 = Some ([(gap_rec, [7, 9])], GReturn (length gap_bytes))"
    using iter_from_stream [of "[(gap_rec, [7, 9])]" "[gap_bytes]" "[]" "[]"] by (simp add: incomplete_def REC_SIZE_def)
  then show "iter_from 1 gap_bytes 0 = Some ([(gap_rec, [7, 9])], GReturn 64)"
    by (simp add: gap_bytes_def sample_bytes_def)
qed

text \<open>
  Nor is it enough that the main thread parks. With the lock held, \<^verbatim>\<open>PAUSED\<close> reported and the copy half
  way, a record that announces a gap is parked, but its gap is queued, the main loop starts the
  recovery at once, and the recovery writes to the replica that is being copied.
\<close>

theorem recovery_writes_under_lock:
  "\<exists>s. (snap_step (\<lambda>s. paused_start s \<and> settled_start s) any_time no_fallocate)\<^sup>*\<^sup>*
      (sn sample_daemon Between CDP NotYet (\<lambda>_. 0)) s \<and>
    sn_rb s = Copied 2048 \<and> sn_copy s 1100 = 0 \<and> d_image (sn_daemon s) 1100 = sample_dev 1100 \<and>
    sn_copy s 1600 = sample_dev 1600 \<and> sample_dev 1100 \<noteq> 0 \<and> sample_dev 1600 \<noteq> 0"
proof -
  let ?step = "snap_step (\<lambda>s. paused_start s \<and> settled_start s) any_time no_fallocate"
  let ?e = "(gap_rec, [7, 9] :: bytes)" and ?d = "set_lock True sample_daemon" and ?C = "\<lambda>n. Copying n"
  let ?c1 = "img_write (\<lambda>_. 0) 0 (img_slice (d_image ?d) 0 1500)"
  let ?q = "note_gap gap_rec ?d" and ?p = "slice gap_bytes 0 64"
  let ?d1 = "append_pending ?p ?q"
  have d: "wf_daemon ?d" "\<not> recovery_active ?d" "d_recovery_queue ?d = []"
      "\<not> d_seed_required ?d" "d_base_progress ?d = None" "d_size ?d = 2048" "d_image ?d = (\<lambda>_. 0)" "paused ?d"
    using sample_daemon_ok(1)
    by (simp_all add: set_lock_def wf_daemon_def sample_daemon_def recovery_active_def sample_rp_def os_truncated_def paused_def)
  have q: "d_recovery_queue ?d1 = [5]" "\<not> recovery_active ?d1" "d_base_progress ?d1 = None" "d_size ?d1 = 2048" "d_replica ?d1 = d_replica ?d"
    using d(2,3,5,6) by (simp_all add: append_pending_def note_gap_def gap_rec_def sample_rec_def F_GAP_BEFORE_def recovery_active_def
        set_lock_def sample_daemon_def)
  obtain es where "bitmap_extents [2] 2 2 = Inr es" using extents_of_bits [of 2 "[2]" 2] by auto
  then obtain d2 where d2: "iter_recovery sample_status_bytes sample_ioctl 7 ?d1 = Inr d2" "recovery_active d2" "d_size d2 = 2048"
      "d_replica d2 = d_replica ?d"
    using q by (simp add: iter_recovery_def start_recovery_def sample_bitmap_read Let_def recovery_active_def)
  have "wf_daemon d2" using d(1,6) d2(3,4) by (simp add: wf_daemon_def)
  from copy_chunk_step [OF this d2(3), of 1024 no_fallocate sample_dev 1024 None] obtain k d3 where
    d3: "copy_chunk no_fallocate sample_dev (d_size d2) 1024 1024 None d2 = Inr (k, d3)" "d_size d3 = 2048"
      "d_image d3 = img_write (d_image ?d) 1024 (img_slice sample_dev 1024 1024)"
    using d2(3,4) by (auto simp: COPY_CHUNK_def dev_read_def)
  let ?c2 = "img_write ?c1 1500 (img_slice (d_image d3) 1500 548)"
  have "?step (sn sample_daemon Between CDP NotYet (\<lambda>_. 0)) (sn ?d Between CDP Quiescing (\<lambda>_. 0))" by (rule go_lock)
  moreover have "?step (sn ?d Between CDP Quiescing (\<lambda>_. 0)) (sn ?d Between PAUSED Quiescing (\<lambda>_. 0))"
    using go_report [of _ any_time no_fallocate ?d] d(2-5) by (simp add: daemon_state_def)
  moreover have "?step (sn ?d Between PAUSED Quiescing (\<lambda>_. 0)) (sn ?d Between PAUSED (Copying 0) (\<lambda>_. 0))"
    by (rule go_start) (simp add: paused_start_def settled_start_def applying_def)
  moreover have "?step (sn ?d Between PAUSED (Copying 0) (\<lambda>_. 0)) (sn ?d Between PAUSED (Copying 1500) ?c1)"
    using go_read [of 0 1500 ?d] d(6) by simp
  moreover have "?step (sn ?d Between PAUSED (Copying 1500) ?c1) (sn ?d (Consuming True gap_bytes [?e] 0 []) PAUSED (Copying 1500) ?c1)"
    using go_consume [OF gap_iter, of _ any_time no_fallocate ?d] d(8) by simp
  moreover have "?step (sn ?d (Consuming True gap_bytes [?e] 0 []) PAUSED (Copying 1500) ?c1)
      (sn ?q (Consuming True gap_bytes [] 64 ?p) PAUSED (Copying 1500) ?c1)"
    by (rule go_take) (simp add: consume_entry_def gap_rec_def sample_rec_def)
  moreover have "?step (sn ?q (Consuming True gap_bytes [] 64 ?p) PAUSED (Copying 1500) ?c1) (sn ?d1 Between PAUSED (Copying 1500) ?c1)"
    by (rule go_end)
  moreover have "?step (sn ?d1 Between PAUSED (Copying 1500) ?c1) (sn d2 Between PAUSED (Copying 1500) ?c1)"
    by (rule go_recovery [OF _ d2(1)]) (simp add: any_time_def)
  moreover have "?step (sn d2 Between PAUSED (Copying 1500) ?c1) (sn d3 Between PAUSED (Copying 1500) ?c1)"
    by (rule go_chunk [OF d2(2) _ _ d3(1)]) (simp_all add: any_time_def COPY_CHUNK_def)
  moreover have "?step (sn d3 Between PAUSED (Copying 1500) ?c1) (sn d3 Between PAUSED (Copying 2048) ?c2)"
    using go_read [of 1500 548 d3] d3(2) by simp
  moreover have "?step (sn d3 Between PAUSED (Copying 2048) ?c2) (sn (set_lock False d3) Between PAUSED (Copied 2048) ?c2)"
    using d3(2) by (intro go_unlock) simp
  ultimately have "?step\<^sup>*\<^sup>* (sn sample_daemon Between CDP NotYet (\<lambda>_. 0)) (sn (set_lock False d3) Between PAUSED (Copied 2048) ?c2)"
    by (meson chain)
  moreover have "?c2 1100 = 0" "?c2 1600 = sample_dev 1600" "d_image d3 1100 = sample_dev 1100"
    using d3(3) d(7) by (simp_all add: img_write_def)
  moreover have "sample_dev 1100 \<noteq> 0" "sample_dev 1600 \<noteq> 0" by (simp_all add: sample_dev_def)
  ultimately show ?thesis
    by (intro exI [of _ "sn (set_lock False d3) Between PAUSED (Copied 2048) ?c2"] conjI) simp_all
qed

end
