(* ===== verification/Durability.thy ===== *)
theory Durability
  imports Copy_Protocol
begin

text \<open>
  What is on the medium when the power fails: \<^verbatim>\<open>Replica.fsync\<close> and the order of the last steps of
  \<^verbatim>\<open>base_copy\<close> and \<^verbatim>\<open>recover\<close> in \<^verbatim>\<open>rkcdp/rkcdpd.py\<close>. Both copy, force the replica out, and only then
  change a file that says so: \<^verbatim>\<open>base_end_seq\<close> in the manifest, the removal of \<^verbatim>\<open>recovery.json\<close>.

  The state keeps, beside the daemon, the contents the replica has had since it was last forced out
  and all the versions the two files have had. After a power failure each byte of the replica has
  the value it had in one of these contents, and each file is one of its versions: a rename or a
  removal may be undone, as in \<open>Json_Files\<close>. The disk is at rest here; how a copy and new writes
  interleave is the subject of \<open>Copy_Protocol\<close>. The main thread forces the replica out once in a
  cycle, at any moment of the copy.
\<close>

subsection \<open>States and steps\<close>

datatype copy_pc =
    Base_At nat                      \<comment> \<open>\<^verbatim>\<open>off\<close> in \<^verbatim>\<open>base_copy\<close>\<close>
  | Base_Synced
  | Rec_At "(nat \<times> nat) list"       \<comment> \<open>\<^verbatim>\<open>off\<close> and \<^verbatim>\<open>remaining\<close> of the extents left in \<^verbatim>\<open>recover\<close>\<close>
  | Rec_Synced
  | Ended

record dur =
  u_daemon :: daemon
  u_pc :: copy_pc
  u_images :: "image list"
  u_manifests :: "manifest list"
  u_recs :: "recovery_rec option list"

definition wrote :: "daemon \<Rightarrow> dur \<Rightarrow> dur" where
  "wrote d s = s\<lparr>u_daemon := d, u_images := u_images s @ [d_image d]\<rparr>"

text \<open>\<^verbatim>\<open>self.replica.fsync()\<close>.\<close>

definition replica_fsync :: "dur \<Rightarrow> dur" where
  "replica_fsync s = s\<lparr>u_images := [d_image (u_daemon s)]\<rparr>"

definition publish_base :: "nat \<Rightarrow> rat \<Rightarrow> dur \<Rightarrow> dur" where
  "publish_base end_seq now s =
     (let d = u_daemon s; m = (d_manifest d)\<lparr>mf_base_end_seq := Some end_seq, mf_base_time := Some now\<rparr> in
      s\<lparr>u_daemon := set_manifest m d, u_manifests := u_manifests s @ [m]\<rparr>)"

definition publish_recovery :: "dur \<Rightarrow> dur" where
  "publish_recovery s =
     (let d = u_daemon s in
      s\<lparr>u_daemon := d\<lparr>d_recovery := None, d_dir := (d_dir d)\<lparr>nd_recovery := None\<rparr>\<rparr>, u_recs := u_recs s @ [None]\<rparr>)"

inductive dur_step :: "fallocate_call \<Rightarrow> image \<Rightarrow> dur \<Rightarrow> dur \<Rightarrow> bool" for fa dev where
  base_chunk: "u_pc s = Base_At off \<Longrightarrow> off < d_size (u_daemon s) \<Longrightarrow>
    copy_chunk fa dev (d_size (u_daemon s)) off (min COPY_CHUNK (d_size (u_daemon s) - off)) (Some (replicate COPY_CHUNK 0)) (u_daemon s)
      = Inr (n, d) \<Longrightarrow>
    dur_step fa dev s ((wrote d s)\<lparr>u_pc := Base_At (off + n)\<rparr>)"
| base_sync: "u_pc s = Base_At off \<Longrightarrow> d_size (u_daemon s) \<le> off \<Longrightarrow> dur_step fa dev s ((replica_fsync s)\<lparr>u_pc := Base_Synced\<rparr>)"
| base_publish: "u_pc s = Base_Synced \<Longrightarrow> dur_step fa dev s ((publish_base end_seq now s)\<lparr>u_pc := Ended\<rparr>)"
| rec_chunk: "u_pc s = Rec_At ((off, remaining) # es) \<Longrightarrow> remaining \<noteq> 0 \<Longrightarrow>
    copy_chunk fa dev (d_size (u_daemon s)) off (min remaining COPY_CHUNK) None (u_daemon s) = Inr (n, d) \<Longrightarrow> n \<noteq> 0 \<Longrightarrow>
    dur_step fa dev s ((wrote d s)\<lparr>u_pc := Rec_At ((off + n, remaining - n) # es)\<rparr>)"
| rec_next: "u_pc s = Rec_At ((off, remaining) # es) \<Longrightarrow> remaining = 0 \<or> d_size (u_daemon s) \<le> off \<Longrightarrow>
    dur_step fa dev s (s\<lparr>u_pc := Rec_At es\<rparr>)"
| rec_sync: "u_pc s = Rec_At [] \<Longrightarrow> dur_step fa dev s ((replica_fsync s)\<lparr>u_pc := Rec_Synced\<rparr>)"
| rec_publish: "u_pc s = Rec_Synced \<Longrightarrow> dur_step fa dev s ((publish_recovery s)\<lparr>u_pc := Ended\<rparr>)"
| stopped: "u_pc s = Base_At off \<or> u_pc s = Rec_At es \<Longrightarrow> dur_step fa dev s (s\<lparr>u_pc := Ended\<rparr>)"
| cycle_sync: "dur_step fa dev s (replica_fsync s)"

inductive_cases dur_stepE: "dur_step fa dev s s'"

definition dur_start :: "copy_pc \<Rightarrow> daemon \<Rightarrow> dur" where
  "dur_start pc d =
     \<lparr>u_daemon = d, u_pc = pc, u_images = [d_image d], u_manifests = [d_manifest d], u_recs = [nd_recovery (d_dir d)]\<rparr>"

text \<open>What may be found after a power failure in state \<open>s\<close>: manifest, \<^verbatim>\<open>recovery.json\<close> and replica.\<close>

definition after_power_failure :: "dur \<Rightarrow> manifest \<Rightarrow> recovery_rec option \<Rightarrow> image \<Rightarrow> bool" where
  "after_power_failure s m r img \<longleftrightarrow> m \<in> set (u_manifests s) \<and> r \<in> set (u_recs s) \<and>
     (\<forall>x. \<exists>i \<in> set (u_images s). img x = i x)"

subsection \<open>Invariants\<close>

text \<open>All that may be on the medium agrees with the disk on a set of bytes.\<close>

definition safe_on :: "image \<Rightarrow> nat set \<Rightarrow> dur \<Rightarrow> bool" where
  "safe_on dev X s \<longleftrightarrow> (\<forall>i \<in> set (u_images s). \<forall>x \<in> X. i x = dev x)"

definition has_base :: "dur \<Rightarrow> bool" where
  "has_base s \<longleftrightarrow> (\<exists>m \<in> set (u_manifests s). mf_base_end_seq m \<noteq> None)"

definition dur_ok :: "nat \<Rightarrow> dur \<Rightarrow> bool" where
  "dur_ok sz s \<longleftrightarrow> wf_daemon (u_daemon s) \<and> d_size (u_daemon s) = sz \<and> d_image (u_daemon s) \<in> set (u_images s)"

definition base_inv :: "image \<Rightarrow> nat \<Rightarrow> dur \<Rightarrow> bool" where
  "base_inv dev sz s \<longleftrightarrow> dur_ok sz s \<and>
     (case u_pc s of
        Base_At off \<Rightarrow> \<not> has_base s \<and> (\<forall>x < sz. d_image (u_daemon s) x = (if x < off then dev x else 0))
      | Base_Synced \<Rightarrow> safe_on dev {..<sz} s
      | Ended \<Rightarrow> has_base s \<longrightarrow> safe_on dev {..<sz} s
      | _ \<Rightarrow> False)"

definition in_extents :: "(nat \<times> nat) list \<Rightarrow> nat set" where
  "in_extents es = {x. \<exists>(off, n) \<in> set es. off \<le> x \<and> x < off + n}"

definition rec_inv :: "image \<Rightarrow> nat \<Rightarrow> nat set \<Rightarrow> recovery_rec \<Rightarrow> dur \<Rightarrow> bool" where
  "rec_inv dev sz X rec s \<longleftrightarrow> dur_ok sz s \<and> set (u_recs s) \<subseteq> {Some rec, None} \<and>
     (case u_pc s of
        Rec_At es \<Rightarrow> None \<notin> set (u_recs s) \<and> (\<forall>x \<in> X - in_extents es. x < sz \<longrightarrow> d_image (u_daemon s) x = dev x)
      | Rec_Synced \<Rightarrow> safe_on dev (X \<inter> {..<sz}) s
      | Ended \<Rightarrow> None \<in> set (u_recs s) \<longrightarrow> safe_on dev (X \<inter> {..<sz}) s
      | _ \<Rightarrow> False)"

lemma fsync_simps [simp]:
  "u_daemon (replica_fsync s) = u_daemon s" "u_pc (replica_fsync s) = u_pc s" "u_recs (replica_fsync s) = u_recs s"
  "u_manifests (replica_fsync s) = u_manifests s" "u_images (replica_fsync s) = [d_image (u_daemon s)]"
  by (simp_all add: replica_fsync_def)

lemma wrote_simps [simp]:
  "u_daemon (wrote d s) = d" "u_pc (wrote d s) = u_pc s" "u_recs (wrote d s) = u_recs s"
  "u_manifests (wrote d s) = u_manifests s" "u_images (wrote d s) = u_images s @ [d_image d]"
  by (simp_all add: wrote_def)

lemma publish_simps [simp]:
  "u_images (publish_base q t s) = u_images s" "u_images (publish_recovery s) = u_images s"
  "u_recs (publish_base q t s) = u_recs s" "u_manifests (publish_recovery s) = u_manifests s"
  "d_replica (u_daemon (publish_base q t s)) = d_replica (u_daemon s)"
  "d_replica (u_daemon (publish_recovery s)) = d_replica (u_daemon s)"
  "d_size (u_daemon (publish_base q t s)) = d_size (u_daemon s)"
  "d_size (u_daemon (publish_recovery s)) = d_size (u_daemon s)"
  by (simp_all add: publish_base_def publish_recovery_def set_manifest_def Let_def)

lemma dur_ok_cong: "d_replica (u_daemon s') = d_replica (u_daemon s) \<Longrightarrow> d_size (u_daemon s') = d_size (u_daemon s) \<Longrightarrow>
    u_images s' = u_images s \<Longrightarrow> dur_ok sz s \<Longrightarrow> dur_ok sz s'"
  by (auto simp: dur_ok_def wf_daemon_def)

lemma has_base_cong: "u_manifests s' = u_manifests s \<Longrightarrow> has_base s' = has_base s"
  by (simp add: has_base_def)

lemma safe_on_fsync: "dur_ok sz s \<Longrightarrow> safe_on dev X s \<Longrightarrow> safe_on dev X (replica_fsync s)"
  by (auto simp: safe_on_def dur_ok_def)

text \<open>One chunk of a copy.\<close>

lemma chunk_copied:
  assumes "dur_ok sz s" "copy_chunk fa dev sz off k skip (u_daemon s) = Inr (n, d)" "k \<le> COPY_CHUNK"
    and "\<And>z x. skip = Some z \<Longrightarrow> off \<le> x \<Longrightarrow> x < sz \<Longrightarrow> d_image (u_daemon s) x = 0"
    and "\<And>z. skip = Some z \<Longrightarrow> z = replicate COPY_CHUNK 0"
  shows "n = min k (sz - off) \<and> dur_ok sz (wrote d s) \<and>
    (\<forall>x. d_image d x = (if off \<le> x \<and> x < off + n then dev x else d_image (u_daemon s) x))"
proof -
  let ?buf = "dev_read dev sz off k"
  have len: "length ?buf = min k (sz - off)" by (simp add: dev_read_def)
  have d: "n = length ?buf" "wf_daemon d" "d_size d = sz"
      "d_image d = (if (case skip of None \<Rightarrow> False | Some z \<Rightarrow> ?buf = take (length ?buf) z)
        then d_image (u_daemon s) else img_write (d_image (u_daemon s)) off ?buf)"
    using copy_chunk_step [of "u_daemon s" sz k fa dev off skip] assms(1-3) by (auto simp: dur_ok_def)
  have zero: "dev x = 0" if "skip = Some z" "?buf = take (length ?buf) z" "off \<le> x" "x < off + n" for x z
  proof -
    have i: "x - off < length ?buf" "length ?buf \<le> COPY_CHUNK"
      using that(3,4) d(1) by linarith (use len assms(3) in simp)
    have "?buf ! (x - off) = take (length ?buf) (replicate COPY_CHUNK 0) ! (x - off)" using that assms(5) by metis
    also have "\<dots> = 0" using i by simp
    finally show ?thesis using i(1) that(3) by (simp add: dev_read_def)
  qed
  have "d_image d x = (if off \<le> x \<and> x < off + n then dev x else d_image (u_daemon s) x)" for x
  proof (cases "case skip of None \<Rightarrow> False | Some z \<Rightarrow> ?buf = take (length ?buf) z")
    case True
    then obtain z where z: "skip = Some z" "?buf = take (length ?buf) z" by (cases skip) auto
    have "off + n \<le> sz \<or> n = 0" using d(1) len by auto
    with z True d(4) zero assms(4) show ?thesis by force
  next
    case False
    with d(1,4) len show ?thesis by (simp add: dev_read_def img_write_slice)
  qed
  with d len show ?thesis by (simp add: dur_ok_def)
qed

interpretation bs: step_invariant "dur_step fa dev" "base_inv dev sz" for fa dev sz
proof unfold_locales
  fix s s'
  assume inv: "base_inv dev sz s" and step: "dur_step fa dev s s'"
  then have ok: "dur_ok sz s" by (simp add: base_inv_def)
  from step show "base_inv dev sz s'"
  proof cases
    case (base_chunk off n d)
    have "d_size (u_daemon s) = sz" "\<not> has_base s" "\<forall>x < sz. d_image (u_daemon s) x = (if x < off then dev x else 0)"
      using inv base_chunk(2) ok by (auto simp: base_inv_def dur_ok_def)
    moreover from this chunk_copied [OF ok, of fa dev off "min COPY_CHUNK (sz - off)" "Some (replicate COPY_CHUNK 0)" n d] base_chunk(4)
    have "dur_ok sz (wrote d s)" "\<forall>x. d_image d x = (if off \<le> x \<and> x < off + n then dev x else d_image (u_daemon s) x)" by auto
    ultimately show ?thesis
      using base_chunk(1) by (auto simp: base_inv_def dur_ok_def has_base_def)
  next
    case (base_sync off)
    then have "\<forall>x < sz. d_image (u_daemon s) x = dev x" using inv ok by (auto simp: base_inv_def dur_ok_def)
    with base_sync ok show ?thesis by (auto simp: base_inv_def dur_ok_def safe_on_def)
  next
    case (base_publish end_seq now)
    then show ?thesis using inv ok by (auto simp: base_inv_def safe_on_def intro: dur_ok_cong)
  next
    case (stopped off es)
    then show ?thesis using inv ok by (auto simp: base_inv_def has_base_def safe_on_def intro: dur_ok_cong)
  next
    case cycle_sync
    then show ?thesis
      using inv ok safe_on_fsync [OF ok] by (auto simp: base_inv_def has_base_def dur_ok_def split: copy_pc.splits)
  qed (use inv in \<open>auto simp: base_inv_def\<close>)
qed

lemma in_extents_Cons: "in_extents ((off, n) # es) = {off..<off + n} \<union> in_extents es"
  by (auto simp: in_extents_def)

interpretation rs: step_invariant "dur_step fa dev" "rec_inv dev sz X rec" for fa dev sz X rec
proof unfold_locales
  fix s s'
  assume inv: "rec_inv dev sz X rec s" and step: "dur_step fa dev s s'"
  then have ok: "dur_ok sz s" by (simp add: rec_inv_def)
  from step show "rec_inv dev sz X rec s'"
  proof cases
    case (rec_chunk off remaining es n d)
    have sz: "d_size (u_daemon s) = sz" "None \<notin> set (u_recs s)" "set (u_recs s) \<subseteq> {Some rec, None}"
      and old: "\<forall>x \<in> X - in_extents ((off, remaining) # es). x < sz \<longrightarrow> d_image (u_daemon s) x = dev x"
      using inv rec_chunk(2) ok by (auto simp: rec_inv_def dur_ok_def)
    from chunk_copied [OF ok, of fa dev off "min remaining COPY_CHUNK" None n d] rec_chunk(4) sz
    have d: "n \<le> remaining" "dur_ok sz (wrote d s)"
        "\<forall>x. d_image d x = (if off \<le> x \<and> x < off + n then dev x else d_image (u_daemon s) x)" by auto
    have "d_image d x = dev x" if "x \<in> X - in_extents ((off + n, remaining - n) # es)" "x < sz" for x
      using that d(1,3) old by (auto simp: in_extents_Cons)
    with d(2) rec_chunk(1) sz show ?thesis by (auto simp: rec_inv_def dur_ok_def)
  next
    case (rec_next off remaining es)
    have "d_size (u_daemon s) = sz" "None \<notin> set (u_recs s)" "set (u_recs s) \<subseteq> {Some rec, None}"
      and old: "\<forall>x \<in> X - in_extents ((off, remaining) # es). x < sz \<longrightarrow> d_image (u_daemon s) x = dev x"
      using inv rec_next(2) ok by (auto simp: rec_inv_def dur_ok_def)
    with rec_next ok show ?thesis by (auto simp: rec_inv_def dur_ok_def in_extents_Cons)
  next
    case rec_sync
    then have "\<forall>x \<in> X \<inter> {..<sz}. d_image (u_daemon s) x = dev x" using inv ok by (auto simp: rec_inv_def in_extents_def)
    with rec_sync ok inv show ?thesis by (auto simp: rec_inv_def dur_ok_def safe_on_def)
  next
    case rec_publish
    then show ?thesis using inv ok by (auto simp: rec_inv_def safe_on_def publish_recovery_def Let_def dur_ok_def wf_daemon_def)
  next
    case (stopped off es)
    then show ?thesis using inv ok by (auto simp: rec_inv_def intro: dur_ok_cong)
  next
    case cycle_sync
    then show ?thesis
      using inv ok safe_on_fsync [OF ok] by (auto simp: rec_inv_def dur_ok_def split: copy_pc.splits)
  qed (use inv in \<open>auto simp: rec_inv_def\<close>)
qed

subsection \<open>Properties\<close>

lemma after_failure_safe:
  "after_power_failure s m r img \<Longrightarrow> safe_on dev X s \<Longrightarrow> x \<in> X \<Longrightarrow> img x = dev x"
  by (force simp: after_power_failure_def safe_on_def)

text \<open>
  (C12) A recorded base is on the medium: whenever the power fails during or after a base copy of a disk
  at rest into an empty replica, whatever the main thread forced out in between, a manifest that
  is found with \<^verbatim>\<open>base_end_seq\<close> means that the replica that is found equals the disk in every byte.
\<close>

theorem recorded_base_durable:
  assumes "wf_daemon d" and "\<forall>x < d_size d. d_image d x = 0" and "mf_base_end_seq (d_manifest d) = None"
    and "(dur_step fa dev)\<^sup>*\<^sup>* (dur_start (Base_At 0) d) s" and "after_power_failure s m r img"
    and "mf_base_end_seq m \<noteq> None" and "x < d_size d"
  shows "img x = dev x"
proof -
  have "base_inv dev (d_size d) (dur_start (Base_At 0) d)"
    using assms(1-3) by (simp add: base_inv_def dur_start_def dur_ok_def has_base_def)
  from bs.reachable_inv [OF assms(4) this] have "base_inv dev (d_size d) s" .
  moreover have "has_base s" using assms(5,6) by (auto simp: after_power_failure_def has_base_def)
  ultimately have "safe_on dev {..<d_size d} s" by (auto simp: base_inv_def split: copy_pc.splits)
  from after_failure_safe [OF assms(5) this] assms(7) show ?thesis by simp
qed

text \<open>
  (C13) A recovery is forgotten only when it is on the medium: whenever the power fails during or after a
  recovery of a disk at rest, either \<^verbatim>\<open>recovery.json\<close> is found with its extents, so that the next
  daemon does it again, or every byte of the extents that is found in the replica is that of the disk.
\<close>

theorem finished_recovery_durable:
  assumes "wf_daemon d" and "nd_recovery (d_dir d) = Some rec"
    and "(dur_step fa dev)\<^sup>*\<^sup>* (dur_start (Rec_At (map (\<lambda>(s, n). (s * 512, n * 512)) (rc_extents rec))) d) s"
    and "after_power_failure s m r img" and "(a, n) \<in> set (rc_extents rec)" and "a * 512 \<le> x" and "x < a * 512 + n * 512"
    and "x < d_size d"
  shows "r = Some rec \<or> img x = dev x"
proof -
  let ?es = "map (\<lambda>(s, n). (s * 512, n * 512)) (rc_extents rec)"
  have "rec_inv dev (d_size d) (in_extents ?es) rec (dur_start (Rec_At ?es) d)"
    using assms(1,2) by (simp add: rec_inv_def dur_start_def dur_ok_def)
  from rs.reachable_inv [OF assms(3) this] have inv: "rec_inv dev (d_size d) (in_extents ?es) rec s" .
  have r: "r \<in> set (u_recs s)" using assms(4) by (simp add: after_power_failure_def)
  show ?thesis
  proof (cases "r = None")
    case True
    with inv r have "safe_on dev (in_extents ?es \<inter> {..<d_size d}) s" by (auto simp: rec_inv_def split: copy_pc.splits)
    moreover have "x \<in> in_extents ?es \<inter> {..<d_size d}" using assms(5-8) by (force simp: in_extents_def)
    ultimately show ?thesis using after_failure_safe [OF assms(4)] by blast
  next
    case False
    with inv r show ?thesis by (auto simp: rec_inv_def)
  qed
qed

subsection \<open>Sample runs\<close>

lemma sample_base_run:
  "\<exists>s m r img. (dur_step no_fallocate sample_dev)\<^sup>*\<^sup>* (dur_start (Base_At 0) sample_daemon) s \<and> after_power_failure s m r img \<and>
    mf_base_end_seq m \<noteq> None"
proof -
  let ?step = "dur_step no_fallocate sample_dev" and ?s0 = "dur_start (Base_At 0) sample_daemon"
  have sz: "d_size (u_daemon ?s0) = 2048" by (simp add: dur_start_def sample_daemon_size)
  have ok: "dur_ok 2048 ?s0" using sample_daemon_ok(1) by (simp add: dur_ok_def dur_start_def sample_daemon_size)
  obtain n d where c: "copy_chunk no_fallocate sample_dev 2048 0 (min COPY_CHUNK (2048 - 0)) (Some (replicate COPY_CHUNK 0)) (u_daemon ?s0) = Inr (n, d)"
      "n = 2048" "d_size d = 2048"
    using copy_chunk_step [of sample_daemon 2048 "min COPY_CHUNK (2048 - 0)" no_fallocate sample_dev 0 "Some (replicate COPY_CHUNK 0)"]
      sample_daemon_ok(1) by (auto simp: sample_daemon_size dur_start_def dev_read_def COPY_CHUNK_def)
  let ?s1 = "(wrote d ?s0)\<lparr>u_pc := Base_At 2048\<rparr>"
  let ?s2 = "(replica_fsync ?s1)\<lparr>u_pc := Base_Synced\<rparr>"
  let ?s3 = "(publish_base 7 8 ?s2)\<lparr>u_pc := Ended\<rparr>"
  have "?step ?s0 ?s1" using dur_step.base_chunk [of ?s0 0 no_fallocate sample_dev n d] c sz by (simp add: dur_start_def)
  moreover have "?step ?s1 ?s2" by (rule dur_step.base_sync [where off = 2048]) (simp_all add: c(3))
  moreover have "?step ?s2 ?s3" by (rule dur_step.base_publish) simp
  ultimately have "?step\<^sup>*\<^sup>* ?s0 ?s3" by (meson converse_rtranclp_into_rtranclp rtranclp.rtrancl_refl)
  moreover have "after_power_failure ?s3 ((d_manifest d)\<lparr>mf_base_end_seq := Some 7, mf_base_time := Some 8\<rparr>) None (d_image d)"
    by (simp add: after_power_failure_def publish_base_def Let_def dur_start_def sample_daemon_def sample_dir_def)
  ultimately show ?thesis by (intro exI conjI) (assumption, assumption, simp)
qed

theorem recorded_base_durable_witness:
  "\<exists>s m r img. (dur_step no_fallocate sample_dev)\<^sup>*\<^sup>* (dur_start (Base_At 0) sample_daemon) s \<and> after_power_failure s m r img \<and>
    mf_base_end_seq m \<noteq> None \<and> img 5 = sample_dev 5"
proof -
  obtain s m r img where s: "(dur_step no_fallocate sample_dev)\<^sup>*\<^sup>* (dur_start (Base_At 0) sample_daemon) s"
      "after_power_failure s m r img" "mf_base_end_seq m \<noteq> None"
    using sample_base_run by (elim exE conjE)
  have "\<forall>x < d_size sample_daemon. d_image sample_daemon x = 0" "mf_base_end_seq (d_manifest sample_daemon) = None"
      "5 < d_size sample_daemon"
    by (simp_all add: sample_daemon_def sample_rp_def os_truncated_def sample_manifest_def)
  from recorded_base_durable [OF sample_daemon_ok(1) this(1,2) s this(3)] s show ?thesis by blast
qed

lemma sample_recovery_run:
  assumes "d = sample_daemon\<lparr>d_dir := sample_dir\<lparr>nd_recovery := Some rec\<rparr>\<rparr>" "rc_extents rec = [(2, 2)]"
  shows "\<exists>s m img. (dur_step no_fallocate sample_dev)\<^sup>*\<^sup>* (dur_start (Rec_At (map (\<lambda>(s, n). (s * 512, n * 512)) (rc_extents rec))) d) s \<and>
    after_power_failure s m None img"
proof -
  let ?step = "dur_step no_fallocate sample_dev" and ?s = "dur_start (Rec_At [(1024, 1024)]) d"
  have d: "wf_daemon d" "d_size d = 2048" using sample_daemon_ok(1) assms by (simp_all add: wf_daemon_def sample_daemon_size)
  obtain n d1 where c: "copy_chunk no_fallocate sample_dev 2048 1024 (min 1024 COPY_CHUNK) None d = Inr (n, d1)" "n = 1024"
    using copy_chunk_step [OF d, of "min 1024 COPY_CHUNK" no_fallocate sample_dev 1024 None] by (auto simp: dev_read_def COPY_CHUNK_def)
  let ?s1 = "(wrote d1 ?s)\<lparr>u_pc := Rec_At [(2048, 0)]\<rparr>"
  let ?s2 = "?s1\<lparr>u_pc := Rec_At []\<rparr>"
  let ?s3 = "(replica_fsync ?s2)\<lparr>u_pc := Rec_Synced\<rparr>"
  let ?s4 = "(publish_recovery ?s3)\<lparr>u_pc := Ended\<rparr>"
  have "?step ?s ?s1" using dur_step.rec_chunk [of ?s 1024 1024 "[]" no_fallocate sample_dev n d1] c d by (simp add: dur_start_def)
  moreover have "?step ?s1 ?s2" by (rule dur_step.rec_next [where off = 2048 and remaining = 0]) simp_all
  moreover have "?step ?s2 ?s3" by (rule dur_step.rec_sync) simp
  moreover have "?step ?s3 ?s4" by (rule dur_step.rec_publish) simp
  ultimately have "?step\<^sup>*\<^sup>* ?s ?s4" by (meson converse_rtranclp_into_rtranclp rtranclp.rtrancl_refl)
  moreover have "after_power_failure ?s4 (d_manifest d) None (d_image d1)"
    by (simp add: after_power_failure_def publish_recovery_def Let_def dur_start_def)
  moreover have "map (\<lambda>(s, n). (s * 512, n * 512)) (rc_extents rec) = [(1024, 1024)]" using assms(2) by simp
  ultimately show ?thesis by (metis (no_types, lifting))
qed

definition sample_recovery :: recovery_rec where
  "sample_recovery = \<lparr>rc_gap_seq = 5, rc_extents = [(2, 2)], rc_started = 1\<rparr>"

theorem finished_recovery_durable_witness:
  "\<exists>s m img. (dur_step no_fallocate sample_dev)\<^sup>*\<^sup>*
      (dur_start (Rec_At (map (\<lambda>(s, n). (s * 512, n * 512)) (rc_extents sample_recovery)))
        (sample_daemon\<lparr>d_dir := sample_dir\<lparr>nd_recovery := Some sample_recovery\<rparr>\<rparr>)) s \<and>
    after_power_failure s m None img \<and> img 1500 = sample_dev 1500"
proof -
  let ?d = "sample_daemon\<lparr>d_dir := sample_dir\<lparr>nd_recovery := Some sample_recovery\<rparr>\<rparr>"
  have es: "rc_extents sample_recovery = [(2, 2)]" by (simp add: sample_recovery_def)
  obtain s m img where s: "(dur_step no_fallocate sample_dev)\<^sup>*\<^sup>*
      (dur_start (Rec_At (map (\<lambda>(s, n). (s * 512, n * 512)) (rc_extents sample_recovery))) ?d) s" "after_power_failure s m None img"
    using sample_recovery_run [OF refl es] by (elim exE conjE)
  have d: "wf_daemon ?d" "nd_recovery (d_dir ?d) = Some sample_recovery" "1500 < d_size ?d"
    using sample_daemon_ok(1) by (simp_all add: wf_daemon_def sample_daemon_size)
  have "None = Some sample_recovery \<or> img 1500 = sample_dev 1500"
    by (rule finished_recovery_durable [OF d(1,2) s, of 2 2]) (use d(3) es in simp_all)
  with s show ?thesis by blast
qed

end
