(* ===== verification/Lifecycle.thy ===== *)
theory Lifecycle
  imports Main_Loop
begin

text \<open>
  The life of the process in \<^verbatim>\<open>rkcdp/rkcdpd.py\<close>: \<^verbatim>\<open>boot_id\<close>, the signal handler, the status thread,
  the end of \<^verbatim>\<open>Daemon.main\<close> and the whole program, and what a stop followed by a restart keeps.

  The flag \<^verbatim>\<open>stop\<close> ends the main loop after the turn it is in, so a run is a finite list of turns.
  The copy threads are told by the same flag, but a chunk that is on its way still lands, and a
  thread that has looked at the flag for the last time still completes; what each has left to do is
  part of the environment. A thread that does not end within the 30 seconds that \<^verbatim>\<open>main\<close> waits for it
  ends after the last status has been written: the threads are not daemon threads, so the process
  waits for them.
\<close>

definition boot_id :: "string option \<Rightarrow> string option" where
  "boot_id proc_file = map_option py_strip proc_file"

definition on_sig :: "bool \<Rightarrow> bool" where
  "on_sig stop = True"

subsection \<open>The status thread\<close>

text \<open>One turn writes \<^verbatim>\<open>status.json\<close>, or leaves it as it is when \<^verbatim>\<open>write_status\<close> raises.\<close>

record status_turn =
  tn_status :: bytes
  tn_time :: rat
  tn_daemon :: daemon

definition status_step :: "string \<Rightarrow> status_turn \<Rightarrow> status_json option \<Rightarrow> status_json option" where
  "status_step node t old =
     (case write_status (tn_status t) node (tn_time t) (tn_daemon t) of Inl _ \<Rightarrow> old | Inr j \<Rightarrow> Some j)"

definition status_loop :: "string \<Rightarrow> status_turn list \<Rightarrow> status_json option \<Rightarrow> status_json option" where
  "status_loop node turns old = fold (status_step node) turns old"

subsection \<open>The end of the main thread\<close>

text \<open>Where a copy thread is when \<^verbatim>\<open>stop\<close> is set: before its last look at the flag, with the chunk that
  is in flight, its offset and the bytes read from the device, if there is one; or past that look.\<close>

datatype thread_rest = Stopping "(nat \<times> bytes) option" | Past_Check

record stop_env =
  se_base :: thread_rest
  se_base_joined :: bool
  se_base_seq :: nat           \<comment> \<open>\<^verbatim>\<open>seq_next\<close> and the clock, for a base copy that completes\<close>
  se_base_time :: rat
  se_recovery :: thread_rest
  se_recovery_joined :: bool
  se_status :: bytes
  se_time :: rat

text \<open>The part of \<^verbatim>\<open>copy_chunk\<close> after the read.\<close>

definition finish_chunk :: "fallocate_call \<Rightarrow> bytes option \<Rightarrow> nat \<times> bytes \<Rightarrow> daemon \<Rightarrow> daemon result" where
  "finish_chunk fa skip_zero = (\<lambda>(off, buf) d.
     bind_result (copy_land buf off skip_zero d) (\<lambda>d1.
       (let (late, d2) = copy_unflag d1 in fold_result (apply_one fa) late d2)))"

definition finish_rest :: "fallocate_call \<Rightarrow> bytes option \<Rightarrow> (nat \<times> bytes) option \<Rightarrow> daemon \<Rightarrow> daemon result" where
  "finish_rest fa skip_zero chunk d = (case chunk of None \<Rightarrow> Inr d | Some c \<Rightarrow> finish_chunk fa skip_zero c d)"

text \<open>What is left to do for each copy thread. An exception ends the thread where it is; what the
  chunk had changed before it is not kept.\<close>

definition end_base :: "fallocate_call \<Rightarrow> stop_env \<Rightarrow> daemon \<Rightarrow> daemon" where
  "end_base fa env d =
     (case se_base env of
        Stopping chunk \<Rightarrow>
          (case finish_rest fa (Some (replicate COPY_CHUNK 0)) chunk d of
             Inl _ \<Rightarrow> d\<lparr>d_base_running := False\<rparr>
           | Inr d1 \<Rightarrow> d1\<lparr>d_base_progress := None, d_base_running := False\<rparr>)
      | Past_Check \<Rightarrow>
          (set_manifest ((d_manifest d)\<lparr>mf_base_end_seq := Some (se_base_seq env), mf_base_time := Some (se_base_time env)\<rparr>) d)
            \<lparr>d_base_progress := None, d_base_running := False\<rparr>)"

definition end_recovery :: "fallocate_call \<Rightarrow> stop_env \<Rightarrow> daemon \<Rightarrow> daemon" where
  "end_recovery fa env d =
     (case se_recovery env of
        Stopping chunk \<Rightarrow>
          (case finish_rest fa None chunk d of Inl _ \<Rightarrow> d\<lparr>d_recovery := None\<rparr> | Inr d1 \<Rightarrow> d1\<lparr>d_recovery := None\<rparr>)
      | Past_Check \<Rightarrow> d\<lparr>d_recovery := None, d_dir := (d_dir d)\<lparr>nd_recovery := None\<rparr>\<rparr>)"

definition join_base :: "fallocate_call \<Rightarrow> stop_env \<Rightarrow> bool \<Rightarrow> daemon \<Rightarrow> daemon" where
  "join_base fa env ended d = (if d_base_running d \<and> ended then end_base fa env d else d)"

definition join_recovery :: "fallocate_call \<Rightarrow> stop_env \<Rightarrow> bool \<Rightarrow> daemon \<Rightarrow> daemon" where
  "join_recovery fa env ended d = (if recovery_active d \<and> ended then end_recovery fa env d else d)"

text \<open>The two joins, the last status, and the end of the process, which waits for the threads that are left.\<close>

definition main_stop :: "fallocate_call \<Rightarrow> stop_env \<Rightarrow> string \<Rightarrow> daemon \<Rightarrow> (daemon \<times> status_json) result" where
  "main_stop fa env node d =
     (let d1 = join_recovery fa env (se_recovery_joined env) (join_base fa env (se_base_joined env) d) in
      bind_result (write_status (se_status env) node (se_time env) d1) (\<lambda>j.
        Inr (join_recovery fa env True (join_base fa env True d1), j)))"

text \<open>\<^verbatim>\<open>Daemon.main\<close>: the start, the turns until \<^verbatim>\<open>stop\<close> is seen, the end.\<close>

definition daemon_main ::
  "fallocate_call \<Rightarrow> rat \<Rightarrow> iter_env list \<Rightarrow> stop_env \<Rightarrow> string \<Rightarrow> daemon \<Rightarrow> (daemon \<times> status_json) result" where
  "daemon_main fa now envs env node d =
     bind_result (main_loop fa envs (main_start now d)) (\<lambda>ms. main_stop fa env node (ms_daemon ms))"

text \<open>The program: \<^verbatim>\<open>Daemon(load_conf()).main()\<close>.\<close>

definition rkcdpd ::
  "'w exec \<Rightarrow> ('w \<Rightarrow> string \<Rightarrow> string) \<Rightarrow> nat \<Rightarrow> node_dir \<Rightarrow> sfile option \<Rightarrow> bytes \<Rightarrow> string option \<Rightarrow> string \<Rightarrow>
   (string \<times> jval) list option \<Rightarrow> fallocate_call \<Rightarrow> rat \<Rightarrow> iter_env list \<Rightarrow> stop_env \<Rightarrow> ('w, daemon \<times> status_json) io" where
  "rkcdpd exec realpath blk dir raw st_buf proc_file hostname conf_file fa now envs env =
     (let conf = load_conf hostname conf_file in
      io_bind (Daemon_init exec realpath blk dir raw st_buf (boot_id proc_file) conf) (\<lambda>d.
      io_bind (io_lift (conf_str conf ''node'')) (\<lambda>node.
        io_lift (daemon_main fa now envs env node d))))"

subsection \<open>Lemmas\<close>

text \<open>The ends above are those of the threads: a chunk in flight is a \<^verbatim>\<open>copy_chunk\<close> that has read the
  device, a thread at rest is one that sees the flag at once, and one past the last look is one
  that is not told to stop and has nothing to copy.\<close>

lemma copy_chunk_finish:
  "copy_chunk fa dev dsz off n skip_zero d =
    bind_result (finish_chunk fa skip_zero (off, dev_read dev dsz off n) (copy_flag off n d))
      (\<lambda>d'. Inr (length (dev_read dev dsz off n), d'))"
  by (simp add: copy_chunk_def finish_chunk_def copy_unflag_def Let_def bind_result_def split: sum.splits)

lemma end_is_the_thread:
  "se_base env = Stopping None \<Longrightarrow> base_copy fa dev dsz (\<lambda>_. True) st now d = Inr (end_base fa env d)"
  "se_recovery env = Stopping None \<Longrightarrow> recover fa dev dsz (\<lambda>_. True) rec d = Inr (end_recovery fa env d)"
  "se_recovery env = Past_Check \<Longrightarrow> rc_extents rec = [] \<Longrightarrow> recover fa dev dsz (\<lambda>_. False) rec d = Inr (end_recovery fa env d)"
  by (simp_all add: base_copy_stopped recover_stopped end_base_def end_recovery_def finish_rest_def recover_def)

text \<open>What fits into the replica of what is left, and which bytes it may still write.\<close>

definition thread_chunk :: "thread_rest \<Rightarrow> (nat \<times> bytes) option" where
  "thread_chunk t = (case t of Stopping c \<Rightarrow> c | Past_Check \<Rightarrow> None)"

definition chunk_fits :: "nat \<Rightarrow> (nat \<times> bytes) option \<Rightarrow> bool" where
  "chunk_fits sz chunk \<longleftrightarrow> (case chunk of None \<Rightarrow> True | Some (off, buf) \<Rightarrow> off + length buf \<le> sz \<and> length buf \<le> COPY_CHUNK)"

definition still_fits :: "stop_env \<Rightarrow> daemon \<Rightarrow> bool" where
  "still_fits env d \<longleftrightarrow> chunk_fits (d_size d) (thread_chunk (se_base env)) \<and>
     chunk_fits (d_size d) (thread_chunk (se_recovery env)) \<and> list_all (fits (d_size d)) (d_deferred d)"

definition in_chunk :: "(nat \<times> bytes) option \<Rightarrow> nat \<Rightarrow> bool" where
  "in_chunk chunk x \<longleftrightarrow> (case chunk of None \<Rightarrow> False | Some (off, buf) \<Rightarrow> off \<le> x \<and> x < off + length buf)"

definition still_written :: "stop_env \<Rightarrow> daemon \<Rightarrow> nat \<Rightarrow> bool" where
  "still_written env d x \<longleftrightarrow> d_base_running d \<and> in_chunk (thread_chunk (se_base env)) x \<or>
     recovery_active d \<and> in_chunk (thread_chunk (se_recovery env)) x \<or> (\<exists>e \<in> set (d_deferred d). entry_touches e x)"

lemma apply_all_deferred:
  assumes "fold_result (apply_one fa) es d = Inr d'" and "d_copying d = None"
  shows "d_deferred d' = d_deferred d"
proof -
  have "d_copying t = None \<and> d_deferred t = d_deferred d"
    if "d_copying u = None \<and> d_deferred u = d_deferred d" "apply_one fa e u = Inr t" for e u t
    using that by (cases e) (auto simp: apply_one_def in_flight_def bind_result_Inr_iff)
  from fold_result_invariant [where P = "\<lambda>u. d_copying u = None \<and> d_deferred u = d_deferred d", OF this assms(1)] assms(2)
  show ?thesis by simp
qed

lemma finish_rest_ok:
  assumes "punches_holes fa" "wf_daemon d" "chunk_fits (d_size d) chunk" "list_all (fits (d_size d)) (d_deferred d)"
  shows "\<exists>d'. finish_rest fa skip chunk d = Inr d' \<and> wf_daemon d' \<and> d_size d' = d_size d \<and> d_dir d' = d_dir d \<and>
    d_base_running d' = d_base_running d \<and> d_recovery d' = d_recovery d \<and> d_manifest d' = d_manifest d \<and>
    set (d_deferred d') \<subseteq> set (d_deferred d) \<and>
    (\<forall>x. \<not> in_chunk chunk x \<longrightarrow> (\<forall>e \<in> set (d_deferred d). \<not> entry_touches e x) \<longrightarrow> d_image d' x = d_image d x)"
proof (cases chunk)
  case None
  with assms(2) show ?thesis by (simp add: finish_rest_def)
next
  case (Some c)
  then obtain off buf where c: "chunk = Some (off, buf)" by (cases c) auto
  with assms(3) have len: "off + length buf \<le> d_size d" "length buf \<le> RW_MAX"
    by (simp_all add: chunk_fits_def COPY_CHUNK_def RW_MAX_def)
  obtain rp where rp: "copy_land buf off skip d = Inr (d\<lparr>d_replica := rp\<rparr>)" "wf_replica (d_size d) rp"
      "\<forall>x. \<not> in_chunk chunk x \<longrightarrow> f_dat (rp_file rp) x = d_image d x"
  proof (cases "buf \<noteq> [] \<and> \<not> (case skip of None \<Rightarrow> False | Some z \<Rightarrow> buf = take (length buf) z)")
    case True
    obtain rp where "rp_pwrite buf off (d_replica d) = Inr rp" "wf_replica (d_size d) rp"
        "f_dat (rp_file rp) = img_write (d_image d) off buf"
      using rp_pwrite_step [of "d_size d" "d_replica d" off buf] assms(2) len by (auto simp: wf_daemon_def)
    with True that [of rp] c show ?thesis by (auto simp: copy_land_def in_chunk_def img_write_def)
  next
    case False
    then have "copy_land buf off skip d = Inr (d\<lparr>d_replica := d_replica d\<rparr>)" by (auto simp: copy_land_def)
    with that [of "d_replica d"] assms(2) show ?thesis by (simp add: wf_daemon_def)
  qed
  let ?u = "d\<lparr>d_replica := rp, d_copying := None, d_deferred := []\<rparr>"
  have "wf_daemon ?u" "d_copying ?u = None" "list_all (fits (d_size ?u)) (d_deferred d)"
    using rp(2) assms(4) by (simp_all add: wf_daemon_def)
  from apply_all_idle [OF assms(1) this] obtain d' where
    d': "fold_result (apply_one fa) (d_deferred d) ?u = Inr d'" "wf_daemon d'" "same_control ?u d'"
      "d_image d' = fold entry_effect (d_deferred d) (d_image ?u)" by blast
  have "finish_rest fa skip chunk d = Inr d'"
    using c rp(1) d'(1) by (simp add: finish_rest_def finish_chunk_def copy_unflag_def)
  with d'(2-4) apply_all_deferred [OF d'(1)] rp(3) show ?thesis
    by (auto simp: same_control_def same_settings_def fold_effect_untouched)
qed

text \<open>The state on the way to the end of the process.\<close>

definition ends_from :: "stop_env \<Rightarrow> daemon \<Rightarrow> daemon \<Rightarrow> bool" where
  "ends_from env d0 d \<longleftrightarrow> wf_daemon d \<and> d_size d = d_size d0 \<and> set (d_deferred d) \<subseteq> set (d_deferred d0) \<and>
     (\<exists>mf. d_dir d = (d_dir d0)\<lparr>nd_manifest := mf\<rparr> \<and> (se_base env \<noteq> Past_Check \<longrightarrow> mf = nd_manifest (d_dir d0))) \<and>
     (d_base_running d \<longrightarrow> d_base_running d0) \<and> (recovery_active d \<longrightarrow> recovery_active d0) \<and>
     (\<forall>x. \<not> still_written env d0 x \<longrightarrow> d_image d x = d_image d0 x)"

lemma join_base_step:
  assumes "ends_from env d0 d" "punches_holes fa" "still_fits env d0"
  shows "ends_from env d0 (join_base fa env k d)"
proof (cases "d_base_running d \<and> k")
  case True
  have pre: "wf_daemon d" "chunk_fits (d_size d) (thread_chunk (se_base env))" "list_all (fits (d_size d)) (d_deferred d)" "d_base_running d0"
    using assms(1,3) True by (auto simp: ends_from_def still_fits_def list_all_iff)
  show ?thesis
  proof (cases "se_base env")
    case (Stopping chunk)
    with pre finish_rest_ok [OF assms(2) pre(1-3), of "Some (replicate COPY_CHUNK 0)"] obtain d' where
      d': "finish_rest fa (Some (replicate COPY_CHUNK 0)) chunk d = Inr d'" "wf_daemon d'" "d_size d' = d_size d" "d_dir d' = d_dir d"
        "d_base_running d' = d_base_running d" "d_recovery d' = d_recovery d" "set (d_deferred d') \<subseteq> set (d_deferred d)"
        "\<forall>x. \<not> in_chunk chunk x \<longrightarrow> (\<forall>e \<in> set (d_deferred d). \<not> entry_touches e x) \<longrightarrow> d_image d' x = d_image d x"
      by (auto simp: thread_chunk_def)
    have "d_image d' x = d_image d0 x" if "\<not> still_written env d0 x" for x
      using d'(8) that assms(1) pre(4) Stopping by (force simp: ends_from_def still_written_def thread_chunk_def)
    with d' assms(1) True Stopping show ?thesis
      by (auto simp: join_base_def end_base_def ends_from_def wf_daemon_def recovery_active_def)
  next
    case Past_Check
    with True assms(1) show ?thesis
      by (auto simp: join_base_def end_base_def ends_from_def wf_daemon_def recovery_active_def set_manifest_def)
  qed
qed (use assms(1) in \<open>auto simp: join_base_def\<close>)

lemma join_recovery_step:
  assumes "ends_from env d0 d" "punches_holes fa" "still_fits env d0" "recovery_active d0 \<longrightarrow> se_recovery env \<noteq> Past_Check"
  shows "ends_from env d0 (join_recovery fa env k d)"
proof (cases "recovery_active d \<and> k")
  case True
  have pre: "wf_daemon d" "chunk_fits (d_size d) (thread_chunk (se_recovery env))" "list_all (fits (d_size d)) (d_deferred d)" "recovery_active d0"
    using assms(1,3) True by (auto simp: ends_from_def still_fits_def list_all_iff)
  with assms(4) obtain chunk where Stopping: "se_recovery env = Stopping chunk" by (cases "se_recovery env") auto
  with pre finish_rest_ok [OF assms(2) pre(1-3), of None] obtain d' where
    d': "finish_rest fa None chunk d = Inr d'" "wf_daemon d'" "d_size d' = d_size d" "d_dir d' = d_dir d"
      "d_base_running d' = d_base_running d" "set (d_deferred d') \<subseteq> set (d_deferred d)"
      "\<forall>x. \<not> in_chunk chunk x \<longrightarrow> (\<forall>e \<in> set (d_deferred d). \<not> entry_touches e x) \<longrightarrow> d_image d' x = d_image d x"
    by (auto simp: thread_chunk_def)
  have "d_image d' x = d_image d0 x" if "\<not> still_written env d0 x" for x
    using d'(7) that assms(1) pre(4) Stopping by (force simp: ends_from_def still_written_def thread_chunk_def)
  with d' assms(1) True Stopping show ?thesis
    by (auto simp: join_recovery_def end_recovery_def ends_from_def wf_daemon_def recovery_active_def)
qed (use assms(1) in \<open>auto simp: join_recovery_def\<close>)

lemma main_stop_result:
  assumes "main_stop fa env node d = Inr (d', j)" "punches_holes fa" "wf_daemon d" "still_fits env d"
    and "recovery_active d \<longrightarrow> se_recovery env \<noteq> Past_Check"
  shows "ends_from env d d'"
proof -
  have "d_dir d = (d_dir d)\<lparr>nd_manifest := nd_manifest (d_dir d)\<rparr>" by simp
  then have "ends_from env d d" using assms(3) unfolding ends_from_def by blast
  note steps = join_base_step [OF _ assms(2,4)] join_recovery_step [OF _ assms(2,4,5)]
  from \<open>ends_from env d d\<close> show ?thesis
    using assms(1) by (auto simp: main_stop_def bind_result_Inr_iff Let_def intro!: steps)
qed

lemma main_stop_ok: "status (se_status env) = Inr st \<Longrightarrow> \<exists>d1 j. main_stop fa env node d = Inr (d1, j)"
  by (simp add: main_stop_def write_status_def Let_def)

lemma status_loop_Cons [simp]:
  "status_loop node (t # ts) old = status_loop node ts (status_step node t old)"
  by (simp add: status_loop_def)

lemma Replica_init_file:
  "Replica_init blk raw seed_raw sz = Inr rp \<Longrightarrow> rp_file rp = (case raw of None \<Rightarrow> os_truncated blk sz | Some f \<Rightarrow> f)"
  by (auto simp: Replica_init_def bind_result_Inr_iff Let_def split: option.splits)

text \<open>A daemon that is started again on the files of another.\<close>

lemma restarted:
  assumes "Daemon_init exec realpath blk dir (Some f) st_buf boot conf w = (Inr d, w')" and "0 < blk"
    and "wf_file f" and "f_size f = d_size d" and "seed_raw_ok (d_size d) dir"
  shows "wf_daemon d \<and> d_copying d = None \<and> d_image d = f_dat f \<and> nd_recovery (d_dir d) = nd_recovery dir"
proof -
  have d: "Replica_init blk (Some f) (nd_seed_raw dir) (d_size d) = Inr (d_replica d)" "d_copying d = None"
      "d_dir d = dir\<lparr>nd_manifest := Some (d_manifest d)\<rparr>"
    using Daemon_init_result [OF assms(1)] by auto
  have "wf_replica (d_size d) (d_replica d)"
    using Replica_init_wf [OF d(1) assms(2)] assms(3-5) by (auto simp: seed_raw_ok_def split: option.splits)
  moreover have "rp_file (d_replica d) = f"
    using Replica_init_file [OF d(1)] by simp
  ultimately show ?thesis using d by (simp add: wf_daemon_def)
qed

lemma main_start_recovery:
  "nd_recovery (d_dir d) = Some rec \<Longrightarrow>
    d_recovery (ms_daemon (main_start now d)) = Some rec \<and> d_image (ms_daemon (main_start now d)) = d_image d \<and>
    d_size (ms_daemon (main_start now d)) = d_size d \<and> d_copying (ms_daemon (main_start now d)) = d_copying d \<and>
    (wf_daemon (ms_daemon (main_start now d)) \<longleftrightarrow> wf_daemon d)"
  by (simp add: main_start_def wf_daemon_def Let_def)

subsection \<open>Properties\<close>

text \<open>
  (C11) An interrupted recovery is not lost: when the daemon is stopped while the extents of a
  recovery are on disk and its thread has not come to its end, the next daemon on the same
  directory takes up exactly that recovery, and running it to the end makes every byte of the
  extents equal to the disk and leaves the others as the stop left them, however far the interrupted
  one had come. The stop itself leaves every byte alone but those of a chunk that was in flight and
  of the records that waited for it.
\<close>

theorem restart_redoes_recovery:
  assumes "main_stop fa0 env node d = Inr (d1, j)" and "punches_holes fa0" and "wf_daemon d" and "still_fits env d"
    and "nd_recovery (d_dir d) = Some rec" and "recovery_active d \<longrightarrow> se_recovery env \<noteq> Past_Check"
    and "Daemon_init exec realpath blk (d_dir d1) (Some (rp_file (d_replica d1))) st_buf boot conf w = (Inr d2, w')"
    and "d_size d2 = d_size d" and "0 < blk" and "seed_raw_ok (d_size d) (d_dir d)"
  shows "d_recovery (ms_daemon (main_start now d2)) = Some rec \<and>
    (\<exists>d3. recover fa dev (d_size d) (\<lambda>_. False) rec (ms_daemon (main_start now d2)) = Inr d3 \<and>
      nd_recovery (d_dir d3) = None \<and>
      (\<forall>x < d_size d. d_image d3 x =
        (if \<exists>(s, n) \<in> set (rc_extents rec). s * 512 \<le> x \<and> x < s * 512 + n * 512 then dev x else d_image d1 x))) \<and>
    (\<forall>x. \<not> still_written env d x \<longrightarrow> d_image d1 x = d_image d x)"
proof -
  have d1: "ends_from env d d1" by (rule main_stop_result [OF assms(1-4,6)])
  have "wf_daemon d2 \<and> d_copying d2 = None \<and> d_image d2 = f_dat (rp_file (d_replica d1)) \<and>
      nd_recovery (d_dir d2) = nd_recovery (d_dir d1)"
    by (rule restarted [OF assms(7,9)]) (use assms(8,10) d1 in \<open>auto simp: ends_from_def wf_daemon_def wf_replica_def seed_raw_ok_def\<close>)
  then have d2: "wf_daemon d2" "d_copying d2 = None" "d_image d2 = d_image d1" "nd_recovery (d_dir d2) = Some rec"
    using d1 assms(5) by (auto simp: ends_from_def)
  let ?e = "ms_daemon (main_start now d2)"
  have e: "d_recovery ?e = Some rec" "d_image ?e = d_image d1" "wf_daemon ?e" "d_size ?e = d_size d" "d_copying ?e = None"
    using main_start_recovery [OF d2(4), of now] d2(1-3) assms(8) by auto
  from recover_extents_image [OF e(3-5), of fa dev "rc_extents rec" 0] obtain t d3 where
    "fold_result (recover_step fa dev (d_size d) (\<lambda>_. False)) (rc_extents rec) (0, ?e) = Inr (t, d3)"
    "\<forall>x. d_image d3 x = (if x < d_size d \<and> (\<exists>(s, n) \<in> set (rc_extents rec). s * 512 \<le> x \<and> x < s * 512 + n * 512)
      then dev x else d_image ?e x)" by blast
  with e d1 show ?thesis by (auto simp: recover_def ends_from_def)
qed

text \<open>A stop with a chunk of the recovery in flight.\<close>

definition stopping :: stop_env where
  "stopping = \<lparr>se_base = Stopping None, se_base_joined = True, se_base_seq = 0, se_base_time = 0,
     se_recovery = Stopping (Some (1024, [7, 7])), se_recovery_joined = True, se_status = sample_status_bytes, se_time = 8\<rparr>"

definition recovering_daemon :: daemon where
  "recovering_daemon = sample_daemon\<lparr>d_recovery := Some \<lparr>rc_gap_seq = 5, rc_extents = [(2, 2)], rc_started = 1\<rparr>,
     d_dir := sample_dir\<lparr>nd_recovery := Some \<lparr>rc_gap_seq = 5, rc_extents = [(2, 2)], rc_started = 1\<rparr>\<rparr>\<rparr>"

lemma restart_sample:
  "\<exists>d2. Daemon_init wrapped_exec (\<lambda>_ p. p) 4096 (d_dir recovering_daemon) (Some f) sample_status_bytes None
    (load_conf ''n1'' None) () = (Inr d2, ())"
proof -
  have "get_or ((load_conf ''n1'' None)(''device'' \<mapsto> JStr ''/dev/8:16'')) ''consistent_sec'' (JNum 3600) = JNum 3600"
      "get_or ((load_conf ''n1'' None)(''device'' \<mapsto> JStr ''/dev/8:16'')) ''freeze_cap_sec'' (JNum 30) = JNum 30"
    by (auto simp: get_or_def load_conf_def)
  then show ?thesis
    by (intro Daemon_init_steps [OF sample_target _ _ _ sample_status_read])
      (simp_all add: recovering_daemon_def sample_dir_def initial_manifest_def conf_str_def Replica_init_def load_conf_def)
qed

lemma restart_sample_size:
  "Daemon_init wrapped_exec (\<lambda>_ p. p) 4096 dir raw sample_status_bytes None conf () = (Inr d2, w') \<Longrightarrow> d_size d2 = 2048"
  using Daemon_init_result [of wrapped_exec "\<lambda>_ p. p" 4096 dir raw sample_status_bytes None conf "()" d2 w'] sample_status_read
  by (auto simp: sample_status_def)

lemma recovering_daemon_ok:
  "wf_daemon recovering_daemon" "nd_recovery (d_dir recovering_daemon) = Some \<lparr>rc_gap_seq = 5, rc_extents = [(2, 2)], rc_started = 1\<rparr>"
  "d_size recovering_daemon = 2048" "seed_raw_ok (d_size recovering_daemon) (d_dir recovering_daemon)"
  "d_image recovering_daemon = (\<lambda>_. 0)" "still_fits stopping recovering_daemon"
  "still_written stopping recovering_daemon x \<Longrightarrow> 1024 \<le> x \<and> x < 2048"
  using sample_daemon_ok(1) sample_daemon_size
  by (simp_all add: recovering_daemon_def wf_daemon_def seed_raw_ok_def sample_dir_def still_fits_def stopping_def thread_chunk_def
      chunk_fits_def still_written_def in_chunk_def COPY_CHUNK_def sample_daemon_def)

theorem restart_redoes_recovery_witness:
  "\<exists>d1 j d2 d3. main_stop no_fallocate stopping ''n1'' recovering_daemon = Inr (d1, j) \<and>
    Daemon_init wrapped_exec (\<lambda>_ p. p) 4096 (d_dir d1) (Some (rp_file (d_replica d1))) sample_status_bytes None
      (load_conf ''n1'' None) () = (Inr d2, ()) \<and>
    recover no_fallocate sample_dev 2048 (\<lambda>_. False) \<lparr>rc_gap_seq = 5, rc_extents = [(2, 2)], rc_started = 1\<rparr>
      (ms_daemon (main_start 9 d2)) = Inr d3 \<and>
    (\<forall>x < 2048. d_image d3 x = (if 1024 \<le> x \<and> x < 2048 then sample_dev x else 0))"
proof -
  note d = recovering_daemon_ok
  obtain d1 j where stop: "main_stop no_fallocate stopping ''n1'' recovering_daemon = Inr (d1, j)"
    using main_stop_ok [of stopping sample_status no_fallocate "''n1''" recovering_daemon] sample_status_read by (auto simp: stopping_def)
  have ok: "recovery_active recovering_daemon \<longrightarrow> se_recovery stopping \<noteq> Past_Check" by (simp add: stopping_def)
  have "d_dir d1 = d_dir recovering_daemon"
    using main_stop_result [OF stop sample_rp_ok(1) d(1,6) ok] by (auto simp: ends_from_def stopping_def)
  then obtain d2 where init: "Daemon_init wrapped_exec (\<lambda>_ p. p) 4096 (d_dir d1) (Some (rp_file (d_replica d1))) sample_status_bytes None
      (load_conf ''n1'' None) () = (Inr d2, ())" using restart_sample by auto
  have "d_size d2 = d_size recovering_daemon" using restart_sample_size [OF init] d(3) by simp
  note redo = restart_redoes_recovery [OF stop sample_rp_ok(1) d(1,6,2) ok init this _ d(4), of 9 no_fallocate sample_dev, simplified]
  then have "d_image d1 x = 0" if "x < 1024" for x using that d(5) d(7) [of x] by auto
  with redo d(3) stop init show ?thesis by auto
qed

text \<open>
  A gap whose recovery has not begun is forgotten: it is kept in memory only, so the next daemon
  has an empty queue and, with no recovery on disk, starts none.
\<close>

theorem restart_forgets_queue:
  assumes "Daemon_init exec realpath blk dir raw st_buf boot conf w = (Inr d2, w')" and "nd_recovery dir = None"
  shows "d_recovery_queue (ms_daemon (main_start now d2)) = [] \<and> d_recovery (ms_daemon (main_start now d2)) = None"
proof -
  have "d_recovery_queue d2 = []" "d_recovery d2 = None" "nd_recovery (d_dir d2) = None"
    using Daemon_init_result [OF assms(1)] assms(2) by auto
  then show ?thesis by (simp add: main_start_def Let_def)
qed

text \<open>
  A reboot is not noticed: the ring and the bitmap of the last boot are gone with what was in them, but a
  daemon that finds a recorded base starts neither a base copy nor a recovery, whatever the boot
  it runs in, and reports \<^verbatim>\<open>CDP\<close> at once.
\<close>

theorem reboot_not_noticed:
  assumes "Daemon_init exec realpath blk dir raw st_buf boot conf w = (Inr d2, w')" and "nd_manifest dir = Some m"
    and "mf_base_end_seq m \<noteq> None" and "nd_recovery dir = None" and "\<not> nd_lock dir" and "s_flags st = 0"
  shows "\<not> d_base_running (ms_daemon (main_start now d2)) \<and> d_recovery (ms_daemon (main_start now d2)) = None \<and>
    daemon_state st (ms_daemon (main_start now d2)) = CDP"
proof -
  have d2: "d_recovery_queue d2 = []" "d_recovery d2 = None" "\<not> d_base_running d2" "d_base_progress d2 = None" "d_manifest d2 = m"
      "d_seed_required d2 \<longrightarrow> mf_base_end_seq m = None" "d_dir d2 = dir\<lparr>nd_manifest := Some m\<rparr>"
    using Daemon_init_result [OF assms(1)] assms(2) by auto
  then have "main_start now d2 = \<lparr>ms_daemon = d2, ms_pending = [], ms_last_cycle = now, ms_last_node = 0, ms_node = None, ms_trace = []\<rparr>"
    using assms(3,4) by (simp add: main_start_def)
  with d2 assms(3,5,6) show ?thesis by (simp add: daemon_state_def recovery_active_def)
qed

text \<open>
  The status thread outlives errors: after any number of turns the file holds what the last turn
  that could be carried out wrote, and turns that raise leave it alone.
\<close>

theorem status_loop_last:
  assumes "write_status (tn_status t) node (tn_time t) (tn_daemon t) = Inr j"
    and "\<forall>u \<in> set later. \<exists>e. write_status (tn_status u) node (tn_time u) (tn_daemon u) = Inl e"
  shows "status_loop node (earlier @ t # later) old = Some j"
proof -
  have "fold (status_step node) later (Some j) = Some j"
    using assms(2) by (induction later) (auto simp: status_step_def)
  with assms(1) show ?thesis by (simp add: status_loop_def status_step_def)
qed

end
