(* ===== verification/Json_Files.thy ===== *)
theory Json_Files
  imports Cdp_Prelude
begin

text \<open>
  \<^verbatim>\<open>write_json\<close> of \<^verbatim>\<open>rkcdpd.py\<close> and of \<^verbatim>\<open>rkcdp-seed.py\<close>: a file is written under a temporary name and
  renamed over the old one. The daemon forces the data to disk before the rename, the seed tool
  does not. The steps are taken one at a time, so that another program may look, or the power
  fail, between any two of them.

  A name leads to an inode with its data and whether that data is on the medium. After a power
  failure the directory is the one of some moment up to the failure, and the data of an inode that
  was not forced out is arbitrary.
\<close>

record inode =
  i_data :: string
  i_synced :: bool

type_synonym names = "string \<rightharpoonup> inode"

subsection \<open>Writing\<close>

definition open_tmp :: "string \<Rightarrow> names \<Rightarrow> names" where
  "open_tmp p m = m(p \<mapsto> \<lparr>i_data = [], i_synced = False\<rparr>)"

definition append_data :: "string \<Rightarrow> string \<Rightarrow> names \<Rightarrow> names" where
  "append_data p s m = m(p := map_option (\<lambda>i. \<lparr>i_data = i_data i @ s, i_synced = False\<rparr>) (m p))"

definition fsync_file :: "string \<Rightarrow> names \<Rightarrow> names" where
  "fsync_file p m = m(p := map_option (\<lambda>i. i\<lparr>i_synced := True\<rparr>) (m p))"

definition os_replace :: "string \<Rightarrow> string \<Rightarrow> names \<Rightarrow> names" where
  "os_replace p q m = (m(q := m p))(p := None)"

text \<open>\<open>pieces\<close> are the buffers that \<^verbatim>\<open>json.dump\<close> and the flush write out.\<close>

definition write_json :: "string \<Rightarrow> string list \<Rightarrow> (names \<Rightarrow> names) list" where
  "write_json path pieces =
     (let tmp = path @ ''.tmp'' in
      open_tmp tmp # map (append_data tmp) pieces @ [fsync_file tmp, os_replace tmp path])"

definition seed_write_json :: "string \<Rightarrow> string list \<Rightarrow> (names \<Rightarrow> names) list" where
  "seed_write_json path pieces =
     (let tmp = path @ ''.tmp'' in
      open_tmp tmp # map (append_data tmp) pieces @ [os_replace tmp path])"

text \<open>The state after the first \<open>k\<close> steps, what a program reads in it, and what may be read after a
  power failure at that moment.\<close>

definition run_steps :: "(names \<Rightarrow> names) list \<Rightarrow> nat \<Rightarrow> names \<Rightarrow> names" where
  "run_steps steps k m = fold (\<lambda>f. f) (take k steps) m"

definition reads :: "names \<Rightarrow> string \<Rightarrow> string option" where
  "reads m p = map_option i_data (m p)"

definition survives :: "names \<Rightarrow> string \<Rightarrow> string option \<Rightarrow> bool" where
  "survives m p r \<longleftrightarrow>
     (case m p of None \<Rightarrow> r = None | Some i \<Rightarrow> (if i_synced i then r = Some (i_data i) else r \<noteq> None))"

definition after_crash :: "(names \<Rightarrow> names) list \<Rightarrow> nat \<Rightarrow> names \<Rightarrow> string \<Rightarrow> string option \<Rightarrow> bool" where
  "after_crash steps k m p r \<longleftrightarrow> (\<exists>j \<le> k. survives (run_steps steps j m) p r)"

subsection \<open>Lemmas\<close>

lemma run_all: "length steps \<le> k \<Longrightarrow> run_steps steps k m = fold (\<lambda>f. f) steps m"
  by (simp add: run_steps_def)

lemma appended:
  "m p = Some \<lparr>i_data = d, i_synced = False\<rparr> \<Longrightarrow>
    fold (\<lambda>f. f) (map (append_data p) pieces) m = m(p \<mapsto> \<lparr>i_data = d @ concat pieces, i_synced = False\<rparr>)"
  by (induction pieces arbitrary: m d) (auto simp: append_data_def fun_upd_idem)

text \<open>Every step but the last leaves the name itself alone.\<close>

lemma keeps_name:
  assumes "\<forall>f \<in> set fs. \<forall>m. f m p = m p"
  shows "fold (\<lambda>f. f) fs m p = m p"
  using assms by (induction fs arbitrary: m) auto

lemma early_steps:
  assumes "steps = fs @ [last_step]" and "\<forall>f \<in> set fs. \<forall>m. f m p = m p"
  shows "run_steps steps k m p = (if k < length steps then m p else fold (\<lambda>f. f) steps m p)"
proof (cases "k < length steps")
  case True
  then have "take k steps = take k fs" using assms(1) by simp
  moreover have "\<forall>f \<in> set (take k fs). \<forall>m. f m p = m p" using assms(2) by (auto dest: in_set_takeD)
  ultimately show ?thesis using True keeps_name by (simp add: run_steps_def)
qed (simp add: run_all)

lemma tmp_differs: "p @ ''.tmp'' \<noteq> p" "p \<noteq> p @ ''.tmp''"
  by simp_all

lemma step_elsewhere:
  "q \<noteq> p \<Longrightarrow> open_tmp p m q = m q" "q \<noteq> p \<Longrightarrow> append_data p s m q = m q" "q \<noteq> p \<Longrightarrow> fsync_file p m q = m q"
  by (simp_all add: open_tmp_def append_data_def fsync_file_def)

lemma write_json_at:
  "run_steps (write_json path pieces) k m path =
    (if k < length pieces + 3 then m path else Some \<lparr>i_data = concat pieces, i_synced = True\<rparr>)"
proof -
  let ?tmp = "path @ ''.tmp''"
  let ?fs = "open_tmp ?tmp # map (append_data ?tmp) pieces @ [fsync_file ?tmp]"
  have "fold (\<lambda>f. f) (write_json path pieces) m path = Some \<lparr>i_data = concat pieces, i_synced = True\<rparr>"
    by (simp add: write_json_def Let_def appended [where d = "[]"] open_tmp_def fsync_file_def os_replace_def)
  moreover have "run_steps (write_json path pieces) k m path =
      (if k < length (write_json path pieces) then m path else fold (\<lambda>f. f) (write_json path pieces) m path)"
    by (rule early_steps [of _ ?fs "os_replace ?tmp path"]) (auto simp: write_json_def Let_def step_elsewhere)
  ultimately show ?thesis by (simp add: write_json_def Let_def)
qed

lemma seed_write_json_at:
  "run_steps (seed_write_json path pieces) k m path =
    (if k < length pieces + 2 then m path else Some \<lparr>i_data = concat pieces, i_synced = False\<rparr>)"
proof -
  let ?tmp = "path @ ''.tmp''"
  let ?fs = "open_tmp ?tmp # map (append_data ?tmp) pieces"
  have "fold (\<lambda>f. f) (seed_write_json path pieces) m path = Some \<lparr>i_data = concat pieces, i_synced = False\<rparr>"
    by (simp add: seed_write_json_def Let_def appended [where d = "[]"] open_tmp_def os_replace_def)
  moreover have "run_steps (seed_write_json path pieces) k m path =
      (if k < length (seed_write_json path pieces) then m path else fold (\<lambda>f. f) (seed_write_json path pieces) m path)"
    by (rule early_steps [of _ ?fs "os_replace ?tmp path"]) (auto simp: seed_write_json_def Let_def step_elsewhere)
  ultimately show ?thesis by (simp add: seed_write_json_def Let_def)
qed

text \<open>What is read at a moment of \<^verbatim>\<open>write_json\<close> or after a power failure in it.\<close>

lemma write_json_reads:
  assumes "\<forall>i. m path = Some i \<longrightarrow> i_synced i"
    and "r = reads (run_steps (write_json path pieces) k m) path \<or> after_crash (write_json path pieces) k m path r"
  shows "r \<in> {reads m path, Some (concat pieces)}"
  using assms by (auto simp: reads_def write_json_at after_crash_def survives_def split: option.splits if_splits)

subsection \<open>Properties\<close>

text \<open>
  A JSON file is replaced in one piece: at any moment of either \<^verbatim>\<open>write_json\<close> another program
  reads the old file or the complete new one; and after a power failure at any moment of the
  daemon's \<^verbatim>\<open>write_json\<close> the file has its old content, if that was on the medium, or the
  complete new one.
\<close>

theorem write_json_atomic:
  assumes "\<forall>i. m path = Some i \<longrightarrow> i_synced i"
  shows "reads (run_steps (write_json path pieces) k m) path \<in> {reads m path, Some (concat pieces)} \<and>
    reads (run_steps (seed_write_json path pieces) k m) path \<in> {reads m path, Some (concat pieces)} \<and>
    (\<forall>r. after_crash (write_json path pieces) k m path r \<longrightarrow> r \<in> {reads m path, Some (concat pieces)})"
  using assms
  by (auto simp: reads_def write_json_at seed_write_json_at after_crash_def survives_def split: option.splits if_splits)

theorem write_json_atomic_witness:
  "reads (run_steps (write_json ''s'' [''ne'', ''w'']) 3 [''s'' \<mapsto> \<lparr>i_data = ''old'', i_synced = True\<rparr>]) ''s'' \<in> {Some ''old'', Some ''new''}"
  using write_json_atomic [of "[''s'' \<mapsto> \<lparr>i_data = ''old'', i_synced = True\<rparr>]" "''s''" "[''ne'', ''w'']" 3]
  by (simp add: reads_def)

text \<open>
  Without the call of \<^verbatim>\<open>fsync\<close> the file may hold anything after a power failure, also when the
  function has returned.
\<close>

theorem seed_write_json_torn:
  "after_crash (seed_write_json path pieces) (length pieces + 2) m path (Some s)"
  unfolding after_crash_def
  by (intro exI [of _ "length pieces + 2"]) (simp add: survives_def seed_write_json_at)

end
