(* ===== verification/Json_Text.thy ===== *)
theory Json_Text
  imports Py_Values Json_Files
begin

text \<open>
  The text of the JSON files: what \<^verbatim>\<open>json.dump\<close> writes, with and without \<^verbatim>\<open>indent\<close>, what \<^verbatim>\<open>json.load\<close>
  reads, and the functions \<^verbatim>\<open>load_json\<close> of the four programs on top of it.

  How a number is written is a parameter, because an \<^verbatim>\<open>int\<close> and a \<^verbatim>\<open>float\<close> of the same value are
  written differently and are one value here; what the theorems need of it is that the text reads
  back as the number. Characters are code points below 256: an escape of a higher one, like the
  literals \<^verbatim>\<open>NaN\<close> and \<^verbatim>\<open>Infinity\<close>, is rejected here and accepted by Python. The limit on the depth of
  nesting is not modelled.

  The reader recurses with fuel; \<open>json_loads\<close> starts it with more than twice the length of the text, and
  \<open>json_fuel_enough\<close> shows that more fuel changes nothing.
\<close>

abbreviation quote :: char where "quote \<equiv> CHR 0x22"
abbreviation backslash :: char where "backslash \<equiv> CHR 0x5C"

subsection \<open>Writing\<close>

definition hex_digit :: "nat \<Rightarrow> char" where
  "hex_digit n = (if n < 10 then char_of (48 + n) else char_of (87 + n))"

definition short_escapes :: "(char \<times> char) list" where
  "short_escapes = [(quote, quote), (backslash, backslash), (CHR 0x08, CHR ''b''), (CHR 0x0C, CHR ''f''),
     (CHR 0x0A, CHR ''n''), (CHR 0x0D, CHR ''r''), (CHR 0x09, CHR ''t'')]"

definition escape_char :: "char \<Rightarrow> string" where
  "escape_char c =
     (case map_of short_escapes c of
        Some e \<Rightarrow> [backslash, e]
      | None \<Rightarrow>
          (let n = of_char c in
           if 32 \<le> n \<and> n \<le> 126 then [c]
           else [backslash, CHR ''u'', CHR ''0'', CHR ''0'', hex_digit (n div 16), hex_digit (n mod 16)]))"

definition dump_str :: "string \<Rightarrow> string" where
  "dump_str s = quote # concat (map escape_char s) @ [quote]"

definition new_line :: "nat option \<Rightarrow> nat \<Rightarrow> string" where
  "new_line ind level = (case ind of None \<Rightarrow> [] | Some k \<Rightarrow> CHR 0x0A # replicate (k * level) CHR '' '')"

definition item_sep :: "nat option \<Rightarrow> nat \<Rightarrow> string" where
  "item_sep ind level = (case ind of None \<Rightarrow> '', '' | Some k \<Rightarrow> '','' @ new_line ind level)"

fun dump :: "(rat \<Rightarrow> string) \<Rightarrow> nat option \<Rightarrow> nat \<Rightarrow> jval \<Rightarrow> string"
  and dump_items :: "(rat \<Rightarrow> string) \<Rightarrow> nat option \<Rightarrow> nat \<Rightarrow> jval list \<Rightarrow> string"
  and dump_members :: "(rat \<Rightarrow> string) \<Rightarrow> nat option \<Rightarrow> nat \<Rightarrow> (string \<times> jval) list \<Rightarrow> string" where
  "dump num ind level JNull = ''null''"
| "dump num ind level (JBool b) = (if b then ''true'' else ''false'')"
| "dump num ind level (JNum q) = num q"
| "dump num ind level (JStr s) = dump_str s"
| "dump num ind level (JList xs) =
     (if xs = [] then ''[]'' else ''['' @ new_line ind (Suc level) @ dump_items num ind (Suc level) xs @ new_line ind level @ '']'')"
| "dump num ind level (JObj kvs) =
     (if kvs = [] then ''{}'' else ''{'' @ new_line ind (Suc level) @ dump_members num ind (Suc level) kvs @ new_line ind level @ ''}'')"
| "dump_items num ind level [] = []"
| "dump_items num ind level (x # xs) =
     dump num ind level x @ (if xs = [] then [] else item_sep ind level @ dump_items num ind level xs)"
| "dump_members num ind level [] = []"
| "dump_members num ind level ((k, v) # kvs) =
     dump_str k @ '': '' @ dump num ind level v @ (if kvs = [] then [] else item_sep ind level @ dump_members num ind level kvs)"

definition json_dumps :: "(rat \<Rightarrow> string) \<Rightarrow> nat option \<Rightarrow> jval \<Rightarrow> string" where
  "json_dumps num ind v = dump num ind 0 v"

subsection \<open>Reading\<close>

definition json_space :: "char \<Rightarrow> bool" where
  "json_space c \<longleftrightarrow> c \<in> {CHR '' '', CHR 0x09, CHR 0x0A, CHR 0x0D}"

definition skip_ws :: "string \<Rightarrow> string" where
  "skip_ws s = dropWhile json_space s"

definition hex_val :: "char \<Rightarrow> nat option" where
  "hex_val c = (let n = of_char c in
     if 48 \<le> n \<and> n \<le> 57 then Some (n - 48)
     else if 97 \<le> n \<and> n \<le> 102 then Some (n - 87)
     else if 65 \<le> n \<and> n \<le> 70 then Some (n - 55) else None)"

definition unescapes :: "(char \<times> char) list" where
  "unescapes = (CHR ''/'', CHR ''/'') # map prod.swap short_escapes"

definition hex4 :: "string \<Rightarrow> nat option" where
  "hex4 s = (case map hex_val (take 4 s) of
     [Some a, Some b, Some c, Some d] \<Rightarrow> Some (4096 * a + 256 * b + 16 * c + d) | _ \<Rightarrow> None)"

text \<open>A reader yields what it read and the rest of the text.\<close>

definition mapr :: "('a \<Rightarrow> 'b) \<Rightarrow> ('a \<times> string) option \<Rightarrow> ('b \<times> string) option" where
  "mapr f m = map_option (\<lambda>(x, r). (f x, r)) m"

definition next_char :: "string \<Rightarrow> (char \<times> string) option" where
  "next_char s = (case skip_ws s of [] \<Rightarrow> None | c # t \<Rightarrow> Some (c, t))"

text \<open>The rest of a string, from behind the opening quote to behind the closing one.\<close>

function scanstring :: "string \<Rightarrow> (string \<times> string) option" where
  "scanstring [] = None"
| "scanstring (c # cs) =
     (if c = quote then Some ([], cs)
      else if c = backslash then
        (if cs \<noteq> [] \<and> hd cs = CHR ''u'' then
           Option.bind (hex4 (tl cs)) (\<lambda>n. if n < 256 then mapr (Cons (char_of n)) (scanstring (drop 5 cs)) else None)
         else if cs \<noteq> [] then Option.bind (map_of unescapes (hd cs)) (\<lambda>x. mapr (Cons x) (scanstring (tl cs)))
         else None)
      else if (of_char c :: nat) < 32 then None
      else mapr (Cons c) (scanstring cs))"
  by pat_completeness auto
termination
  by (relation "measure length") auto

definition is_digit :: "char \<Rightarrow> bool" where
  "is_digit c \<longleftrightarrow> digit_val c \<noteq> None"

definition digits_of :: "string \<Rightarrow> nat list" where
  "digits_of s = map (\<lambda>c. the (digit_val c)) (takeWhile is_digit s)"

definition rest_of :: "string \<Rightarrow> string" where
  "rest_of s = dropWhile is_digit s"

text \<open>\<^verbatim>\<open>(-?(?:0|[1-9]\d*))(\.\d+)?([eE][-+]?\d+)?\<close>: the integer part, the fraction, the exponent.\<close>

definition int_part :: "string \<Rightarrow> (nat \<times> string) option" where
  "int_part s = (case s of
     [] \<Rightarrow> None
   | c # cs \<Rightarrow> if c = CHR ''0'' then Some (0, cs)
       else if is_digit c then Some (dec_value (digits_of s), rest_of s) else None)"

definition frac_part :: "string \<Rightarrow> nat list \<times> string" where
  "frac_part s = (case s of
     [] \<Rightarrow> ([], [])
   | c # cs \<Rightarrow> if c = CHR ''.'' \<and> digits_of cs \<noteq> [] then (digits_of cs, rest_of cs) else ([], s))"

definition exp_part :: "string \<Rightarrow> int \<times> string" where
  "exp_part s = (case s of
     [] \<Rightarrow> (0, [])
   | c # cs \<Rightarrow>
       (let (neg, t) = split_sign cs in
        if (c = CHR ''e'' \<or> c = CHR ''E'') \<and> digits_of t \<noteq> []
        then ((if neg then - int (dec_value (digits_of t)) else int (dec_value (digits_of t))), rest_of t) else (0, s)))"

definition json_number :: "string \<Rightarrow> (rat \<times> string) option" where
  "json_number s =
     (let neg = (s \<noteq> [] \<and> hd s = CHR ''-'') in
      case int_part (if neg then tl s else s) of
        None \<Rightarrow> None
      | Some (i, r1) \<Rightarrow>
          (let (fs, r2) = frac_part r1; (e, r3) = exp_part r2;
               q = (of_nat i + of_nat (dec_value fs) / 10 ^ length fs) * power_int 10 e
           in Some (if neg then - q else q, r3)))"

text \<open>One value; the elements of a list behind its bracket; the members of an object behind the
  opening quote of the first key.\<close>

fun p_value :: "nat \<Rightarrow> string \<Rightarrow> (jval \<times> string) option"
  and p_elems :: "nat \<Rightarrow> string \<Rightarrow> (jval list \<times> string) option"
  and p_members :: "nat \<Rightarrow> string \<Rightarrow> ((string \<times> jval) list \<times> string) option" where
  "p_value 0 s = None"
| "p_value (Suc n) s =
     (if s = [] then None
      else if hd s = quote then mapr JStr (scanstring (tl s))
      else if hd s = CHR ''{'' then
        Option.bind (next_char (tl s)) (\<lambda>(c, t).
          if c = CHR ''}'' then Some (JObj [], t) else if c = quote then mapr JObj (p_members n t) else None)
      else if hd s = CHR ''['' then
        Option.bind (next_char (tl s)) (\<lambda>(c, t).
          if c = CHR '']'' then Some (JList [], t) else mapr JList (p_elems n (c # t)))
      else if take 4 s = ''null'' then Some (JNull, drop 4 s)
      else if take 4 s = ''true'' then Some (JBool True, drop 4 s)
      else if take 5 s = ''false'' then Some (JBool False, drop 5 s)
      else mapr JNum (json_number s))"
| "p_elems 0 s = None"
| "p_elems (Suc n) s =
     Option.bind (p_value n s) (\<lambda>(v, r).
     Option.bind (next_char r) (\<lambda>(c, t).
       if c = CHR '']'' then Some ([v], t)
       else if c = CHR '','' then mapr (Cons v) (p_elems n (skip_ws t)) else None))"
| "p_members 0 s = None"
| "p_members (Suc n) s =
     Option.bind (scanstring s) (\<lambda>(k, r).
     Option.bind (next_char r) (\<lambda>(c, t).
       if c \<noteq> CHR '':'' then None
       else
         Option.bind (p_value n (skip_ws t)) (\<lambda>(v, r2).
         Option.bind (next_char r2) (\<lambda>(d, t2).
           if d = CHR ''}'' then Some ([(k, v)], t2)
           else if d = CHR '','' then
             Option.bind (next_char t2) (\<lambda>(q, t3). if q = quote then mapr (Cons (k, v)) (p_members n t3) else None)
           else None))))"

definition json_loads :: "string \<Rightarrow> jval result" where
  "json_loads s =
     (case p_value (Suc (2 * length s)) (skip_ws s) of
        None \<Rightarrow> Inl JSONDecodeError
      | Some (v, r) \<Rightarrow> if skip_ws r = [] then Inr v else Inl JSONDecodeError)"

subsection \<open>The functions of the programs\<close>

text \<open>The content of a file, \<open>None\<close> when there is none: the daemon, \<^verbatim>\<open>rkcdp-seed\<close> and the web service,
  \<^verbatim>\<open>rkcdp-rebuild\<close>.\<close>

definition load_json :: "jval \<Rightarrow> string option \<Rightarrow> jval result" where
  "load_json dflt content = (case content of None \<Rightarrow> Inr dflt | Some s \<Rightarrow> json_loads s)"

definition seed_load_json :: "jval \<Rightarrow> string option \<Rightarrow> jval" where
  "seed_load_json dflt content =
     (case content of None \<Rightarrow> dflt | Some s \<Rightarrow> (case json_loads s of Inl _ \<Rightarrow> dflt | Inr v \<Rightarrow> v))"

definition api_load :: "jval \<Rightarrow> string option \<Rightarrow> jval" where
  "api_load dflt content =
     (case content of None \<Rightarrow> dflt | Some s \<Rightarrow> (case json_loads s of Inl _ \<Rightarrow> dflt | Inr v \<Rightarrow> v))"

definition rb_load_json :: "string option \<Rightarrow> jval result" where
  "rb_load_json content = (case content of None \<Rightarrow> Inl OSError | Some s \<Rightarrow> json_loads s)"

subsection \<open>The reader consumes its input, and has fuel enough\<close>

lemma skip_ws_length: "length (skip_ws s) \<le> length s"
  by (simp add: skip_ws_def dropWhile_shorter)

lemma next_char_shorter: "next_char s = Some (c, t) \<Longrightarrow> length t < length s"
  using skip_ws_length [of s] by (auto simp: next_char_def split: list.splits)

lemma mapr_Some [simp]: "mapr f m = Some (y, r) \<longleftrightarrow> (\<exists>x. m = Some (x, r) \<and> y = f x)"
  by (auto simp: mapr_def)

lemma rest_of_length: "length (rest_of s) \<le> length s"
  by (simp add: rest_of_def dropWhile_shorter)

lemma scanstring_shorter: "scanstring s = Some (k, r) \<Longrightarrow> length r < length s"
proof (induction s arbitrary: k r rule: scanstring.induct)
  case (2 c cs)
  then show ?case by (fastforce simp: bind_eq_Some_conv split: if_splits)
qed simp

lemma json_number_shorter: "json_number s = Some (q, r) \<Longrightarrow> length r < length s"
proof -
  have i: "length r < length t" if "int_part t = Some (n, r)" for t n r
    using that rest_of_length [of t] rest_of_length [of "tl t"]
    by (auto simp: int_part_def rest_of_def split: list.splits if_splits)
  have f: "length (snd (frac_part t)) \<le> length t" for t
    using rest_of_length [of "tl t"] by (auto simp: frac_part_def split: list.splits)
  have e: "length (snd (exp_part t)) \<le> length t" for t
    using rest_of_length [of "snd (split_sign (tl t))"] by (auto simp: exp_part_def split_sign_def Let_def split: list.splits)
  assume "json_number s = Some (q, r)"
  then obtain n r1 where t: "int_part (if s \<noteq> [] \<and> hd s = CHR ''-'' then tl s else s) = Some (n, r1)"
      "r = snd (exp_part (snd (frac_part r1)))"
    by (cases "int_part (if s \<noteq> [] \<and> hd s = CHR ''-'' then tl s else s)") (auto simp: json_number_def Let_def case_prod_beta)
  have "length (if s \<noteq> [] \<and> hd s = CHR ''-'' then tl s else s) \<le> length s" by simp
  with i [OF t(1)] f [of r1] e [of "snd (frac_part r1)"] show ?thesis unfolding t(2) by linarith
qed

lemma p_shorter:
  "p_value n s = Some (v, r) \<Longrightarrow> length r < length s"
  "p_elems n s = Some (vs, r) \<Longrightarrow> length r < length s"
  "p_members n s = Some (kvs, r) \<Longrightarrow> length r < length s"
proof (induction n s and n s and n s arbitrary: v r and vs r and kvs r rule: p_value_p_elems_p_members.induct)
  case (2 n s)
  then show ?case
    by (cases s) (fastforce simp: bind_eq_Some_conv dest: next_char_shorter scanstring_shorter json_number_shorter split: if_splits)+
next
  case (4 n s)
  from "4.prems" obtain v r1 c t where v: "p_value n s = Some (v, r1)" "next_char r1 = Some (c, t)"
      "(if c = CHR '']'' then Some ([v], t) else if c = CHR '','' then mapr (Cons v) (p_elems n (skip_ws t)) else None) = Some (vs, r)"
    by (auto simp: bind_eq_Some_conv)
  have "length t < length s" using "4.IH"(1) [OF v(1)] next_char_shorter [OF v(2)] by simp
  then show ?case
    using "4.IH"(2) [OF v(1) _ v(2)] v(3) skip_ws_length [of t] by (auto split: if_splits) fastforce
next
  case (6 n s)
  from "6.prems" obtain k r1 t v r2 d t2 where v: "scanstring s = Some (k, r1)" "next_char r1 = Some (CHR '':'', t)"
      "p_value n (skip_ws t) = Some (v, r2)" "next_char r2 = Some (d, t2)"
      "(if d = CHR ''}'' then Some ([(k, v)], t2) else if d = CHR '','' then
         Option.bind (next_char t2) (\<lambda>(q, t3). if q = quote then mapr (Cons (k, v)) (p_members n t3) else None) else None) = Some (kvs, r)"
    by (auto simp: bind_eq_Some_conv split: if_splits)
  have "length t2 < length s"
    using "6.IH"(1) [OF v(1) refl v(2) refl _ v(3)] scanstring_shorter [OF v(1)] next_char_shorter [OF v(2)] next_char_shorter [OF v(4)]
      skip_ws_length [of t] by simp
  moreover have "length r < length t3" if "next_char t2 = Some (quote, t3)" "p_members n t3 = Some (x, r)" "d = CHR '',''" for t3 x
    using "6.IH"(2) [OF v(1) refl v(2) refl _ v(3) refl v(4) refl _ _ that(1) refl] that(2,3) by auto
  ultimately show ?case
    using v(5) by (auto simp: bind_eq_Some_conv dest: next_char_shorter split: if_splits) (meson next_char_shorter order.strict_trans)
qed simp_all

declare p_value.simps(2) [simp del] p_elems.simps(2) [simp del] p_members.simps(2) [simp del]

text \<open>More fuel than twice the length of the text changes nothing.\<close>

lemma bind_cong_Some: "m = m' \<Longrightarrow> (\<And>x r. m' = Some (x, r) \<Longrightarrow> f (x, r) = g (x, r)) \<Longrightarrow> Option.bind m f = Option.bind m' g"
  by (cases m') auto

lemma p_fuel:
  "2 * length s < n \<Longrightarrow> p_value (Suc n) s = p_value n s"
  "2 * length s + 1 < n \<Longrightarrow> p_elems (Suc n) s = p_elems n s"
  "2 * length s < n \<Longrightarrow> p_members (Suc n) s = p_members n s"
proof (induction n s and n s and n s rule: p_value_p_elems_p_members.induct)
  case (2 n s)
  have "p_members (Suc n) t = p_members n t" if "hd s \<noteq> quote" "hd s = CHR ''{''" "next_char (tl s) = Some (quote, t)" for t
    using "2.IH"(1) that "2.prems" next_char_shorter [OF that(3)] by (cases s) auto
  moreover have "p_elems (Suc n) (c # t) = p_elems n (c # t)"
    if "hd s \<noteq> quote" "hd s = CHR ''[''" "next_char (tl s) = Some (c, t)" "c \<noteq> CHR '']''" for c t
    using "2.IH"(2) that "2.prems" next_char_shorter [OF that(3)] by (cases s) auto
  ultimately show ?case
    unfolding p_value.simps(2) [of "Suc n" s] p_value.simps(2) [of n s] by (auto intro!: bind_cong_Some)
next
  case (4 n s)
  have v: "p_value (Suc n) s = p_value n s" using "4.IH"(1) "4.prems" by simp
  have "p_elems (Suc n) (skip_ws t) = p_elems n (skip_ws t)"
    if "p_value n s = Some (v, r)" "next_char r = Some (CHR '','', t)" for v r t
    using "4.IH"(2) [OF that(1) refl that(2) refl] "4.prems" p_shorter(1) [OF that(1)] next_char_shorter [OF that(2)] skip_ws_length [of t]
    by simp
  then show ?case
    unfolding p_elems.simps(2) [of "Suc n" s] p_elems.simps(2) [of n s] by (auto simp: v intro!: bind_cong_Some)
next
  case (6 n s)
  have v: "p_value (Suc n) (skip_ws t) = p_value n (skip_ws t)" if "scanstring s = Some (k, r)" "next_char r = Some (CHR '':'', t)" for k r t
    using "6.IH"(1) [OF that(1) refl that(2) refl] "6.prems" scanstring_shorter [OF that(1)] next_char_shorter [OF that(2)] skip_ws_length [of t]
    by simp
  have "p_members (Suc n) t3 = p_members n t3"
    if "scanstring s = Some (k, r)" "next_char r = Some (CHR '':'', t)" "p_value n (skip_ws t) = Some (v, r2)"
      "next_char r2 = Some (CHR '','', t2)" "next_char t2 = Some (quote, t3)" for k r t v r2 t2 t3
    using "6.IH"(2) [OF that(1) refl that(2) refl _ that(3) refl that(4) refl _ _ that(5) refl] "6.prems"
      scanstring_shorter [OF that(1)] next_char_shorter [OF that(2)] next_char_shorter [OF that(4)] next_char_shorter [OF that(5)]
      p_shorter(1) [OF that(3)] skip_ws_length [of t] by simp
  with v show ?case
    unfolding p_members.simps(2) [of "Suc n" s] p_members.simps(2) [of n s] by (auto intro!: bind_cong_Some)
qed simp_all

lemma json_fuel_enough: "2 * length s < n \<Longrightarrow> p_value n s = p_value (Suc (2 * length s)) s"
proof (induction n)
  case (Suc n)
  then show ?case using p_fuel(1) [of s n] by (auto simp: less_Suc_eq)
qed simp

subsection \<open>Strings are read back\<close>

lemma hex_val_digit: "n < 16 \<Longrightarrow> hex_val (hex_digit n) = Some n"
  by (auto simp: hex_val_def hex_digit_def Let_def)

lemma hex4_escape: "n < 256 \<Longrightarrow> hex4 (CHR ''0'' # CHR ''0'' # hex_digit (n div 16) # hex_digit (n mod 16) # r) = Some n"
proof -
  assume "n < 256"
  then have "n div 16 < 16" "n mod 16 < 16" by auto
  moreover have "hex_val CHR ''0'' = Some 0" by (simp add: hex_val_def)
  ultimately show ?thesis by (simp add: hex4_def hex_val_digit)
qed

lemma short_escape_cases:
  "map_of short_escapes c = Some e \<Longrightarrow> e \<noteq> CHR ''u'' \<and> map_of unescapes e = Some c"
  "map_of short_escapes c = None \<Longrightarrow> c \<noteq> quote \<and> c \<noteq> backslash"
  by (auto simp: short_escapes_def unescapes_def split: if_splits)

lemma scan_escape: "scanstring (escape_char c @ r) = mapr (Cons c) (scanstring r)"
proof (cases "map_of short_escapes c")
  case (Some e)
  then show ?thesis using short_escape_cases(1) [OF Some] by (simp add: escape_char_def)
next
  case None
  let ?n = "of_char c :: nat"
  have "?n < 256" by simp
  then have "hex4 (CHR ''0'' # CHR ''0'' # hex_digit (?n div 16) # hex_digit (?n mod 16) # r) = Some ?n" by (rule hex4_escape)
  with None short_escape_cases(2) [OF None] show ?thesis
    by (auto simp: escape_char_def Let_def)
qed

lemma scan_dump: "scanstring (concat (map escape_char s) @ quote # r) = Some (s, r)"
  by (induction s) (simp_all add: scan_escape)

subsection \<open>Numbers are read back\<close>

text \<open>What may follow a number without becoming part of it.\<close>

definition stops :: "string \<Rightarrow> bool" where
  "stops s \<longleftrightarrow> s = [] \<or> \<not> is_digit (hd s) \<and> hd s \<notin> {CHR ''.'', CHR ''e'', CHR ''E''}"

lemma digits_append: "stops r \<Longrightarrow> digits_of (s @ r) = digits_of s \<and> rest_of (s @ r) = rest_of s @ r"
proof (induction s)
  case Nil
  then show ?case by (cases r) (auto simp: digits_of_def rest_of_def stops_def)
qed (auto simp: digits_of_def rest_of_def)

lemma int_part_append: "int_part s = Some (n, t) \<Longrightarrow> stops r \<Longrightarrow> int_part (s @ r) = Some (n, t @ r)"
  using digits_append [of r s] by (auto simp: int_part_def split: list.splits if_splits)

lemma frac_part_append: "frac_part s = (fs, t) \<Longrightarrow> stops r \<Longrightarrow> frac_part (s @ r) = (fs, t @ r)"
proof (cases s)
  case Nil
  assume "frac_part s = (fs, t)" "stops r"
  with Nil show ?thesis by (cases r) (auto simp: frac_part_def stops_def)
next
  case (Cons c cs)
  assume "frac_part s = (fs, t)" "stops r"
  with Cons show ?thesis using digits_append [of r cs] by (auto simp: frac_part_def split: if_splits)
qed

lemma exp_part_append: "exp_part s = (e, []) \<Longrightarrow> stops r \<Longrightarrow> exp_part (s @ r) = (e, r)"
proof (cases s)
  case Nil
  assume "exp_part s = (e, [])" "stops r"
  with Nil show ?thesis by (cases r) (auto simp: exp_part_def stops_def)
next
  case (Cons c cs)
  assume e: "exp_part s = (e, [])" "stops r"
  obtain neg t where t: "split_sign cs = (neg, t)" by force
  with e Cons have d: "c = CHR ''e'' \<or> c = CHR ''E''" "digits_of t \<noteq> []" by (auto simp: exp_part_def split: if_splits)
  then have "cs \<noteq> []" using t by (auto simp: split_sign_def digits_of_def)
  with t have "split_sign (cs @ r) = (neg, t @ r)" by (cases cs) (auto simp: split_sign_def split: if_splits)
  with e Cons t d show ?thesis using digits_append [of r t] by (auto simp: exp_part_def split: if_splits)
qed

lemma json_number_append:
  assumes "json_number s = Some (q, [])" "stops r"
  shows "json_number (s @ r) = Some (q, r)"
proof -
  let ?neg = "s \<noteq> [] \<and> hd s = CHR ''-''"
  obtain n r1 where i: "int_part (if ?neg then tl s else s) = Some (n, r1)"
    using assms(1) by (cases "int_part (if ?neg then tl s else s)") (auto simp: json_number_def Let_def)
  obtain fs r2 where f: "frac_part r1 = (fs, r2)" by force
  have e: "exp_part r2 = (fst (exp_part r2), [])" using assms(1) i f
    by (auto simp: json_number_def Let_def case_prod_beta prod_eq_iff)
  have "s \<noteq> []" using assms(1) by (auto simp: json_number_def int_part_def)
  then have "s @ r \<noteq> [] \<and> hd (s @ r) = CHR ''-'' \<longleftrightarrow> ?neg"
      "(if ?neg then tl (s @ r) else s @ r) = (if ?neg then tl s else s) @ r" by simp_all
  with i f e assms show ?thesis
    using int_part_append [OF i assms(2)] frac_part_append [OF f assms(2)] exp_part_append [OF e assms(2)]
    unfolding json_number_def Let_def by (auto simp: case_prod_beta)
qed

lemma json_number_start: "json_number s = Some (q, r) \<Longrightarrow> s \<noteq> [] \<and> (hd s = CHR ''-'' \<or> is_digit (hd s))"
  by (cases s) (auto simp: json_number_def int_part_def Let_def is_digit_def digit_val_def split: if_splits)

subsection \<open>Values are read back\<close>

text \<open>Every number of the value is written so that it reads back.\<close>

fun prints_ok :: "(rat \<Rightarrow> string) \<Rightarrow> jval \<Rightarrow> bool"
  and items_ok :: "(rat \<Rightarrow> string) \<Rightarrow> jval list \<Rightarrow> bool"
  and members_ok :: "(rat \<Rightarrow> string) \<Rightarrow> (string \<times> jval) list \<Rightarrow> bool" where
  "prints_ok num (JNum q) = (json_number (num q) = Some (q, []))"
| "prints_ok num (JList xs) = items_ok num xs"
| "prints_ok num (JObj kvs) = members_ok num kvs"
| "prints_ok num _ = True"
| "items_ok num [] = True"
| "items_ok num (x # xs) = (prints_ok num x \<and> items_ok num xs)"
| "members_ok num [] = True"
| "members_ok num ((k, v) # kvs) = (prints_ok num v \<and> members_ok num kvs)"

definition blank :: "string \<Rightarrow> bool" where
  "blank s \<longleftrightarrow> list_all json_space s"

lemma blank_simps [simp]:
  "blank []" "blank (new_line ind level)" "blank (c # s) \<longleftrightarrow> json_space c \<and> blank s"
  by (auto simp: blank_def new_line_def json_space_def list_all_iff split: option.splits)

lemma skip_blank: "blank s \<Longrightarrow> skip_ws (s @ r) = skip_ws r"
  by (induction s) (simp_all add: skip_ws_def)

lemma next_blank: "blank s \<Longrightarrow> \<not> json_space c \<Longrightarrow> next_char (s @ c # r) = Some (c, r)"
  by (simp add: next_char_def skip_blank) (simp add: skip_ws_def)

lemma item_sep_eq: "\<exists>b. item_sep ind level = CHR '','' # b \<and> blank b"
  by (cases ind) (auto simp: item_sep_def json_space_def blank_def new_line_def list_all_iff)

lemma json_space_false [simp]:
  "\<not> json_space quote" "\<not> json_space CHR ''[''" "\<not> json_space CHR '']''" "\<not> json_space CHR ''{''" "\<not> json_space CHR ''}''"
  "\<not> json_space CHR '',''" "\<not> json_space CHR '':''" "json_space CHR '' ''"
  by (simp_all add: json_space_def)

lemma is_digit_range: "is_digit c \<longleftrightarrow> 48 \<le> (of_char c :: nat) \<and> (of_char c :: nat) \<le> 57"
  by (simp add: is_digit_def digit_val_def Let_def)

lemma stops_blank: "blank b \<Longrightarrow> c \<in> {CHR '','', CHR '']'', CHR ''}''} \<Longrightarrow> stops (b @ c # r)"
  by (cases b) (auto simp: stops_def is_digit_range json_space_def)

text \<open>The first character of a value.\<close>

lemma dump_start:
  assumes "prints_ok num v"
  shows "dump num ind level v \<noteq> [] \<and> \<not> json_space (hd (dump num ind level v)) \<and> hd (dump num ind level v) \<noteq> CHR '']''"
proof (cases v)
  case (JNum q)
  with assms json_number_start [of "num q" q "[]"] show ?thesis
    by (cases "num q") (auto simp: json_space_def is_digit_range)
qed (auto simp: dump_str_def json_space_def)

lemma dump_skip: "prints_ok num v \<Longrightarrow> skip_ws (dump num ind level v @ r) = dump num ind level v @ r"
  using dump_start [of num v ind level] by (cases "dump num ind level v") (auto simp: skip_ws_def)

lemma dump_items_start:
  assumes "items_ok num xs" "xs \<noteq> []"
  obtains d u where "dump_items num ind level xs @ r = d # u" "\<not> json_space d" "d \<noteq> CHR '']''"
proof -
  obtain x ys where xs: "xs = x # ys" using assms(2) by (cases xs) auto
  with assms(1) have "prints_ok num x" by simp
  from dump_start [OF this, of ind level] xs that show ?thesis by (cases "dump num ind level x") auto
qed

text \<open>From some amount of fuel on, the reader gives this result.\<close>

definition settled :: "(nat \<Rightarrow> 'a option) \<Rightarrow> 'a \<Rightarrow> bool" where
  "settled f x \<longleftrightarrow> (\<exists>N. \<forall>n \<ge> N. f n = Some x)"

lemma settled_Suc: "settled (\<lambda>n. f (Suc n)) x \<Longrightarrow> settled f x"
  unfolding settled_def by (metis Suc_le_D Suc_le_mono)

lemma settled_const: "settled (\<lambda>n. Some x) x"
  by (simp add: settled_def)

lemma settled_bind:
  assumes "settled f x" "settled (\<lambda>n. g n x) y"
  shows "settled (\<lambda>n. Option.bind (f n) (g n)) y"
proof -
  obtain N M where "\<forall>n \<ge> N. f n = Some x" "\<forall>n \<ge> M. g n x = Some y" using assms by (auto simp: settled_def)
  then have "\<forall>n \<ge> max N M. Option.bind (f n) (g n) = Some y" by simp
  then show ?thesis unfolding settled_def by blast
qed

lemma settled_mapr: "settled f (x, r) \<Longrightarrow> settled (\<lambda>n. mapr h (f n)) (h x, r)"
  unfolding settled_def by (metis mapr_Some)

lemma read_number:
  assumes "json_number (num q) = Some (q, [])" "stops r"
  shows "p_value (Suc n) (num q @ r) = Some (JNum q, r)"
proof -
  obtain c t where ct: "num q = c # t" "c = CHR ''-'' \<or> is_digit c"
    using json_number_start [OF assms(1)] by (cases "num q") auto
  then have "c \<noteq> quote" "c \<noteq> CHR ''{''" "c \<noteq> CHR ''[''" "c \<noteq> CHR ''n''" "c \<noteq> CHR ''t''" "c \<noteq> CHR ''f''"
    by (auto simp: is_digit_range)
  with ct(1) json_number_append [OF assms] show ?thesis
    by (simp add: p_value.simps(2) numeral_eq_Suc)
qed

text \<open>One element and one member, with what follows.\<close>

lemma read_item:
  assumes "settled (\<lambda>n. p_value n (d @ r)) (v, r)"
    and "settled (\<lambda>n. Option.bind (next_char r) (\<lambda>(c, t). if c = CHR '']'' then Some ([v], t)
      else if c = CHR '','' then mapr (Cons v) (p_elems n (skip_ws t)) else None)) y"
  shows "settled (\<lambda>n. p_elems n (d @ r)) y"
  using settled_bind [OF assms(1), of "\<lambda>n (v, r). Option.bind (next_char r) (\<lambda>(c, t). if c = CHR '']'' then Some ([v], t)
      else if c = CHR '','' then mapr (Cons v) (p_elems n (skip_ws t)) else None)"] assms(2)
  by (intro settled_Suc [of "\<lambda>n. p_elems n _"]) (simp add: p_elems.simps(2))

lemma read_member:
  assumes "settled (\<lambda>n. p_value n (d @ r)) (v, r)" and "skip_ws (d @ r) = d @ r"
    and "settled (\<lambda>n. Option.bind (next_char r) (\<lambda>(d, t). if d = CHR ''}'' then Some ([(k, v)], t)
      else if d = CHR '','' then
        Option.bind (next_char t) (\<lambda>(q, t). if q = quote then mapr (Cons (k, v)) (p_members n t) else None)
      else None)) y"
  shows "settled (\<lambda>n. p_members n (concat (map escape_char k) @ quote # CHR '':'' # CHR '' '' # d @ r)) y"
proof -
  let ?G = "\<lambda>n (v, r). Option.bind (next_char r) (\<lambda>(d, t). if d = CHR ''}'' then Some ([(k, v)], t)
      else if d = CHR '','' then
        Option.bind (next_char t) (\<lambda>(q, t). if q = quote then mapr (Cons (k, v)) (p_members n t) else None)
      else None)"
  have "skip_ws (CHR '' '' # d @ r) = d @ r" using assms(2) by (simp add: skip_ws_def)
  moreover have "next_char (CHR '':'' # CHR '' '' # d @ r) = Some (CHR '':'', CHR '' '' # d @ r)"
    using next_blank [of "[]" "CHR '':''"] by simp
  ultimately have "p_members (Suc n) (concat (map escape_char k) @ quote # CHR '':'' # CHR '' '' # d @ r) =
      Option.bind (p_value n (d @ r)) (?G n)" for n
    by (simp add: p_members.simps(2) scan_dump)
  with settled_bind [OF assms(1), of ?G] assms(3) show ?thesis
    by (intro settled_Suc [of "\<lambda>n. p_members n _"]) simp
qed

text \<open>One lemma for each constructor; the induction follows from them.\<close>

lemma dump_members_start: "kvs \<noteq> [] \<Longrightarrow> \<exists>t. dump_members num ind level kvs = quote # t"
  by (cases kvs) (auto simp: dump_str_def)

lemma read_list:
  assumes "items_ok num xs" "xs \<noteq> [] \<Longrightarrow> settled (\<lambda>n. p_elems n (dump_items num ind (Suc level) xs @ new_line ind level @ CHR '']'' # r)) (xs, r)"
  shows "settled (\<lambda>n. p_value n (dump num ind level (JList xs) @ r)) (JList xs, r)"
proof (cases "xs = []")
  case True
  then show ?thesis by (intro settled_Suc [of "\<lambda>n. p_value n _"]) (simp add: p_value.simps(2) next_char_def skip_ws_def settled_const)
next
  case False
  let ?body = "dump_items num ind (Suc level) xs @ new_line ind level @ CHR '']'' # r"
  obtain c t where ct: "?body = c # t" "\<not> json_space c" "c \<noteq> CHR '']''"
    using dump_items_start [OF assms(1) False] by metis
  have "settled (\<lambda>n. mapr JList (p_elems n (c # t))) (JList xs, r)" using assms(2) [OF False] ct(1) settled_mapr by metis
  moreover have "p_value (Suc n) (dump num ind level (JList xs) @ r) = mapr JList (p_elems n (c # t))" for n
    using False ct next_blank [of "new_line ind (Suc level)" c t] by (simp add: p_value.simps(2))
  ultimately show ?thesis by (intro settled_Suc [of "\<lambda>n. p_value n _"]) simp
qed

lemma read_object:
  assumes "kvs \<noteq> [] \<Longrightarrow> settled (\<lambda>n. p_members n (tl (dump_members num ind (Suc level) kvs) @ new_line ind level @ CHR ''}'' # r)) (kvs, r)"
  shows "settled (\<lambda>n. p_value n (dump num ind level (JObj kvs) @ r)) (JObj kvs, r)"
proof (cases "kvs = []")
  case True
  then show ?thesis by (intro settled_Suc [of "\<lambda>n. p_value n _"]) (simp add: p_value.simps(2) next_char_def skip_ws_def settled_const)
next
  case False
  let ?t = "tl (dump_members num ind (Suc level) kvs) @ new_line ind level @ CHR ''}'' # r"
  obtain t where t: "dump_members num ind (Suc level) kvs = quote # t" using dump_members_start [OF False] by blast
  have "settled (\<lambda>n. mapr JObj (p_members n ?t)) (JObj kvs, r)" by (rule settled_mapr) (rule assms [OF False])
  moreover have "p_value (Suc n) (dump num ind level (JObj kvs) @ r) = mapr JObj (p_members n ?t)" for n
    using False t next_blank [of "new_line ind (Suc level)" quote ?t] by (simp add: p_value.simps(2))
  ultimately show ?thesis by (intro settled_Suc [of "\<lambda>n. p_value n _"]) simp
qed

lemma read_items:
  assumes v: "\<And>r. stops r \<Longrightarrow> settled (\<lambda>n. p_value n (dump num ind level x @ r)) (x, r)"
    and more: "xs \<noteq> [] \<Longrightarrow> settled (\<lambda>n. p_elems n (dump_items num ind level xs @ b @ CHR '']'' # r)) (xs, r)"
    and ok: "items_ok num xs" "blank b"
  shows "settled (\<lambda>n. p_elems n (dump_items num ind level (x # xs) @ b @ CHR '']'' # r)) (x # xs, r)"
proof (cases "xs = []")
  case True
  have "settled (\<lambda>n. p_elems n (dump num ind level x @ b @ CHR '']'' # r)) ([x], r)"
    by (rule read_item [where v = x]) (use v stops_blank ok(2) next_blank [OF ok(2)] in \<open>simp_all add: settled_const\<close>)
  with True show ?thesis by simp
next
  case False
  obtain sp where sp: "item_sep ind level = CHR '','' # sp" "blank sp" using item_sep_eq by blast
  let ?more = "dump_items num ind level xs @ b @ CHR '']'' # r"
  have "skip_ws ?more = ?more" using False ok(1) dump_skip by (cases xs) auto
  then have "settled (\<lambda>n. mapr (Cons x) (p_elems n (skip_ws (sp @ ?more)))) (x # xs, r)"
    using settled_mapr [OF more [OF False], of "Cons x"] sp(2) by (simp add: skip_blank)
  then have "settled (\<lambda>n. p_elems n (dump num ind level x @ CHR '','' # sp @ ?more)) (x # xs, r)"
    by (intro read_item [where v = x]) (use v stops_blank [of "[]"] next_blank [of "[]" "CHR '',''"] in simp_all)
  then show ?thesis using False sp(1) by simp
qed

lemma read_members:
  assumes v: "\<And>r. stops r \<Longrightarrow> settled (\<lambda>n. p_value n (dump num ind level v @ r)) (v, r)"
    and more: "kvs \<noteq> [] \<Longrightarrow> settled (\<lambda>n. p_members n (tl (dump_members num ind level kvs) @ b @ CHR ''}'' # r)) (kvs, r)"
    and ok: "prints_ok num v" "blank b"
  shows "settled (\<lambda>n. p_members n (tl (dump_members num ind level ((k, v) # kvs)) @ b @ CHR ''}'' # r)) ((k, v) # kvs, r)"
proof (cases "kvs = []")
  case True
  have "settled (\<lambda>n. p_members n (concat (map escape_char k) @ quote # CHR '':'' # CHR '' '' #
      dump num ind level v @ b @ CHR ''}'' # r)) ([(k, v)], r)"
    by (rule read_member [where v = v]) (use v ok stops_blank next_blank [OF ok(2)] in \<open>simp_all add: settled_const dump_skip\<close>)
  with True show ?thesis by (simp add: dump_str_def)
next
  case False
  obtain sp where sp: "item_sep ind level = CHR '','' # sp" "blank sp" using item_sep_eq by blast
  let ?more = "tl (dump_members num ind level kvs) @ b @ CHR ''}'' # r"
  obtain t where t: "dump_members num ind level kvs = quote # t" using dump_members_start [OF False] by blast
  have "settled (\<lambda>n. mapr (Cons (k, v)) (p_members n ?more)) ((k, v) # kvs, r)"
    using settled_mapr [OF more [OF False], of "Cons (k, v)"] by simp
  then have "settled (\<lambda>n. p_members n (concat (map escape_char k) @ quote # CHR '':'' # CHR '' '' #
      dump num ind level v @ CHR '','' # sp @ quote # ?more)) ((k, v) # kvs, r)"
    by (intro read_member [where v = v])
      (use v ok(1) stops_blank [of "[]"] next_blank [of "[]" "CHR '',''"] next_blank [OF sp(2), of quote] in \<open>simp_all add: dump_skip\<close>)
  then show ?thesis using False sp(1) t by (simp add: dump_str_def)
qed

lemma dump_reads:
  "prints_ok num v \<Longrightarrow> stops r \<Longrightarrow> settled (\<lambda>n. p_value n (dump num ind level v @ r)) (v, r)"
  "items_ok num xs \<Longrightarrow> xs \<noteq> [] \<Longrightarrow> blank b \<Longrightarrow>
    settled (\<lambda>n. p_elems n (dump_items num ind level xs @ b @ CHR '']'' # r)) (xs, r)"
  "members_ok num kvs \<Longrightarrow> kvs \<noteq> [] \<Longrightarrow> blank b \<Longrightarrow>
    settled (\<lambda>n. p_members n (tl (dump_members num ind level kvs) @ b @ CHR ''}'' # r)) (kvs, r)"
proof (induction num ind level v and num ind level xs and num ind level kvs arbitrary: r and b r and b r
    rule: dump_dump_items_dump_members.induct)
  case (1 num ind level)
  show ?case by (rule settled_Suc) (simp add: p_value.simps(2) settled_const)
next
  case (2 num ind level b)
  show ?case by (rule settled_Suc) (simp add: p_value.simps(2) settled_const)
next
  case (3 num ind level q)
  then show ?case by (intro settled_Suc [of "\<lambda>n. p_value n _"]) (simp add: read_number settled_const)
next
  case (4 num ind level s)
  show ?case by (rule settled_Suc) (simp add: p_value.simps(2) dump_str_def scan_dump mapr_def settled_const)
next
  case (5 num ind level xs)
  then show ?case by (intro read_list) simp_all
next
  case (6 num ind level kvs)
  then show ?case by (intro read_object) simp
next
  case (8 num ind level x xs)
  then show ?case by (intro read_items) simp_all
next
  case (10 num ind level k v kvs)
  then show ?case by (intro read_members) simp_all
qed simp_all

lemma loads_dumps:
  assumes "prints_ok num v" and "blank b"
  shows "json_loads (json_dumps num ind v @ b) = Inr v"
proof -
  let ?s = "json_dumps num ind v @ b"
  have "stops b" using assms(2) by (cases b) (auto simp: stops_def is_digit_range json_space_def)
  then obtain N where N: "\<forall>n \<ge> N. p_value n ?s = Some (v, b)"
    using dump_reads(1) [OF assms(1), of b ind 0] by (auto simp: settled_def json_dumps_def)
  have "p_value (Suc (2 * length ?s)) ?s = p_value (max N (Suc (2 * length ?s))) ?s"
    by (rule json_fuel_enough [symmetric]) simp
  with N have "p_value (Suc (2 * length ?s)) ?s = Some (v, b)" by simp
  moreover have "skip_ws ?s = ?s" using dump_skip [OF assms(1)] by (simp add: json_dumps_def)
  moreover have "skip_ws b = []" using skip_blank [OF assms(2), of "[]"] by (simp add: skip_ws_def)
  ultimately show ?thesis by (simp add: json_loads_def)
qed

subsection \<open>Properties\<close>

text \<open>A sample value.\<close>

definition sample_num :: "rat \<Rightarrow> string" where
  "sample_num q = (if q = 15 then ''15'' else if q = 1 then ''1.0'' else ''-2.5e-1'')"

definition sample_json :: jval where
  "sample_json = JObj [(''journal'', JStr ''/j\<newline>''), (''mbps'', JNum 15), (''cycle'', JNum 1), (''x'', JList [JNull, JBool True, JNum (- (1/4)), JObj []])]"

lemma sample_json_prints: "prints_ok sample_num sample_json"
  by code_simp

text \<open>
  (C22) What the daemon writes is what the programs read: at every moment of its \<^verbatim>\<open>write_json\<close>, and after a
  power failure at any moment, each of the four \<^verbatim>\<open>load_json\<close> gives what it gave before or the value
  that is written, never an error or a default that was not there before.
\<close>

theorem write_json_loads:
  assumes "prints_ok num v" and "concat pieces = json_dumps num (Some 1) v" and "\<forall>i. m path = Some i \<longrightarrow> i_synced i"
    and "r = reads (run_steps (write_json path pieces) k m) path \<or> after_crash (write_json path pieces) k m path r"
  shows "load_json dflt r \<in> {load_json dflt (reads m path), Inr v} \<and>
    rb_load_json r \<in> {rb_load_json (reads m path), Inr v} \<and>
    seed_load_json dflt r \<in> {seed_load_json dflt (reads m path), v} \<and>
    api_load dflt r \<in> {api_load dflt (reads m path), v}"
proof -
  have "r \<in> {reads m path, Some (json_dumps num (Some 1) v)}"
    using write_json_reads [OF assms(3,4)] assms(2) by simp
  moreover have "json_loads (json_dumps num (Some 1) v) = Inr v" using loads_dumps [OF assms(1), of "[]"] by simp
  ultimately show ?thesis
    by (auto simp: load_json_def rb_load_json_def seed_load_json_def api_load_def)
qed

theorem write_json_loads_witness:
  "load_json JNull (reads (run_steps (write_json ''m'' [json_dumps sample_num (Some 1) sample_json]) 4 (\<lambda>_. None)) ''m'') \<in> {Inr JNull, Inr sample_json}"
  using write_json_loads [OF sample_json_prints _ _ disjI1 [OF refl],
      of "[json_dumps sample_num (Some 1) sample_json]" "\<lambda>_. None" "''m''" JNull 4, THEN conjunct1]
  by (simp add: load_json_def reads_def)

end
