(* ===== verification/Json_Torn.thy ===== *)
theory Json_Torn
  imports Json_Text "HOL-Library.Sublist"
begin

text \<open>
  JSON files of which only a beginning is on disk. A proper prefix of what \<^verbatim>\<open>json.dump\<close> wrote is never
  read as a value, unless the value is a number; so a torn \<^verbatim>\<open>manifest.json\<close>, \<^verbatim>\<open>status.json\<close> or
  \<^verbatim>\<open>recovery.json\<close> is an error of \<^verbatim>\<open>json.load\<close> and not a shorter manifest.
\<close>

subsection \<open>Texts that are cut short\<close>

lemma strict_prefix_appendD:
  assumes "strict_prefix s (a @ b)"
  shows "strict_prefix s a \<or> (\<exists>t. s = a @ t \<and> strict_prefix t b)"
proof -
  obtain w where w: "a @ b = s @ w" "w \<noteq> []" using assms by (auto elim: strict_prefixE')
  from w(1) obtain us where "a = s @ us \<and> us @ b = w \<or> a @ us = s \<and> b = us @ w" by (auto simp: append_eq_append_conv2)
  with w(2) show ?thesis by (cases "us = []") (auto simp: strict_prefix_def)
qed

lemma strict_prefix_ConsD: "strict_prefix s (c # u) \<Longrightarrow> s = [] \<or> (\<exists>t. s = c # t \<and> strict_prefix t u)"
  by (cases s) (auto simp: strict_prefix_def)

lemma strict_prefix_blank: "blank b \<Longrightarrow> strict_prefix s b \<Longrightarrow> blank s"
  by (auto simp: blank_def list_all_iff dest: prefix_order.less_imp_le set_mono_prefix)

lemma next_blank_None: "blank s \<Longrightarrow> next_char s = None"
  using skip_blank [of s "[]"] by (simp add: next_char_def) (simp add: skip_ws_def)

text \<open>A gap and the bracket that ends a list or an object: nothing comes before the bracket.\<close>

lemma next_cut: "blank b \<Longrightarrow> strict_prefix t (b @ [c]) \<Longrightarrow> next_char t = None"
  by (rule next_blank_None) (auto dest!: strict_prefix_appendD strict_prefix_ConsD dest: strict_prefix_blank)

lemma bind_mono:
  "Option.bind m f = Some y \<Longrightarrow> (\<And>x. m = Some x \<Longrightarrow> m' = Some x) \<Longrightarrow>
    (\<And>a r. m = Some (a, r) \<Longrightarrow> f (a, r) = Some y \<Longrightarrow> g (a, r) = Some y) \<Longrightarrow> Option.bind m' g = Some y"
  by (cases m) auto

lemma mapr_mono: "mapr f m = Some y \<Longrightarrow> (\<And>x. m = Some x \<Longrightarrow> m' = Some x) \<Longrightarrow> mapr f m' = Some y"
  by (cases m) (auto simp: mapr_def)

lemma p_mono:
  "p_value n s = Some x \<Longrightarrow> p_value (Suc n) s = Some x"
  "p_elems n s = Some xs \<Longrightarrow> p_elems (Suc n) s = Some xs"
  "p_members n s = Some kvs \<Longrightarrow> p_members (Suc n) s = Some kvs"
proof (induction n s and n s and n s arbitrary: x and xs and kvs rule: p_value_p_elems_p_members.induct)
  case (2 n s)
  have m: "p_members (Suc n) t = Some y"
    if "hd s = CHR ''{''" "s \<noteq> []" "next_char (tl s) = Some (quote, t)" "p_members n t = Some y" for t y
    using "2.IH"(1) that by auto
  have e: "p_elems (Suc n) (c # t) = Some y"
    if "hd s = CHR ''[''" "s \<noteq> []" "next_char (tl s) = Some (c, t)" "c \<noteq> CHR '']''" "p_elems n (c # t) = Some y" for c t y
    using "2.IH"(2) that by auto
  show ?case
    using "2.prems" unfolding p_value.simps(2) [of n s] p_value.simps(2) [of "Suc n" s]
    by (auto split: if_splits elim!: bind_mono mapr_mono intro: m e)
next
  case (4 n s)
  have e: "p_elems (Suc n) (skip_ws t) = Some y"
    if "p_value n s = Some (v, r)" "next_char r = Some (CHR '','', t)" "p_elems n (skip_ws t) = Some y" for v r t y
    using "4.IH"(2) [OF that(1) refl that(2) refl] that(3) by simp
  show ?case
    using "4.prems" unfolding p_elems.simps(2) [of n s] p_elems.simps(2) [of "Suc n" s]
    by (auto split: if_splits elim!: bind_mono mapr_mono intro: e "4.IH"(1))
next
  case (6 n s)
  have v: "p_value (Suc n) (skip_ws t) = Some y"
    if "scanstring s = Some (k, r)" "next_char r = Some (CHR '':'', t)" "p_value n (skip_ws t) = Some y" for k r t y
    using "6.IH"(1) [OF that(1) refl that(2) refl] that(3) by simp
  have m: "p_members (Suc n) t3 = Some y"
    if "scanstring s = Some (k, r)" "next_char r = Some (CHR '':'', t)" "p_value n (skip_ws t) = Some (v, r2)"
      "next_char r2 = Some (CHR '','', t2)" "next_char t2 = Some (quote, t3)" "p_members n t3 = Some y" for k r t v r2 t2 t3 y
    using "6.IH"(2) [OF that(1) refl that(2) refl _ that(3) refl that(4) refl _ _ that(5) refl] that(6) by simp
  show ?case
    using "6.prems" unfolding p_members.simps(2) [of n s] p_members.simps(2) [of "Suc n" s]
    by (auto split: if_splits elim!: bind_mono mapr_mono) (use v m in blast)+
qed simp_all

lemma settled_value: "settled (\<lambda>n. p_value n s) x \<Longrightarrow> p_value n s = None \<or> p_value n s = Some x"
proof (cases "p_value n s")
  case (Some y)
  have "p_value (n + k) s = Some y" for k using Some p_mono(1) by (induction k) auto
  moreover assume "settled (\<lambda>n. p_value n s) x"
  ultimately show ?thesis using Some unfolding settled_def by (metis le_add2 option.inject)
qed simp

definition num_char :: "char \<Rightarrow> bool" where
  "num_char c \<longleftrightarrow> is_digit c \<or> c \<in> {CHR ''-'', CHR ''+'', CHR ''.'', CHR ''e'', CHR ''E''}"

lemma num_char_false [simp]: "\<not> num_char CHR '',''" "\<not> num_char CHR '']''" "\<not> num_char CHR ''}''" "num_char c \<Longrightarrow> \<not> json_space c"
  by (auto simp: num_char_def is_digit_range json_space_def)

lemma json_number_rest: "json_number s = Some (q, r) \<Longrightarrow> set r \<subseteq> set s"
proof -
  have d: "set (rest_of t) \<subseteq> set t" for t by (auto simp: rest_of_def dest: set_dropWhileD)
  have i: "set r \<subseteq> set t" if "int_part t = Some (n, r)" for t n r
    using that d [of t] by (auto simp: int_part_def split: list.splits if_splits)
  have f: "set (snd (frac_part t)) \<subseteq> set t" for t
    using d [of "tl t"] by (auto simp: frac_part_def split: list.splits)
  have e: "set (snd (exp_part t)) \<subseteq> set t" for t
    using d [of "snd (split_sign (tl t))"] by (auto simp: exp_part_def split_sign_def Let_def split: list.splits if_splits)
  assume "json_number s = Some (q, r)"
  then obtain n r1 where t: "int_part (if s \<noteq> [] \<and> hd s = CHR ''-'' then tl s else s) = Some (n, r1)"
      "r = snd (exp_part (snd (frac_part r1)))"
    by (cases "int_part (if s \<noteq> [] \<and> hd s = CHR ''-'' then tl s else s)") (auto simp: json_number_def Let_def case_prod_beta)
  have "set (if s \<noteq> [] \<and> hd s = CHR ''-'' then tl s else s) \<subseteq> set s" by (cases s) auto
  with i [OF t(1)] f [of r1] e [of "snd (frac_part r1)"] show ?thesis unfolding t(2) by blast
qed

text \<open>A string without its closing quote.\<close>

lemma hex4_short: "length s < 4 \<Longrightarrow> hex4 s = None"
  by (auto simp: hex4_def split: list.splits option.splits dest: arg_cong [where f = length])

lemma scan_cut_escape: "strict_prefix t (escape_char c) \<Longrightarrow> scanstring t = None"
proof -
  assume t: "strict_prefix t (escape_char c)"
  let ?n = "of_char c :: nat"
  consider e where "escape_char c = [backslash, e]" "e \<noteq> CHR ''u''" | "escape_char c = [c]"
    | "escape_char c = [backslash, CHR ''u'', CHR ''0'', CHR ''0'', hex_digit (?n div 16), hex_digit (?n mod 16)]"
    by (cases "map_of short_escapes c"; cases "32 \<le> ?n \<and> ?n \<le> 126") (auto simp: escape_char_def Let_def dest: short_escape_cases)
  then show ?thesis
    using t by cases (auto dest!: strict_prefix_ConsD simp: hex4_short)
qed

lemma scan_cut: "strict_prefix t (concat (map escape_char s) @ [quote]) \<Longrightarrow> scanstring t = None"
proof (induction s arbitrary: t)
  case Nil
  then show ?case by (auto dest: strict_prefix_ConsD)
next
  case (Cons c s)
  then have "strict_prefix t (escape_char c @ concat (map escape_char s) @ [quote])" by simp
  from strict_prefix_appendD [OF this] show ?case
    using Cons.IH scan_cut_escape by (auto simp: scan_escape mapr_def)
qed

text \<open>A value that is cut short is not read, but for a number, after which nothing but characters
  of numbers is left.\<close>

definition cut_ok :: "jval \<Rightarrow> (jval \<times> string) option \<Rightarrow> bool" where
  "cut_ok v m = (case m of None \<Rightarrow> True | Some (_, r) \<Rightarrow> (\<exists>q. v = JNum q) \<and> list_all num_char r)"

lemma num_next: "list_all num_char r \<Longrightarrow> next_char r = None \<or> (\<exists>c t. next_char r = Some (c, t) \<and> num_char c)"
  by (cases r) (auto simp: next_char_def skip_ws_def)

lemma json_number_None: "\<not> num_char c \<Longrightarrow> json_number (c # s) = None"
  using json_number_start [of "c # s"] by (cases "json_number (c # s)") (auto simp: num_char_def)

lemma cut_word:
  assumes "strict_prefix s w" "w \<in> {''null'', ''true'', ''false''}"
  shows "p_value n s = None"
proof (cases n)
  case (Suc m)
  have "\<not> num_char CHR ''n''" "\<not> num_char CHR ''t''" "\<not> num_char CHR ''f''" by (auto simp: num_char_def is_digit_range)
  with Suc assms show ?thesis
    by (auto simp: p_value.simps(2) mapr_def json_number_None dest!: strict_prefix_ConsD)
qed simp

lemma cut_number:
  assumes "strict_prefix s (num q)" "list_all num_char (num q)"
  shows "cut_ok (JNum q) (p_value n s)"
proof (cases n)
  case (Suc m)
  have s: "list_all num_char s" using assms set_mono_prefix [of s "num q"] by (auto simp: list_all_iff strict_prefix_def)
  show ?thesis
  proof (cases "s = []")
    case False
    then obtain c t where ct: "s = c # t" "num_char c" using s by (cases s) auto
    then have "c \<noteq> quote" "c \<noteq> CHR ''{''" "c \<noteq> CHR ''[''" "c \<noteq> CHR ''n''" "c \<noteq> CHR ''t''" "c \<noteq> CHR ''f''"
      by (auto simp: num_char_def is_digit_range)
    then have "p_value n s = mapr JNum (json_number s)" using ct Suc by (simp add: p_value.simps(2) numeral_eq_Suc)
    with s json_number_rest [of s] show ?thesis
      by (auto simp: cut_ok_def list_all_iff split: option.splits)
  qed (use Suc in \<open>simp add: p_value.simps(2) cut_ok_def\<close>)
qed (simp add: cut_ok_def)

lemma cut_open:
  assumes "strict_prefix s (b @ d # u)" "blank b" "\<not> json_space d"
  shows "next_char s = None \<or> (\<exists>t. next_char s = Some (d, t) \<and> strict_prefix t u)"
  using strict_prefix_appendD [OF assms(1)] assms(2,3) next_blank [of b d] next_blank_None
  by (auto dest: strict_prefix_blank strict_prefix_ConsD)

text \<open>An element that is complete, and what follows it is cut.\<close>

lemma cut_items_step:
  assumes v: "strict_prefix s d \<Longrightarrow> cut_ok v (p_value n s)"
    and r: "\<And>t. s = d @ t \<Longrightarrow> strict_prefix t u \<Longrightarrow> settled (\<lambda>n. p_value n (d @ t)) (v, t)"
    and next_ok: "\<And>t c t'. strict_prefix t u \<Longrightarrow> next_char t = Some (c, t') \<Longrightarrow> c = CHR '','' \<and> p_elems n (skip_ws t') = None"
    and s: "strict_prefix s (d @ u)"
  shows "p_elems (Suc n) s = None"
  using strict_prefix_appendD [OF s]
proof (elim disjE exE conjE)
  assume "strict_prefix s d"
  from v [OF this] show ?thesis
    using num_next by (cases "p_value n s") (fastforce simp: p_elems.simps(2) cut_ok_def)+
next
  fix t assume t: "s = d @ t" "strict_prefix t u"
  from settled_value [OF r [OF t], of n] show ?thesis
    using t(1) next_ok [OF t(2)] by (cases "next_char t") (auto simp: p_elems.simps(2) mapr_def)
qed

lemma cut_members_step:
  assumes v: "\<And>t. strict_prefix t d \<Longrightarrow> cut_ok v (p_value n (skip_ws t))"
    and r: "\<And>t. strict_prefix t u \<Longrightarrow> settled (\<lambda>n. p_value n (d @ t)) (v, t) \<and> skip_ws (d @ t) = d @ t"
    and next_ok: "\<And>t c t'. strict_prefix t u \<Longrightarrow> next_char t = Some (c, t') \<Longrightarrow>
      c = CHR '','' \<and> (\<forall>q t''. next_char t' = Some (q, t'') \<longrightarrow> p_members n t'' = None)"
    and s: "strict_prefix s (concat (map escape_char k) @ quote # CHR '':'' # CHR '' '' # d @ u)"
  shows "p_members (Suc n) s = None"
proof (cases "strict_prefix s (concat (map escape_char k) @ [quote])")
  case True
  then show ?thesis by (simp add: p_members.simps(2) scan_cut)
next
  case False
  have "strict_prefix s ((concat (map escape_char k) @ [quote]) @ CHR '':'' # CHR '' '' # d @ u)" using s by simp
  from strict_prefix_appendD [OF this] False obtain t where
    t: "s = concat (map escape_char k) @ quote # t" "strict_prefix t (CHR '':'' # CHR '' '' # d @ u)" by auto
  have sc: "scanstring s = Some (k, t)" using t(1) by (simp add: scan_dump)
  consider "next_char t = None" | "next_char t = Some (CHR '':'', [])"
    | t' where "next_char t = Some (CHR '':'', CHR '' '' # t')" "strict_prefix t' (d @ u)"
    using cut_open [of t "[]" "CHR '':''" "CHR '' '' # d @ u"] t(2) by (auto dest!: strict_prefix_ConsD)
  then show ?thesis
  proof cases
    case 2
    moreover have "p_value n (skip_ws []) = None" by (cases n) (simp_all add: skip_ws_def p_value.simps(2))
    ultimately show ?thesis using sc by (simp add: p_members.simps(2))
  next
    case 3
    have ws: "skip_ws (CHR '' '' # t') = skip_ws t'" by (simp add: skip_ws_def)
    from strict_prefix_appendD [OF 3(2)] show ?thesis
    proof (elim disjE exE conjE)
      assume "strict_prefix t' d"
      from v [OF this] show ?thesis
        using num_next 3(1) sc ws by (cases "p_value n (skip_ws t')") (fastforce simp: p_members.simps(2) cut_ok_def)+
    next
      fix w assume w: "t' = d @ w" "strict_prefix w u"
      from settled_value [OF conjunct1 [OF r [OF w(2)]], of n] show ?thesis
        using w(1) next_ok [OF w(2)] r [OF w(2)] 3(1) sc ws
        by (cases "next_char w") (auto simp: p_members.simps(2) bind_eq_None_conv bind_eq_Some_conv split: if_splits)
    qed
  qed (use sc in \<open>simp add: p_members.simps(2)\<close>)
qed

lemma p_value_Nil [simp]: "p_value n [] = None"
  by (cases n) (simp_all add: p_value.simps(2))

lemma stops_cut: "strict_prefix t (b @ c # u) \<Longrightarrow> blank b \<Longrightarrow> c \<in> {CHR '','', CHR '']'', CHR ''}''} \<Longrightarrow> stops t"
  using stops_blank [of b c u] by (cases t; cases b) (auto simp: stops_def strict_prefix_def)

lemma skip_cut:
  assumes "blank b" "strict_prefix t (b @ d # u)" "\<not> json_space d"
  shows "skip_ws t = [] \<or> strict_prefix (skip_ws t) (d # u)"
  using strict_prefix_appendD [OF assms(2)]
proof (elim disjE exE conjE)
  assume "strict_prefix t b"
  then show ?thesis using strict_prefix_blank [OF assms(1)] skip_blank [of t "[]"] by (simp add: skip_ws_def)
next
  fix w assume w: "t = b @ w" "strict_prefix w (d # u)"
  then have "skip_ws w = w" using assms(3) by (auto simp: skip_ws_def dest: strict_prefix_ConsD)
  with w skip_blank [OF assms(1)] show ?thesis by simp
qed

lemma cut_list:
  assumes "items_ok num xs" "strict_prefix s (dump num ind level (JList xs))"
    and more: "\<And>t m. xs \<noteq> [] \<Longrightarrow> strict_prefix t (dump_items num ind (Suc level) xs @ new_line ind level @ '']'') \<Longrightarrow> p_elems m t = None"
  shows "p_value n s = None"
proof (cases n)
  case (Suc m)
  consider "s = []" | t where "s = CHR ''['' # t" "xs = []" "strict_prefix t '']''"
    | t where "s = CHR ''['' # t" "xs \<noteq> []"
        "strict_prefix t (new_line ind (Suc level) @ dump_items num ind (Suc level) xs @ new_line ind level @ '']'')"
    using assms(2) by (auto split: if_splits dest!: strict_prefix_ConsD)
  then show ?thesis
  proof cases
    case 3
    obtain d u where du: "dump_items num ind (Suc level) xs @ new_line ind level @ '']'' = d # u" "\<not> json_space d" "d \<noteq> CHR '']''"
      using dump_items_start [OF assms(1) 3(2)] by metis
    have "p_elems m (d # t') = None" if "strict_prefix t' u" for t'
      using that du(1) more [OF 3(2), of "d # t'" m] by (simp add: strict_prefix_def)
    moreover have "strict_prefix t (new_line ind (Suc level) @ d # u)" using 3(3) du(1) by simp
    ultimately show ?thesis
      using cut_open [of t "new_line ind (Suc level)" d u] du(2,3) 3(1) Suc by (auto simp: p_value.simps(2) mapr_def)
  qed (use Suc in \<open>auto simp: p_value.simps(2) next_char_def skip_ws_def dest!: strict_prefix_ConsD\<close>)
qed simp

lemma cut_object:
  assumes "strict_prefix s (dump num ind level (JObj kvs))"
    and more: "\<And>t m. kvs \<noteq> [] \<Longrightarrow> strict_prefix t (tl (dump_members num ind (Suc level) kvs) @ new_line ind level @ ''}'') \<Longrightarrow> p_members m t = None"
  shows "p_value n s = None"
proof (cases n)
  case (Suc m)
  consider "s = []" | t where "s = CHR ''{'' # t" "kvs = []" "strict_prefix t ''}''"
    | t where "s = CHR ''{'' # t" "kvs \<noteq> []"
        "strict_prefix t (new_line ind (Suc level) @ dump_members num ind (Suc level) kvs @ new_line ind level @ ''}'')"
    using assms(1) by (auto split: if_splits dest!: strict_prefix_ConsD)
  then show ?thesis
  proof cases
    case 3
    obtain u where u: "dump_members num ind (Suc level) kvs = quote # u" using dump_members_start [OF 3(2)] by blast
    then show ?thesis
      using more [OF 3(2), of _ m] cut_open [of t "new_line ind (Suc level)" quote "u @ new_line ind level @ ''}''"] 3(1,3) Suc
      by (auto simp: p_value.simps(2) mapr_def)
  qed (use Suc in \<open>auto simp: p_value.simps(2) next_char_def skip_ws_def dest!: strict_prefix_ConsD\<close>)
qed simp

lemma cut_items:
  assumes v: "\<And>s n. strict_prefix s (dump num ind level x) \<Longrightarrow> cut_ok x (p_value n s)"
    and more: "\<And>t m. xs \<noteq> [] \<Longrightarrow> strict_prefix t (dump_items num ind level xs @ b @ '']'') \<Longrightarrow> p_elems m t = None"
    and ok: "prints_ok num x" "items_ok num xs" "blank b"
    and s: "strict_prefix s (dump_items num ind level (x # xs) @ b @ '']'')"
  shows "p_elems n s = None"
proof (cases n)
  case (Suc m)
  obtain sp where sp: "item_sep ind level = CHR '','' # sp" "blank sp" using item_sep_eq by blast
  let ?u = "if xs = [] then b @ '']'' else CHR '','' # sp @ dump_items num ind level xs @ b @ '']''"
  have next_ok: "c = CHR '','' \<and> p_elems m (skip_ws t') = None" if t: "strict_prefix t ?u" "next_char t = Some (c, t')" for t c t'
  proof (cases "xs = []")
    case True
    then show ?thesis using t next_cut [OF ok(3), of t] by simp
  next
    case False
    have t': "c = CHR '','' \<and> strict_prefix t' (sp @ dump_items num ind level xs @ b @ '']'')"
      using cut_open [of t "[]" "CHR '',''"] t False by auto
    obtain d u where "dump_items num ind level xs @ b @ '']'' = d # u" "\<not> json_space d"
      using dump_items_start [OF ok(2) False] by metis
    then have "skip_ws t' = [] \<or> strict_prefix (skip_ws t') (dump_items num ind level xs @ b @ '']'')"
      using skip_cut [OF sp(2)] t' by simp
    moreover have "p_elems m [] = None" by (cases m) (simp_all add: p_elems.simps(2))
    ultimately show ?thesis using t' more [OF False] by auto
  qed
  have r: "settled (\<lambda>n. p_value n (dump num ind level x @ t)) (x, t)" if "strict_prefix t ?u" for t
    using dump_reads(1) [OF ok(1), of t] that ok(3) stops_cut [of t b "CHR '']''" "[]"] stops_cut [of t "[]" "CHR '',''"]
    by (auto split: if_splits)
  have cut: "strict_prefix s (dump num ind level x @ ?u)" using s sp(1) by (auto split: if_splits)
  show ?thesis
    unfolding Suc by (rule cut_items_step [where v = x, OF _ _ _ cut]) (erule v, erule r, rule next_ok)
qed simp

lemma cut_members:
  assumes v: "\<And>s n. strict_prefix s (dump num ind level v) \<Longrightarrow> cut_ok v (p_value n s)"
    and more: "\<And>t m. kvs \<noteq> [] \<Longrightarrow> strict_prefix t (tl (dump_members num ind level kvs) @ b @ ''}'') \<Longrightarrow> p_members m t = None"
    and ok: "prints_ok num v" "blank b"
    and s: "strict_prefix s (tl (dump_members num ind level ((k, v) # kvs)) @ b @ ''}'')"
  shows "p_members n s = None"
proof (cases n)
  case (Suc m)
  obtain sp where sp: "item_sep ind level = CHR '','' # sp" "blank sp" using item_sep_eq by blast
  let ?u = "if kvs = [] then b @ ''}'' else CHR '','' # sp @ dump_members num ind level kvs @ b @ ''}''"
  have v': "cut_ok v (p_value m (skip_ws t))" if t: "strict_prefix t (dump num ind level v)" for t
    using v t skip_cut [of "[]" t "hd (dump num ind level v)" "tl (dump num ind level v)"] dump_start [OF ok(1), of ind level]
    by (cases "skip_ws t = []") (auto simp: cut_ok_def)
  have next_ok: "c = CHR '','' \<and> (\<forall>q t''. next_char t' = Some (q, t'') \<longrightarrow> p_members m t'' = None)"
    if t: "strict_prefix t ?u" "next_char t = Some (c, t')" for t c t'
  proof (cases "kvs = []")
    case True
    then show ?thesis using t next_cut [OF ok(2), of t] by simp
  next
    case False
    obtain w where w: "dump_members num ind level kvs = quote # w" using dump_members_start [OF False] by blast
    have t': "c = CHR '','' \<and> strict_prefix t' (sp @ quote # w @ b @ ''}'')"
      using cut_open [of t "[]" "CHR '',''"] t False w by auto
    then have "next_char t' = None \<or> (\<exists>t''. next_char t' = Some (quote, t'') \<and> strict_prefix t'' (w @ b @ ''}''))"
      using cut_open [OF _ sp(2)] by simp
    then show ?thesis using t' w more [OF False] by auto
  qed
  have r: "settled (\<lambda>n. p_value n (dump num ind level v @ t)) (v, t) \<and> skip_ws (dump num ind level v @ t) = dump num ind level v @ t"
    if "strict_prefix t ?u" for t
    using dump_reads(1) [OF ok(1), of t] dump_skip [OF ok(1)] that ok(2) stops_cut [of t b "CHR ''}''" "[]"]
      stops_cut [of t "[]" "CHR '',''"] by (auto split: if_splits)
  have cut: "strict_prefix s (concat (map escape_char k) @ quote # CHR '':'' # CHR '' '' # dump num ind level v @ ?u)"
    using s sp(1) by (auto simp: dump_str_def split: if_splits)
  show ?thesis
    unfolding Suc by (rule cut_members_step [where v = v, OF _ _ _ cut]) (erule v', erule r, rule next_ok)
qed simp

lemma cut_reads:
  "prints_ok num v \<Longrightarrow> \<forall>q. list_all num_char (num q) \<Longrightarrow> strict_prefix s (dump num ind level v) \<Longrightarrow> cut_ok v (p_value n s)"
  "items_ok num xs \<Longrightarrow> \<forall>q. list_all num_char (num q) \<Longrightarrow> xs \<noteq> [] \<Longrightarrow> blank b \<Longrightarrow>
    strict_prefix s (dump_items num ind level xs @ b @ '']'') \<Longrightarrow> p_elems n s = None"
  "members_ok num kvs \<Longrightarrow> \<forall>q. list_all num_char (num q) \<Longrightarrow> kvs \<noteq> [] \<Longrightarrow> blank b \<Longrightarrow>
    strict_prefix s (tl (dump_members num ind level kvs) @ b @ ''}'') \<Longrightarrow> p_members n s = None"
proof (induction num ind level v and num ind level xs and num ind level kvs arbitrary: s n and b s n and b s n
    rule: dump_dump_items_dump_members.induct)
  case (1 num ind level)
  then show ?case using cut_word [of s "''null''" n] by (simp add: cut_ok_def)
next
  case (2 num ind level b)
  then show ?case using cut_word [of s "if b then ''true'' else ''false''" n] by (simp add: cut_ok_def)
next
  case (3 num ind level q)
  then have "list_all num_char (num q)" "strict_prefix s (num q)" by (blast, simp)
  then show ?case by (intro cut_number)
next
  case (4 num ind level str)
  then show ?case
    by (cases n) (auto simp: cut_ok_def p_value.simps(2) dump_str_def scan_cut mapr_def dest!: strict_prefix_ConsD)
next
  case (5 num ind level xs)
  have "p_elems m t = None" if "xs \<noteq> []" "strict_prefix t (dump_items num ind (Suc level) xs @ new_line ind level @ '']'')" for t m
    using "5.IH" [OF that(1) _ "5.prems"(2) that(1) blank_simps(2) that(2)] "5.prems"(1) by simp
  with "5.prems"(1) have "p_value n s = None" by (intro cut_list [OF _ "5.prems"(3)]) auto
  then show ?case by (simp add: cut_ok_def)
next
  case (6 num ind level kvs)
  have "p_members m t = None" if "kvs \<noteq> []" "strict_prefix t (tl (dump_members num ind (Suc level) kvs) @ new_line ind level @ ''}'')" for t m
    using "6.IH" [OF that(1) _ "6.prems"(2) that(1) blank_simps(2) that(2)] "6.prems"(1) by simp
  then have "p_value n s = None" by (intro cut_object [OF "6.prems"(3)]) auto
  then show ?case by (simp add: cut_ok_def)
next
  case (8 num ind level x xs)
  have ok: "prints_ok num x" "items_ok num xs" using "8.prems"(1) by simp_all
  show ?case
    by (rule cut_items [OF "8.IH"(1) [OF ok(1) "8.prems"(2)] _ ok "8.prems"(4,5)])
      (assumption, rule "8.IH"(2) [OF _ ok(2) "8.prems"(2) _ "8.prems"(4)])
next
  case (10 num ind level k v kvs)
  have ok: "prints_ok num v" "members_ok num kvs" using "10.prems"(1) by simp_all
  show ?case
    by (rule cut_members [OF "10.IH"(1) [OF ok(1) "10.prems"(2)] _ ok(1) "10.prems"(4,5)])
      (assumption, rule "10.IH"(2) [OF _ ok(2) "10.prems"(2) _ "10.prems"(4)])
qed simp_all

subsection \<open>Properties\<close>

text \<open>
  (C21) A file that was cut short is noticed: when a value that is not a number was written and only a
  proper beginning of its text is on disk, down to the empty file, reading it is an error, whatever
  the value; the daemon and \<^verbatim>\<open>rkcdp-rebuild\<close> see the exception, \<^verbatim>\<open>rkcdp-seed\<close> and the web service the
  default. Numbers are written with digits, sign, point and exponent.
\<close>

theorem torn_json_noticed:
  assumes "prints_ok num v" and "\<forall>q. list_all num_char (num q)" and "\<forall>q. v \<noteq> JNum q"
    and "k < length (json_dumps num ind v)"
  shows "load_json dflt (Some (take k (json_dumps num ind v))) = Inl JSONDecodeError \<and>
    rb_load_json (Some (take k (json_dumps num ind v))) = Inl JSONDecodeError \<and>
    seed_load_json dflt (Some (take k (json_dumps num ind v))) = dflt \<and>
    api_load dflt (Some (take k (json_dumps num ind v))) = dflt"
proof -
  let ?s = "take k (json_dumps num ind v)"
  have cut: "strict_prefix ?s (dump num ind 0 v)"
    using assms(4) by (auto simp: json_dumps_def strict_prefix_def take_is_prefix)
  then have "p_value n ?s = None" for n
    using cut_reads(1) [OF assms(1,2) cut, of n] assms(3) by (auto simp: cut_ok_def split: option.splits)
  moreover have "skip_ws ?s = [] \<or> skip_ws ?s = ?s"
    using dump_start [OF assms(1), of ind 0] by (cases "dump num ind 0 v"; cases k) (auto simp: json_dumps_def skip_ws_def)
  ultimately have "json_loads ?s = Inl JSONDecodeError" by (auto simp: json_loads_def)
  then show ?thesis by (simp add: load_json_def rb_load_json_def seed_load_json_def api_load_def)
qed

theorem torn_json_noticed_witness:
  "load_json JNull (Some (take 20 (json_dumps sample_num (Some 1) sample_json))) = Inl JSONDecodeError \<and>
    api_load JNull (Some (take 20 (json_dumps sample_num (Some 1) sample_json))) = JNull"
proof -
  have "list_all num_char (sample_num q)" for q
    by (simp add: sample_num_def num_char_def is_digit_range)
  moreover have "20 < length (json_dumps sample_num (Some 1) sample_json)" by code_simp
  ultimately show ?thesis
    using torn_json_noticed [OF sample_json_prints, of 20 "Some 1" JNull] by (simp add: sample_json_def)
qed

end
