(* ===== verification/Recovery_File.thy ===== *)
theory Recovery_File
  imports Main_Loop Json_Text
begin

text \<open>
  \<^verbatim>\<open>recovery.json\<close> between two lives of \<^verbatim>\<open>rkcdp/rkcdpd.py\<close>: the dictionary that \<^verbatim>\<open>start_recovery\<close> hands to
  \<^verbatim>\<open>write_json\<close>, and what \<^verbatim>\<open>main\<close>, \<^verbatim>\<open>recover\<close> and \<^verbatim>\<open>write_status\<close> of the next daemon take from the text they
  find. The tuples of the extents come back as lists; the loop of \<^verbatim>\<open>recover\<close> unpacks both.

  Which exception a malformed entry of the list raises is not told apart here.
\<close>

subsection \<open>Writing\<close>

definition json_of_recovery :: "recovery_rec \<Rightarrow> jval" where
  "json_of_recovery rec =
     JObj [(''gap_seq'', JNum (of_int (rc_gap_seq rec))),
           (''extents'', JList (map (\<lambda>(sector, nsect). JList [JNum (of_nat sector), JNum (of_nat nsect)]) (rc_extents rec))),
           (''started'', JNum (rc_started rec))]"

subsection \<open>Reading\<close>

text \<open>\<^verbatim>\<open>for sector, nsect in rec["extents"]\<close> with the offsets that are computed from them.\<close>

definition extent_of_json :: "jval \<Rightarrow> (nat \<times> nat) result" where
  "extent_of_json v =
     (case v of
        JList [JNum s, JNum n] \<Rightarrow>
          if s = of_nat (nat \<lfloor>s\<rfloor>) \<and> n = of_nat (nat \<lfloor>n\<rfloor>) then Inr (nat \<lfloor>s\<rfloor>, nat \<lfloor>n\<rfloor>) else Inl TypeError
      | _ \<Rightarrow> Inl TypeError)"

primrec extents_of_json :: "jval list \<Rightarrow> (nat \<times> nat) list result" where
  "extents_of_json [] = Inr []"
| "extents_of_json (v # vs) =
     bind_result (extent_of_json v) (\<lambda>e. bind_result (extents_of_json vs) (\<lambda>es. Inr (e # es)))"

text \<open>\<^verbatim>\<open>prev = load_json(self.recovery_path)\<close>, \<^verbatim>\<open>if prev:\<close> and the extents that \<^verbatim>\<open>recover(prev)\<close> goes through;
  \<open>None\<close> when no recovery is taken up.\<close>

definition resume_extents :: "string option \<Rightarrow> (nat \<times> nat) list option result" where
  "resume_extents content =
     bind_result (load_json JNull content) (\<lambda>prev.
       if \<not> truthy prev then Inr None
       else (case prev of
           JObj kvs \<Rightarrow>
             (case dict_of kvs ''extents'' of
                None \<Rightarrow> Inl (KeyError ''extents'')
              | Some (JList vs) \<Rightarrow> bind_result (extents_of_json vs) (\<lambda>es. Inr (Some es))
              | Some _ \<Rightarrow> Inl TypeError)
         | _ \<Rightarrow> Inl (AttributeError ''get'')))"

text \<open>\<^verbatim>\<open>rec["gap_seq"] if rec else None\<close>.\<close>

definition shown_gap :: "string option \<Rightarrow> jval result" where
  "shown_gap content =
     bind_result (load_json JNull content) (\<lambda>rec.
       if \<not> truthy rec then Inr JNull
       else (case rec of
           JObj kvs \<Rightarrow> (case dict_of kvs ''gap_seq'' of None \<Rightarrow> Inl (KeyError ''gap_seq'') | Some g \<Rightarrow> Inr g)
         | _ \<Rightarrow> Inl TypeError))"

subsection \<open>Lemmas\<close>

lemma extents_round_trip:
  "extents_of_json (map (\<lambda>(sector, nsect). JList [JNum (of_nat sector), JNum (of_nat nsect)]) es) = Inr es"
  by (induction es) (auto simp: extent_of_json_def)

lemma resume_of_recovery:
  assumes "prints_ok num (json_of_recovery rec)"
  shows "resume_extents (Some (json_dumps num ind (json_of_recovery rec))) = Inr (Some (rc_extents rec))"
    and "shown_gap (Some (json_dumps num ind (json_of_recovery rec))) = Inr (JNum (of_int (rc_gap_seq rec)))"
proof -
  have load: "load_json JNull (Some (json_dumps num ind (json_of_recovery rec))) = Inr (json_of_recovery rec)"
    using loads_dumps [OF assms, of "[]"] by (simp add: load_json_def)
  show "resume_extents (Some (json_dumps num ind (json_of_recovery rec))) = Inr (Some (rc_extents rec))"
    unfolding resume_extents_def load by (simp add: json_of_recovery_def dict_of_def extents_round_trip)
  show "shown_gap (Some (json_dumps num ind (json_of_recovery rec))) = Inr (JNum (of_int (rc_gap_seq rec)))"
    unfolding shown_gap_def load by (simp add: json_of_recovery_def dict_of_def)
qed

subsection \<open>Properties\<close>

text \<open>
  (C20) The extents of a recovery reach the next daemon through \<^verbatim>\<open>recovery.json\<close>: when \<^verbatim>\<open>start_recovery\<close> has
  read and cleared the bitmap and the process or the machine dies at any moment of its \<^verbatim>\<open>write_json\<close>, the
  next daemon takes up what it would have taken up before, or a recovery whose extents cover exactly
  the sectors whose bit was set, and shows its gap; it never stumbles over the file. Once
  \<^verbatim>\<open>write_json\<close> has returned, a daemon that is started in place of this one takes up the new one.
\<close>

theorem recovery_taken_up:
  assumes "read_bitmap st_buf ioctl_bitmap True = Inr (bm, chunk, nbits)" and "nbits \<le> 8 * length bm" and "0 < chunk"
    and "start_recovery st_buf ioctl_bitmap gap now d = Inr d'" and "d_recovery d' = Some rec"
    and "prints_ok num (json_of_recovery rec)" and "concat pieces = json_dumps num (Some 1) (json_of_recovery rec)"
    and "\<forall>i. m path = Some i \<longrightarrow> i_synced i"
    and "r = reads (run_steps (write_json path pieces) k m) path \<or> after_crash (write_json path pieces) k m path r"
  shows "(resume_extents r = resume_extents (reads m path) \<and> shown_gap r = shown_gap (reads m path) \<or>
      (\<exists>es. resume_extents r = Inr (Some es) \<and> shown_gap r = Inr (JNum (of_int gap)) \<and>
        (\<forall>x. (\<exists>(s, n) \<in> set es. s \<le> x \<and> x < s + n) \<longleftrightarrow> x div chunk < nbits \<and> bit_at bm (x div chunk)))) \<and>
    (\<exists>es. resume_extents (reads (run_steps (write_json path pieces) (length (write_json path pieces)) m) path) = Inr (Some es) \<and>
      (\<forall>x. (\<exists>(s, n) \<in> set es. s \<le> x \<and> x < s + n) \<longleftrightarrow> x div chunk < nbits \<and> bit_at bm (x div chunk)))"
proof -
  obtain es where es: "bitmap_extents bm chunk nbits = Inr es"
      "\<forall>x. (\<exists>(s, n) \<in> set es. s \<le> x \<and> x < s + n) \<longleftrightarrow> x div chunk < nbits \<and> bit_at bm (x div chunk)"
    using extents_of_bits [OF assms(2,3)] by blast
  with assms(1,4,5) have rec: "rc_extents rec = es" "rc_gap_seq rec = gap" by (auto simp: start_recovery_def Let_def)
  note new = resume_of_recovery [OF assms(6), of "Some 1", unfolded rec]
  have "r \<in> {reads m path, Some (json_dumps num (Some 1) (json_of_recovery rec))}"
    using write_json_reads [OF assms(8,9)] assms(7) by simp
  moreover have "reads (run_steps (write_json path pieces) (length (write_json path pieces)) m) path =
      Some (json_dumps num (Some 1) (json_of_recovery rec))"
    using assms(7) by (simp add: reads_def write_json_at) (simp add: write_json_def Let_def)
  ultimately show ?thesis using new es(2) by auto
qed

text \<open>The sample recovery, with integers written as such.\<close>

definition plain_num :: "rat \<Rightarrow> string" where
  "plain_num q = show_int \<lfloor>q\<rfloor>"

theorem recovery_taken_up_witness:
  "\<exists>d' rec es. start_recovery sample_status_bytes sample_ioctl 5 7 sample_daemon = Inr d' \<and> d_recovery d' = Some rec \<and>
    resume_extents (reads (run_steps (write_json ''r'' [json_dumps plain_num (Some 1) (json_of_recovery rec)])
      (length (write_json ''r'' [json_dumps plain_num (Some 1) (json_of_recovery rec)])) (\<lambda>_. None)) ''r'') = Inr (Some es) \<and>
    (\<forall>x. (\<exists>(s, n) \<in> set es. s \<le> x \<and> x < s + n) \<longleftrightarrow> x div 2 < 2 \<and> bit_at [2] (x div 2))"
proof -
  have ext: "bitmap_extents [2] 2 2 = Inr [(2, 2)]" by code_simp
  let ?rec = "\<lparr>rc_gap_seq = 5, rc_extents = [(2, 2)], rc_started = 7\<rparr>"
  obtain d' where d': "start_recovery sample_status_bytes sample_ioctl 5 7 sample_daemon = Inr d'" "d_recovery d' = Some ?rec"
    using ext by (simp add: start_recovery_def sample_bitmap_read Let_def)
  have "prints_ok plain_num (json_of_recovery ?rec)" by code_simp
  from recovery_taken_up [OF sample_bitmap_read _ _ d' this _ _ disjI1 [OF refl],
      of "[json_dumps plain_num (Some 1) (json_of_recovery ?rec)]" "\<lambda>_. None" "''r''" 0, THEN conjunct2] d'
  show ?thesis by auto
qed

end
