(* ===== verification/Host_Ssh.thy ===== *)
theory Host_Ssh
  imports Startup
begin

text \<open>
  \<^verbatim>\<open>ssh_script\<close> of \<^verbatim>\<open>rkcdp/rkcdp-rebuild.py\<close>: a script travels to a host as base64 text inside a
  quoted command. \<^verbatim>\<open>base64.b64encode\<close> is modelled on the bytes of the script; \<open>b64decode\<close> is the
  decoding that \<^verbatim>\<open>base64 -d\<close> does on the other side. \<open>rsh\<close> runs a shell command: a return code and
  the two outputs, or \<^verbatim>\<open>TimeoutExpired\<close>.
\<close>

subsection \<open>Base64\<close>

definition B64 :: string where
  "B64 = ''ABCDEFGHIJKLMNOPQRSTUVWXYZabcdefghijklmnopqrstuvwxyz0123456789+/''"

definition b64_char :: "nat \<Rightarrow> char" where
  "b64_char n = B64 ! n"

abbreviation ord :: "char \<Rightarrow> nat" where "ord \<equiv> of_char"

fun b64encode :: "string \<Rightarrow> string" where
  "b64encode (x # y # z # s) =
     b64_char (ord x div 4) # b64_char (ord x mod 4 * 16 + ord y div 16) #
     b64_char (ord y mod 16 * 4 + ord z div 64) # b64_char (ord z mod 64) # b64encode s"
| "b64encode [x, y] =
     [b64_char (ord x div 4), b64_char (ord x mod 4 * 16 + ord y div 16), b64_char (ord y mod 16 * 4), CHR ''='']"
| "b64encode [x] = [b64_char (ord x div 4), b64_char (ord x mod 4 * 16), CHR ''='', CHR ''='']"
| "b64encode [] = []"

text \<open>The value of a character, and decoding by groups of four.\<close>

fun position :: "char \<Rightarrow> string \<Rightarrow> nat option" where
  "position c [] = None"
| "position c (x # xs) = (if c = x then Some 0 else map_option Suc (position c xs))"

definition b64_val :: "char \<Rightarrow> nat option" where
  "b64_val c = position c B64"

fun b64decode :: "string \<Rightarrow> string option" where
  "b64decode [] = Some []"
| "b64decode (p # q # r # t # s) =
     (case (b64_val p, b64_val q) of
        (Some i, Some j) \<Rightarrow>
          if r = CHR ''='' then (if t = CHR ''='' \<and> s = [] then Some [char_of (i * 4 + j div 16)] else None)
          else (case b64_val r of
              None \<Rightarrow> None
            | Some k \<Rightarrow>
                if t = CHR ''='' then (if s = [] then Some [char_of (i * 4 + j div 16), char_of (j mod 16 * 16 + k div 4)] else None)
                else (case (b64_val t, b64decode s) of
                    (Some l, Some out) \<Rightarrow>
                      Some (char_of (i * 4 + j div 16) # char_of (j mod 16 * 16 + k div 4) # char_of (k mod 4 * 64 + l) # out)
                  | _ \<Rightarrow> None))
      | _ \<Rightarrow> None)"
| "b64decode _ = None"

subsection \<open>The command\<close>

definition ssh_command :: "string \<Rightarrow> string \<Rightarrow> string \<Rightarrow> string" where
  "ssh_command host user script =
     ''ssh -o StrictHostKeyChecking=no -o BatchMode=yes -o ConnectTimeout=10 '' @ user @ ''@'' @ host @
     '' '' @ [CHR 0x27] @ ''echo '' @ b64encode script @ '' | base64 -d | bash'' @ [CHR 0x27]"

definition ssh_script :: "(string \<Rightarrow> (int \<times> string \<times> string) result) \<Rightarrow> string \<Rightarrow> string \<Rightarrow> string \<Rightarrow> string result" where
  "ssh_script rsh host user script =
     bind_result (rsh (ssh_command host user script)) (\<lambda>(rc, out, err).
       if rc \<noteq> 0
       then (let msg = py_strip (if err = [] then out else err) in
             Inl (RuntimeError (''host script failed rc='' @ show_int rc @ '': '' @ drop (length msg - 800) msg)))
       else Inr out)"

subsection \<open>Properties\<close>

lemma position_nth: "distinct xs \<Longrightarrow> n < length xs \<Longrightarrow> position (xs ! n) xs = Some n"
proof (induction xs arbitrary: n)
  case (Cons x xs)
  then show ?case by (cases n) auto
qed simp

lemma B64_facts: "distinct B64" "length B64 = 64" "CHR ''='' \<notin> set B64"
  by (simp_all add: B64_def)

lemma b64_char_simps:
  assumes "n < 64"
  shows "b64_val (b64_char n) = Some n" "b64_char n \<noteq> CHR ''=''" "b64_char n \<in> set B64"
proof -
  have n: "n < length B64" using assms B64_facts(2) by simp
  then show "b64_char n \<in> set B64" by (simp add: b64_char_def)
  then show "b64_char n \<noteq> CHR ''=''" using B64_facts(3) by metis
  show "b64_val (b64_char n) = Some n"
    using position_nth [OF B64_facts(1) n] by (simp add: b64_val_def b64_char_def)
qed

text \<open>The six-bit values of a group, and the high bits of a byte.\<close>

lemma six_bits:
  fixes x y z :: char
  shows "ord x div 4 < 64" "ord x mod 4 * 16 < 64" "ord x mod 4 * 16 + ord y div 16 < 64" "ord y mod 16 * 4 < 64"
    "ord y mod 16 * 4 + ord z div 64 < 64" "ord z mod 64 < 64"
proof -
  have "ord x < 256" "ord y < 256" "ord z < 256" by simp_all
  moreover have "ord x mod 4 < 4" "ord y mod 16 < 16" by simp_all
  ultimately show "ord x div 4 < 64" "ord x mod 4 * 16 < 64" "ord x mod 4 * 16 + ord y div 16 < 64" "ord y mod 16 * 4 < 64"
    "ord y mod 16 * 4 + ord z div 64 < 64" "ord z mod 64 < 64" by linarith+
qed

lemma top_bits:
  fixes y :: char
  shows "ord y div 16 div 16 = 0" "ord y div 16 mod 16 = ord y div 16" "ord y div 64 div 4 = 0" "ord y div 64 mod 4 = ord y div 64"
proof -
  have "ord y div 16 < 16" "ord y div 64 < 4" using nat_of_char_less_256 [of y] by linarith+
  then show "ord y div 16 div 16 = 0" "ord y div 16 mod 16 = ord y div 16" "ord y div 64 div 4 = 0" "ord y div 64 mod 4 = ord y div 64"
    by simp_all
qed

lemma b64_round_trip: "b64decode (b64encode s) = Some s"
  by (induction s rule: b64encode.induct) (simp_all add: b64_char_simps six_bits top_bits)

lemma b64_charset: "set (b64encode s) \<subseteq> insert (CHR ''='') (set B64)"
  by (induction s rule: b64encode.induct) (simp_all add: b64_char_simps six_bits)

text \<open>
  (C31) The host runs the script it was sent: between the quotes of the command there is only
  \<^verbatim>\<open>echo\<close>, a word of letters, digits, \<^verbatim>\<open>+\<close>, \<^verbatim>\<open>/\<close> and \<^verbatim>\<open>=\<close> with no quote or blank in it, and the
  pipeline; and that word decodes to exactly the bytes of the script, whatever they are.
\<close>

theorem ssh_script_arrives:
  "\<exists>word. ssh_command host user script =
      ''ssh -o StrictHostKeyChecking=no -o BatchMode=yes -o ConnectTimeout=10 '' @ user @ ''@'' @ host @
      '' '' @ [CHR 0x27] @ ''echo '' @ word @ '' | base64 -d | bash'' @ [CHR 0x27] \<and>
    CHR 0x27 \<notin> set word \<and> list_all (\<lambda>c. \<not> py_space c) word \<and> b64decode word = Some script"
proof (intro exI conjI)
  have "CHR 0x27 \<notin> insert (CHR ''='') (set B64)" by (simp add: B64_def)
  then show "CHR 0x27 \<notin> set (b64encode script)" using b64_charset [of script] by blast
  have "list_all (\<lambda>c. \<not> py_space c) (CHR ''='' # B64)" by (simp add: B64_def py_space_def)
  then have "\<forall>c \<in> insert (CHR ''='') (set B64). \<not> py_space c" unfolding list_all_iff by simp
  then show "list_all (\<lambda>c. \<not> py_space c) (b64encode script)" using b64_charset [of script] by (auto simp: list_all_iff)
qed (simp_all add: ssh_command_def b64_round_trip)

end
