(* ===== verification/Rebuild.thy ===== *)
theory Rebuild
  imports Main_Loop Host_Ssh
begin

text \<open>
  \<^verbatim>\<open>rkcdp/rkcdp-rebuild.py\<close>: the progress file, the overlay of the seed-time chunks, the copy of
  the replica with its progress, the (unused) standby marker and \<^verbatim>\<open>main\<close>.

  The world of a rebuild is a record: the node directory with its lock, the files it reads, the
  copy it makes and the progress it reports. \<^verbatim>\<open>main\<close> is an action on that world that ends with
  a value or an exception, so that the handler and the clean-up at the end see what was done up
  to the exception. \<^verbatim>\<open>status.json\<close> and \<^verbatim>\<open>node.json\<close> are the records that the daemon writes
  (\<open>write_status\<close>, \<open>node_json\<close>). The arguments are taken after \<^verbatim>\<open>argparse\<close>. Outside the model
  stand \<^verbatim>\<open>cp\<close>, the run of \<^verbatim>\<open>ssh\<close>, \<^verbatim>\<open>ping\<close> and the clock: they are fields of an environment.
  Where the code stores the text of an exception the model stores the exception.
\<close>

subsection \<open>Progress\<close>

datatype run_state = Running | Done | Failed

definition TOTAL :: nat where "TOTAL = 6"

record copy_info =
  ci_done :: nat
  ci_total :: "nat option"
  ci_mbps :: "rat option"
  ci_eta :: "int option"
  ci_percent :: "nat option"

record pg_data =
  pg_node :: string
  pg_at :: nat
  pg_total :: nat
  pg_state :: run_state
  pg_msg :: string
  pg_steps :: "(nat \<times> string \<times> rat) list"
  pg_started :: rat
  pg_error :: "py_error option"
  pg_finished :: "rat option"
  pg_copied :: "copy_info option"
  pg_vmid :: "string option"

record progress =
  pg_path :: "string option"
  pg_d :: pg_data
  pg_file :: "pg_data option"

definition pg_flush :: "progress \<Rightarrow> progress" where
  "pg_flush p = (if pg_path p = None \<or> pg_path p = Some [] then p else p\<lparr>pg_file := Some (pg_d p)\<rparr>)"

definition Progress :: "string option \<Rightarrow> string \<Rightarrow> rat \<Rightarrow> pg_data option \<Rightarrow> progress" where
  "Progress path node now old =
     pg_flush \<lparr>pg_path = path, pg_d = \<lparr>pg_node = node, pg_at = 0, pg_total = TOTAL, pg_state = Running, pg_msg = [],
       pg_steps = [], pg_started = now, pg_error = None, pg_finished = None, pg_copied = None, pg_vmid = None\<rparr>,
       pg_file = old\<rparr>"

definition pg_copy :: "nat \<Rightarrow> nat option \<Rightarrow> rat option \<Rightarrow> int option \<Rightarrow> progress \<Rightarrow> progress" where
  "pg_copy n tot mbps eta p =
     pg_flush (p\<lparr>pg_d := (pg_d p)\<lparr>pg_copied := Some \<lparr>ci_done = n, ci_total = tot, ci_mbps = mbps, ci_eta = eta,
       ci_percent = (case tot of None \<Rightarrow> None | Some t \<Rightarrow> if t = 0 then None else Some (n * 100 div t))\<rparr>\<rparr>\<rparr>)"

definition pg_step :: "nat \<Rightarrow> string \<Rightarrow> rat \<Rightarrow> progress \<Rightarrow> progress" where
  "pg_step n msg now p =
     pg_flush (p\<lparr>pg_d := (pg_d p)\<lparr>pg_at := n, pg_msg := msg, pg_steps := pg_steps (pg_d p) @ [(n, msg, now)]\<rparr>\<rparr>)"

definition pg_done :: "string \<Rightarrow> rat \<Rightarrow> progress \<Rightarrow> progress" where
  "pg_done msg now p =
     pg_flush (p\<lparr>pg_d := (pg_d p)\<lparr>pg_state := Done, pg_msg := msg, pg_finished := Some now\<rparr>\<rparr>)"

definition pg_fail :: "py_error \<Rightarrow> rat \<Rightarrow> progress \<Rightarrow> progress" where
  "pg_fail e now p =
     pg_flush (p\<lparr>pg_d := (pg_d p)\<lparr>pg_state := Failed, pg_error := Some e, pg_finished := Some now\<rparr>\<rparr>)"

subsection \<open>The overlay of the seed\<close>

definition OVERLAY_READ :: nat where "OVERLAY_READ = 4 * 2 ^ 20"

function overlay_region :: "sfile \<Rightarrow> nat \<Rightarrow> nat \<Rightarrow> sfile \<Rightarrow> sfile" where
  "overlay_region seed h pos copy =
     (if pos < h then
        (let buf = os_pread seed (min OVERLAY_READ (h - pos)) pos in
         if buf = [] then copy
         else overlay_region seed h (pos + length buf) (os_pwrite copy buf pos))
      else copy)"
  by pat_completeness auto
termination
  by (relation "measure (\<lambda>(seed, h, pos, copy). h - pos)") (auto intro!: diff_less_mono2 simp flip: length_greater_0_conv)

declare overlay_region.simps [simp del]

function overlay_loop :: "sfile \<Rightarrow> nat \<Rightarrow> nat \<Rightarrow> sfile \<Rightarrow> unit result \<times> sfile" where
  "overlay_loop seed sz off copy =
     (if off < sz then
        (case seek_data seed off of
           None \<Rightarrow> (Inr (), copy)
         | Some d \<Rightarrow>
             if sz \<le> d then (Inr (), copy)
             else (case seek_hole seed d of
                 None \<Rightarrow> (Inl OSError, copy)
               | Some h \<Rightarrow> overlay_loop seed sz h (overlay_region seed h d copy)))
      else (Inr (), copy))"
  by pat_completeness auto
termination
  by (relation "measure (\<lambda>(seed, sz, off, copy). sz - off)") (auto dest!: seek_dataD dest: seek_holeD)

declare overlay_loop.simps [simp del]

text \<open>\<^verbatim>\<open>overlay_seed\<close>: after the loop the function calls \<^verbatim>\<open>log\<close>, a name this program does not define.\<close>

definition overlay_seed :: "sfile \<Rightarrow> sfile \<Rightarrow> unit result \<times> sfile" where
  "overlay_seed seed copy =
     (case overlay_loop seed (f_size seed) 0 copy of
        (Inl e, c) \<Rightarrow> (Inl e, c)
      | (Inr _, c) \<Rightarrow> (Inl (NameError ''log''), c))"

subsection \<open>Copying with progress\<close>

text \<open>\<^verbatim>\<open>round(x, 1)\<close> and \<^verbatim>\<open>int(x)\<close> of a fraction.\<close>

definition round1 :: "rat \<Rightarrow> rat" where
  "round1 x =
     (let y = 10 * x; f = \<lfloor>y\<rfloor>; r = y - of_int f in
      of_int (if r < 1 / 2 \<or> (r = 1 / 2 \<and> even f) then f else f + 1) / 10)"

definition py_trunc :: "rat \<Rightarrow> int" where
  "py_trunc x = (if 0 \<le> x then \<lfloor>x\<rfloor> else \<lceil>x\<rceil>)"

text \<open>One turn of the loop that watches \<^verbatim>\<open>cp\<close>: the size of the destination, if it can be read, and
  the clock; the state is \<^verbatim>\<open>last_t\<close>, \<^verbatim>\<open>last_done\<close> and the progress.\<close>

definition copy_poll ::
  "nat option \<Rightarrow> nat option \<times> rat \<Rightarrow> rat \<times> nat \<times> progress \<Rightarrow> rat \<times> nat \<times> progress" where
  "copy_poll tot = (\<lambda>(size_now, now) (last_t, last_done, p).
     case size_now of
       None \<Rightarrow> (last_t, last_done, p)
     | Some n \<Rightarrow>
         (let mbps = (if last_t < now
                      then Some (round1 ((of_nat n - of_nat last_done) / (now - last_t) / 1048576)) else None);
              eta = (case (tot, mbps) of
                       (Some t, Some m) \<Rightarrow>
                         if t \<noteq> 0 \<and> m > 0 then Some (py_trunc ((of_nat t - of_nat n) / (m * 1048576))) else None
                     | _ \<Rightarrow> None)
          in (now, n, pg_copy n tot mbps eta p)))"

definition copy_with_progress ::
  "nat option \<Rightarrow> (nat option \<times> rat) list \<Rightarrow> int \<Rightarrow> rat \<Rightarrow> progress \<Rightarrow> unit result \<times> progress" where
  "copy_with_progress tot polls rc t0 p =
     (let (last_t, last_done, p1) = fold (copy_poll tot) polls (t0, 0, p) in
      if rc \<noteq> 0 then (Inl (RuntimeError (''cp failed rc='' @ show_int rc)), p1)
      else (Inr (), pg_copy (case tot of None \<Rightarrow> last_done | Some t \<Rightarrow> if t = 0 then last_done else t)
                      tot None (Some 0) p1))"

subsection \<open>The standby marker\<close>

text \<open>
  A shell command yields a return code, its output and its error output. The file operations of
  \<^verbatim>\<open>mark_standby\<close> inside the mounted image act on the same machine and stand as commands
  named after the Python function. \<open>pid\<close> is the process id, \<open>stamp\<close> the formatted time.
\<close>

type_synonym 'w shell = "string \<Rightarrow> 'w \<Rightarrow> (int \<times> string \<times> string) \<times> 'w"

definition sh :: "'w shell \<Rightarrow> string \<Rightarrow> bool \<Rightarrow> ('w, string) io" where
  "sh shell cmd check w =
     (let ((rc, out, err), w1) = shell cmd w in
      if check \<and> rc \<noteq> 0
      then (Inl (RuntimeError (hd (py_split cmd @ [[]]) @ '': rc='' @ show_int rc @ '' '' @
                py_strip (if err = [] then out else err))), w1)
      else (Inr out, w1))"

text \<open>\<^verbatim>\<open>try: body finally: cleanup\<close>: the exception of the clean-up wins.\<close>

definition io_finally :: "('w, 'a) io \<Rightarrow> ('w, unit) io \<Rightarrow> ('w, 'a) io" where
  "io_finally body cleanup w =
     (let (r, w1) = body w; (c, w2) = cleanup w1 in
      case c of Inl e \<Rightarrow> (Inl e, w2) | Inr _ \<Rightarrow> (r, w2))"

fun split_on :: "char \<Rightarrow> string \<Rightarrow> string list" where
  "split_on c [] = [[]]"
| "split_on c (x # xs) = (if x = c then [] # split_on c xs else (x # hd (split_on c xs)) # tl (split_on c xs))"

text \<open>The loop over the lines of \<^verbatim>\<open>lsblk\<close>: the largest ext4 or xfs file system that is not the loop device.\<close>

definition root_candidate ::
  "'w shell \<Rightarrow> string \<Rightarrow> string \<Rightarrow> int \<times> string option \<Rightarrow> ('w, int \<times> string option) io" where
  "root_candidate shell loop line = (\<lambda>(best, root).
     (let f = py_split line in
      if 2 \<le> length f \<and> (f ! 1 = ''ext4'' \<or> f ! 1 = ''xfs'') \<and> f ! 0 \<noteq> basename loop then
        io_bind (sh shell (''blockdev --getsize64 /dev/'' @ f ! 0) True) (\<lambda>out.
        io_bind (io_lift (py_int (py_strip out))) (\<lambda>sz.
          io_lift (Inr (if sz > best then (sz, Some (''/dev/'' @ f ! 0)) else (best, root)))))
      else io_lift (Inr (best, root))))"

primrec io_fold :: "('a \<Rightarrow> 's \<Rightarrow> ('w, 's) io) \<Rightarrow> 'a list \<Rightarrow> 's \<Rightarrow> ('w, 's) io" where
  "io_fold f [] s = io_lift (Inr s)"
| "io_fold f (x # xs) s = io_bind (f x s) (io_fold f xs)"

definition mark_standby :: "'w shell \<Rightarrow> nat \<Rightarrow> string \<Rightarrow> string \<Rightarrow> ('w, unit) io" where
  "mark_standby shell pid stamp copy_path =
     io_bind (sh shell (''losetup -Pf --show '' @ copy_path) True) (\<lambda>out.
       (let loop = py_strip out; mnt = ''/run/rkcdp-mnt-'' @ show_nat pid in
        io_finally
          (io_bind (sh shell (''lsblk -rno NAME,FSTYPE,SIZE '' @ loop) True) (\<lambda>parts.
           io_bind (io_fold (root_candidate shell loop) (split_on (CHR 0x0A) parts) (-1, None)) (\<lambda>(best, root).
             (case root of
                None \<Rightarrow> io_lift (Inl (RuntimeError (''no ext4/xfs partition in '' @ copy_path)))
              | Some dev \<Rightarrow>
                  io_bind (sh shell (''os.makedirs '' @ mnt) True) (\<lambda>_.
                  io_bind (sh shell (''mount '' @ dev @ '' '' @ mnt) True) (\<lambda>_.
                    io_finally
                      (io_bind (sh shell (''os.makedirs '' @ path_join mnt ''etc/kvmdr'') True) (\<lambda>_.
                       io_bind (sh shell (''write '' @ path_join mnt ''etc/kvmdr/rkcdp-rebuilt-standby'' @ '' '' @ stamp) True)
                         (\<lambda>_. io_lift (Inr ()))))
                      (io_bind (sh shell (''umount '' @ mnt) True) (\<lambda>_.
                       io_bind (sh shell (''os.rmdir '' @ mnt) True) (\<lambda>_. io_lift (Inr ()))))))))))
          (io_bind (sh shell (''losetup -d '' @ loop) False) (\<lambda>_. io_lift (Inr ())))))"

subsection \<open>Arguments, environment, world\<close>

record rb_args =
  a_node :: string
  a_host :: string
  a_user :: string
  a_vmid :: "int option"
  a_storage :: string
  a_bridge :: string
  a_journal :: string
  a_host_journal :: "string option"
  a_progress :: "string option"
  a_force :: bool
  a_keep_copy :: bool
  a_from_seed :: bool

record rb_env =
  v_clock :: "nat \<Rightarrow> rat"                                 \<comment> \<open>the clock at step \<open>n\<close>\<close>
  v_check :: rat                                          \<comment> \<open>when the age of the status is taken\<close>
  v_polls :: "nat \<Rightarrow> status_json option \<times> rat"           \<comment> \<open>\<^verbatim>\<open>status.json\<close> and the clock while quiescing\<close>
  v_ts :: string                                          \<comment> \<open>the time stamp in the name of the copy\<close>
  v_hms :: "rat \<Rightarrow> string"
  v_cp :: "sfile \<Rightarrow> sfile"                                \<comment> \<open>what \<^verbatim>\<open>cp\<close> leaves at the destination\<close>
  v_cp_rc :: int
  v_cp_total :: "nat option"
  v_cp_polls :: "(nat option \<times> rat) list"
  v_ssh :: "string \<Rightarrow> (int \<times> string \<times> string) result"    \<comment> \<open>the shell command with \<^verbatim>\<open>ssh\<close>\<close>
  v_ping :: "nat \<Rightarrow> bool"

record rb_world =
  w_dir :: node_dir
  w_replica :: "sfile option"
  w_status :: "status_json option"
  w_node :: "node_info option"
  w_copy :: "(string \<times> sfile) option"
  w_progress :: progress
  w_lock :: bool               \<comment> \<open>the variable \<^verbatim>\<open>lock\<close> still holds the path\<close>

definition io_modify :: "('w \<Rightarrow> 'w) \<Rightarrow> ('w, unit) io" where
  "io_modify f w = (Inr (), f w)"

definition rb_step :: "rb_env \<Rightarrow> nat \<Rightarrow> string \<Rightarrow> (rb_world, unit) io" where
  "rb_step env n msg = io_modify (\<lambda>w. w\<lparr>w_progress := pg_step n msg (v_clock env n) (w_progress w)\<rparr>)"

subsection \<open>The steps\<close>

text \<open>\<^verbatim>\<open>"%.0f"\<close> of an age.\<close>

definition round0 :: "rat \<Rightarrow> int" where
  "round0 x = (let f = \<lfloor>x\<rfloor>; r = x - of_int f in if r < 1 / 2 \<or> (r = 1 / 2 \<and> even f) then f else f + 1)"

text \<open>Step 1: the manifest, \<^verbatim>\<open>last_seq\<close> and \<^verbatim>\<open>last_time\<close> of the status and the node description.\<close>

definition rb_check :: "rb_args \<Rightarrow> rb_env \<Rightarrow> (rb_world, sfile \<times> status_json option \<times> node_info option) io" where
  "rb_check a env =
     io_bind (rb_step env 1 (''checking replica for '' @ a_node a)) (\<lambda>_ w.
       (let chk =
          (case nd_manifest (w_dir w) of
             None \<Rightarrow> Inl OSError
           | Some m \<Rightarrow>
               (case w_replica w of
                  None \<Rightarrow> Inl (RuntimeError (''no replica.raw for '' @ a_node a))
                | Some f \<Rightarrow>
                    if a_from_seed a \<and> nd_seed_raw (w_dir w) = None
                    then Inl (RuntimeError (''no seed.raw for '' @ a_node a @ '' (node was never seeded)''))
                    else if mf_base_end_seq m = None
                    then Inl (RuntimeError (''base copy never completed for '' @ a_node a))
                    else (case w_status w of
                        None \<Rightarrow> Inr f
                      | Some st \<Rightarrow>
                          if v_check env - sj_time st < 60 \<and> \<not> a_force a
                          then Inl (RuntimeError (a_node a @ '' reported alive '' @ show_int (round0 (v_check env - sj_time st)) @
                                 ''s ago; use --force to rebuild anyway''))
                          else Inr f)))
        in (case chk of Inl e \<Rightarrow> (Inl e, w) | Inr f \<Rightarrow> (Inr (f, w_status w, w_node w), w))))"

text \<open>Step 2: the loop that waits for \<^verbatim>\<open>PAUSED\<close>, at most 30 times; the number of turns taken.\<close>

fun quiesce_loop :: "(nat \<Rightarrow> status_json option \<times> rat) \<Rightarrow> nat \<Rightarrow> nat \<Rightarrow> nat" where
  "quiesce_loop polls 0 k = k"
| "quiesce_loop polls (Suc n) k =
     (let (st, now) = polls k in
      if (case st of None \<Rightarrow> now - 0 > 30 | Some j \<Rightarrow> sj_state j = PAUSED \<or> now - sj_time j > 30)
      then k else quiesce_loop polls n (Suc k))"

definition rb_quiesce :: "rb_env \<Rightarrow> (rb_world, nat) io" where
  "rb_quiesce env =
     io_bind (rb_step env 2 ''quiescing replica writes'') (\<lambda>_.
     io_bind (io_modify (\<lambda>w. w\<lparr>w_dir := (w_dir w)\<lparr>nd_lock := True\<rparr>\<rparr>)) (\<lambda>_.
       io_lift (Inr (quiesce_loop (v_polls env) 30 0))))"

definition show_opt_nat :: "nat option \<Rightarrow> string" where
  "show_opt_nat x = (case x of None \<Rightarrow> ''None'' | Some n \<Rightarrow> show_nat n)"

definition copy_msg :: "rb_args \<Rightarrow> rb_env \<Rightarrow> status_json option \<Rightarrow> string" where
  "copy_msg a env st =
     (if a_from_seed a then ''copying replica, then laying the seed-time chunks back over it''
      else ''copying replica (as of seq '' @ show_opt_nat (Option.bind st sj_last_seq) @ '', '' @
        v_hms env (case Option.bind st sj_last_time of None \<Rightarrow> 0 | Some t \<Rightarrow> t) @ '')'')"

text \<open>Step 3. \<^verbatim>\<open>cp\<close> leaves a file at the destination also when it fails.\<close>

definition rb_cp :: "rb_env \<Rightarrow> string \<Rightarrow> sfile \<Rightarrow> (rb_world, unit) io" where
  "rb_cp env path f w =
     (let (r, p) = copy_with_progress (v_cp_total env) (v_cp_polls env) (v_cp_rc env) (v_clock env 3) (w_progress w)
      in (r, w\<lparr>w_copy := Some (path, v_cp env f), w_progress := p\<rparr>))"

definition rb_overlay :: "rb_args \<Rightarrow> (rb_world, unit) io" where
  "rb_overlay a w =
     (if a_from_seed a then
        (case (nd_seed_raw (w_dir w), w_copy w) of
           (Some seed, Some (path, copy)) \<Rightarrow>
             (let (r, c) = overlay_seed seed copy in (r, w\<lparr>w_copy := Some (path, c)\<rparr>))
         | _ \<Rightarrow> (Inl OSError, w))
      else (Inr (), w))"

definition rb_unlock :: "(rb_world, unit) io" where
  "rb_unlock w =
     (if nd_lock (w_dir w) then (Inr (), w\<lparr>w_dir := (w_dir w)\<lparr>nd_lock := False\<rparr>, w_lock := False\<rparr>)
      else (Inl OSError, w))"

definition rb_copy :: "rb_args \<Rightarrow> rb_env \<Rightarrow> sfile \<Rightarrow> status_json option \<Rightarrow> (rb_world, string) io" where
  "rb_copy a env f st =
     (let path = path_join (path_join (a_journal a) ''rebuild'') (a_node a @ ''-'' @ v_ts env @ ''.raw'') in
      io_bind (rb_step env 3 (copy_msg a env st)) (\<lambda>_.
      io_bind (rb_cp env path f) (\<lambda>_.
      io_bind (rb_overlay a) (\<lambda>_.
      io_bind rb_unlock (\<lambda>_.
      io_bind (rb_step env 4 ''copy ready; boot fence will place the node as replica'') (\<lambda>_.
        io_lift (Inr path)))))))"

subsection \<open>The script for the host\<close>

record vm_spec =
  vm_mem :: int
  vm_cpus :: nat
  vm_net :: string
  vm_efi :: bool

definition vm_spec_of :: "string \<Rightarrow> node_info option \<Rightarrow> vm_spec" where
  "vm_spec_of bridge node =
     (let mac = (case node of None \<Rightarrow> None | Some n \<Rightarrow> (case ni_macs n of [] \<Rightarrow> None | (_, m) # _ \<Rightarrow> Some m)) in
      \<lparr>vm_mem = (case node of None \<Rightarrow> 4096 | Some n \<Rightarrow> if ni_mem_mb n = 0 then 4096 else ni_mem_mb n),
       vm_cpus = (case node of None \<Rightarrow> 2 | Some n \<Rightarrow> if ni_cpus n = 0 then 2 else ni_cpus n),
       vm_net = (if mac = None \<or> mac = Some [] then ''virtio,bridge='' @ bridge
                 else ''virtio='' @ the mac @ '',bridge='' @ bridge),
       vm_efi = (case node of None \<Rightarrow> True | Some n \<Rightarrow> ni_firmware n = ''efi'')\<rparr>)"

definition vmid_expr :: "int option \<Rightarrow> string" where
  "vmid_expr vmid =
     (if vmid = None \<or> vmid = Some 0
      then ''$(for n in $(seq 9100 9199); do qm status $n >/dev/null 2>&1 || { echo $n; break; }; done)''
      else show_int (the vmid))"

definition bios_args :: "string \<Rightarrow> bool \<Rightarrow> string" where
  "bios_args storage efi =
     (if efi then ''--bios ovmf --efidisk0 '' @ storage @ '':1,efitype=4m,pre-enrolled-keys=0'' else [])"

text \<open>The lines of the script; \<open>dq\<close>, \<open>sq\<close> and \<open>bsl\<close> are the two quotes and the backslash.\<close>

definition host_script :: "rb_args \<Rightarrow> string \<Rightarrow> vm_spec \<Rightarrow> string" where
  "host_script a host_copy vm =
     (let nl = [CHR 0x0A]; dq = [CHR 0x22]; sq = [CHR 0x27]; bsl = [CHR 0x5C] in
      ''set -e'' @ nl @
      ''test -f '' @ host_copy @ '' || { echo '' @ dq @ ''host cannot see '' @ host_copy @ '' (NFS not mounted?)'' @ dq @
        '' >&2; exit 2; }'' @ nl @
      ''V='' @ vmid_expr (a_vmid a) @ nl @
      ''test -n '' @ dq @ ''$V'' @ dq @ '' || { echo '' @ dq @ ''no free vmid'' @ dq @ '' >&2; exit 3; }'' @ nl @
      ''qm create $V --name '' @ a_node a @ '' --memory '' @ show_int (vm_mem vm) @ '' --cores '' @ show_nat (vm_cpus vm) @
        '' --cpu host --ostype l26 '' @ bsl @ nl @
      ''  --scsihw virtio-scsi-single --net0 '' @ vm_net vm @ '' --agent enabled=1 '' @
        bios_args (a_storage a) (vm_efi vm) @ nl @
      ''qm importdisk $V '' @ host_copy @ '' '' @ a_storage a @ '' >/dev/null'' @ nl @
      ''DISK=$(qm config $V | grep -oE '' @ sq @ ''^unused0: .+'' @ sq @ '' | cut -d'' @ sq @ '' '' @ sq @ '' -f2)'' @ nl @
      ''qm set $V --scsi0 $DISK,discard=on,iothread=1 --boot order=scsi0 >/dev/null'' @ nl @
      ''qm start $V'' @ nl @
      ''echo VMID=$V'' @ nl)"

text \<open>\<^verbatim>\<open>next((ln[5:] for ln in out.splitlines() if ln.startswith("VMID=")), "?")\<close>; the output of the
  script has line feeds only.\<close>

definition vmid_of :: "string \<Rightarrow> string" where
  "vmid_of out =
     (case find (\<lambda>l. take 5 l = ''VMID='') (split_on (CHR 0x0A) out) of None \<Rightarrow> ''?'' | Some l \<Rightarrow> drop 5 l)"

definition rb_create :: "rb_args \<Rightarrow> rb_env \<Rightarrow> string \<Rightarrow> node_info option \<Rightarrow> (rb_world, string) io" where
  "rb_create a env path node =
     (let vm = vm_spec_of (a_bridge a) node;
          host_journal = (case a_host_journal a of None \<Rightarrow> a_journal a | Some j \<Rightarrow> if j = [] then a_journal a else j);
          host_copy = path_join (path_join host_journal ''rebuild'') (basename path) in
      io_bind (rb_step env 5 (''creating VM on '' @ a_host a @ '' ('' @ show_int (vm_mem vm) @ '' MB, '' @ show_nat (vm_cpus vm) @
        '' cores, '' @ (if vm_efi vm then ''UEFI'' else ''BIOS'') @ '')'')) (\<lambda>_.
      io_bind (io_lift (ssh_script (v_ssh env) (a_host a) (a_user a) (host_script a host_copy vm))) (\<lambda>out.
      io_bind (io_modify (\<lambda>w. w\<lparr>w_progress := (w_progress w)\<lparr>pg_d := (pg_d (w_progress w))\<lparr>pg_vmid := Some (vmid_of out)\<rparr>\<rparr>\<rparr>)) (\<lambda>_.
        io_lift (Inr (vmid_of out))))))"

text \<open>Step 6: 150 pings; and the end of the body of \<^verbatim>\<open>main\<close>.\<close>

definition rb_boot :: "rb_args \<Rightarrow> rb_env \<Rightarrow> string \<Rightarrow> node_info option \<Rightarrow> (rb_world, unit) io" where
  "rb_boot a env vmid node =
     (let ips = (case node of None \<Rightarrow> [] | Some n \<Rightarrow> ni_ips n) in
      io_bind (rb_step env 6 (''VM '' @ vmid @ '' started; waiting for '' @ (if ips = [] then ''boot'' else hd ips))) (\<lambda>_.
      io_bind (io_lift (if ips \<noteq> [] \<and> \<not> list_ex (v_ping env) [0..<150]
                        then Inl (RuntimeError (''VM '' @ vmid @ '' started but '' @ hd ips @ '' not reachable after 5 min''))
                        else Inr ())) (\<lambda>_.
        io_modify (\<lambda>w.
          (let w1 = (if a_keep_copy a then w else w\<lparr>w_copy := None\<rparr>) in
           w1\<lparr>w_progress := pg_done (a_node a @ '' rebuilt as VM '' @ vmid @ '' on '' @ a_host a @
             '', booting as STANDBY (heal-standby runs on first boot)'') (v_clock env 7) (w_progress w1)\<rparr>)))))"

definition rb_body :: "rb_args \<Rightarrow> rb_env \<Rightarrow> (rb_world, unit) io" where
  "rb_body a env =
     io_bind (rb_check a env) (\<lambda>(f, st, node).
     io_bind (rb_quiesce env) (\<lambda>_.
     io_bind (rb_copy a env f st) (\<lambda>path.
     io_bind (rb_create a env path node) (\<lambda>vmid.
       rb_boot a env vmid node))))"

text \<open>\<^verbatim>\<open>main\<close>: the exit code and the world it leaves, with the handler and the \<^verbatim>\<open>finally\<close> clause.\<close>

definition rebuild_main :: "rb_args \<Rightarrow> rb_env \<Rightarrow> rb_world \<Rightarrow> nat \<times> rb_world" where
  "rebuild_main a env w =
     (let w0 = w\<lparr>w_progress := Progress (a_progress a) (a_node a) (v_clock env 0) (pg_file (w_progress w)), w_lock := True,
                 w_copy := None\<rparr>;
          (r, w1) = rb_body a env w0;
          (code, w2) = (case r of
             Inr _ \<Rightarrow> (0, w1)
           | Inl e \<Rightarrow> (1, w1\<lparr>w_progress := pg_fail e (v_clock env 7) (w_progress w1)\<rparr>))
      in (code, if w_lock w2 \<and> nd_lock (w_dir w2) then w2\<lparr>w_dir := (w_dir w2)\<lparr>nd_lock := False\<rparr>\<rparr> else w2))"

subsection \<open>What the overlay does\<close>

lemma overlay_region_image:
  "h \<le> f_size seed \<Longrightarrow> f_dat (overlay_region seed h pos copy) x =
    (if pos \<le> x \<and> x < h then f_dat seed x else f_dat copy x)"
proof (induction "h - pos" arbitrary: pos copy rule: less_induct)
  case less
  show ?case
  proof (cases "pos < h")
    case False
    then show ?thesis by (subst overlay_region.simps) auto
  next
    case True
    let ?n = "min OVERLAY_READ (h - pos)"
    have n: "0 < ?n" "pos + ?n \<le> f_size seed" "pos + ?n \<le> h" "?n \<le> RW_MAX"
      using True less.prems by (auto simp: OVERLAY_READ_def RW_MAX_def)
    let ?buf = "img_slice (f_dat seed) pos ?n"
    have buf: "os_pread seed ?n pos = ?buf" "?buf \<noteq> []" "length ?buf = ?n"
      using n os_pread_inside [of pos ?n seed] by (simp_all add: img_slice_def)
    have unfold: "overlay_region seed h pos copy = overlay_region seed h (pos + ?n) (os_pwrite copy ?buf pos)"
      using True buf by (subst overlay_region.simps) (simp only: Let_def if_True if_False)
    have "f_dat (os_pwrite copy ?buf pos) y = (if pos \<le> y \<and> y < pos + ?n then f_dat seed y else f_dat copy y)" for y
      using f_dat_os_pwrite_short [of ?buf copy pos] buf(3) n(4) by (simp add: img_write_slice)
    moreover have "h - (pos + ?n) < h - pos" using True n(1) by linarith
    ultimately show ?thesis using less.hyps [of "pos + ?n"] less.prems n(3) unfold by auto
  qed
qed

lemma overlay_loop_image:
  assumes "f_size seed = sz"
  shows "\<exists>c. overlay_loop seed sz off copy = (Inr (), c) \<and>
    (\<forall>x. f_dat c x = (if off \<le> x \<and> x < sz \<and> f_alloc seed x then f_dat seed x else f_dat copy x))"
proof (induction "sz - off" arbitrary: off copy rule: less_induct)
  case less
  show ?case
  proof (cases "seek_data seed off")
    case None
    then have "\<not> (off \<le> x \<and> x < sz \<and> f_alloc seed x)" for x using seek_data_None assms by blast
    then show ?thesis using None by (subst overlay_loop.simps) auto
  next
    case (Some d)
    note d = seek_dataD [OF Some]
    obtain h where h: "seek_hole seed d = Some h" using seek_hole_Some d by blast
    have hD: "d < h" "h \<le> sz" "\<forall>x. d \<le> x \<and> x < h \<longrightarrow> f_alloc seed x"
      using seek_holeD [OF h] d assms by auto
    let ?c = "overlay_region seed h d copy"
    have "sz - h < sz - off" using d hD assms by linarith
    from less.hyps [OF this, of ?c] obtain c where
      c: "overlay_loop seed sz h ?c = (Inr (), c)"
        "\<forall>x. f_dat c x = (if h \<le> x \<and> x < sz \<and> f_alloc seed x then f_dat seed x else f_dat ?c x)" by blast
    have "overlay_loop seed sz off copy = (Inr (), c)"
      using Some h c(1) d assms by (subst overlay_loop.simps) simp
    moreover have "f_dat c x = (if off \<le> x \<and> x < sz \<and> f_alloc seed x then f_dat seed x else f_dat copy x)" for x
      using c(2) overlay_region_image [of h seed d copy x] hD d assms by auto
    ultimately show ?thesis by blast
  qed
qed

lemma overlay_seed_image:
  "\<exists>c. overlay_seed seed copy = (Inl (NameError ''log''), c) \<and>
    (\<forall>x. f_dat c x = (if x < f_size seed \<and> f_alloc seed x then f_dat seed x else f_dat copy x))"
  using overlay_loop_image [of seed "f_size seed" 0 copy] by (auto simp: overlay_seed_def)

lemma preserve_zero_chunk:
  assumes "wf_seed s" "f_size f = sl_size s" "c < sl_nchunks s" "\<not> nonzero_chunk (sl_size s) (f_dat f) c"
    and "preserve_chunk f c s = Inr s'"
  shows "sl_file s' = sl_file s"
proof -
  let ?o = "c * SEED_CHUNK" and ?n = "min SEED_CHUNK (sl_size s - c * SEED_CHUNK)"
  have o: "?o < sl_size s" using assms(1,3) by (simp add: wf_seed_def chunk_index)
  then have "os_pread f ?n ?o = img_slice (f_dat f) ?o ?n" using assms(2) by (intro os_pread_inside) auto
  moreover have "f_dat f x = 0" if "?o \<le> x" "x < ?o + ?n" for x
    using assms(4) chunk_span [OF o, of x] that by (auto simp: nonzero_chunk_def)
  ultimately have "\<not> list_ex (\<lambda>b. b \<noteq> 0) (os_pread f ?n ?o)"
    by (auto simp: list_ex_iff img_slice_def simp del: min_less_iff_conj)
  with assms(5) show ?thesis by (auto simp: preserve_chunk_def Let_def bind_result_Inr_iff split: if_splits)
qed

subsection \<open>Properties of the seed rebuild\<close>

text \<open>
  (C17) The overlay brings the seed-time disk back: for a copy of a replica that the seed layer
  guards, the image after \<^verbatim>\<open>overlay_seed\<close> equals the disk at the seed point on every 64 KiB
  chunk that was not entirely zero then. The function then raises all the same.
\<close>

theorem overlay_restores_seed:
  assumes "wf_seed s" and "cow S (f_dat replica) s" and "f_dat copy = f_dat replica"
  shows "\<exists>c. overlay_seed (sl_file s) copy = (Inl (NameError ''log''), c) \<and>
    (\<forall>x < sl_size s. nonzero_chunk (sl_size s) S (x div SEED_CHUNK) \<longrightarrow> f_dat c x = S x)"
proof -
  obtain c where c: "overlay_seed (sl_file s) copy = (Inl (NameError ''log''), c)"
      "\<forall>x. f_dat c x = (if x < f_size (sl_file s) \<and> f_alloc (sl_file s) x then f_dat (sl_file s) x else f_dat copy x)"
    using overlay_seed_image by blast
  have "f_dat c x = S x" if "x < sl_size s" "nonzero_chunk (sl_size s) S (x div SEED_CHUNK)" for x
    using c(2) that assms by (cases "saved_chunk s (x div SEED_CHUNK)") (auto simp: cow_def wf_seed_def)
  with c(1) show ?thesis by blast
qed

theorem overlay_restores_seed_witness:
  "\<exists>c. overlay_seed (sl_file sample_layer) sample_replica = (Inl (NameError ''log''), c) \<and>
    (\<forall>x < sl_size sample_layer. nonzero_chunk (sl_size sample_layer) (f_dat sample_replica) (x div SEED_CHUNK) \<longrightarrow>
      f_dat c x = f_dat sample_replica x)"
  by (rule overlay_restores_seed [OF sample_layer_wf(1) sample_layer_cow refl])

text \<open>
  A chunk that was zero at the seed point is not brought back: the layer marks it as saved
  without writing anything, so after a write to it the overlay leaves the new content in the
  copy.
\<close>

theorem overlay_misses_zero_chunk:
  assumes "wf_seed s" and "f_size f = sl_size s" and "\<not> saved_chunk s c" and "c < sl_nchunks s"
    and "\<not> nonzero_chunk (sl_size s) (f_dat f) c" and "\<not> f_alloc (sl_file s) x"
    and "preserve_chunk f c s = Inr s'"
  shows "\<exists>c'. overlay_seed (sl_file s') (os_pwrite f buf off) = (Inl (NameError ''log''), c') \<and>
    f_dat c' x = f_dat (os_pwrite f buf off) x"
proof -
  have "sl_file s' = sl_file s" by (rule preserve_zero_chunk [OF assms(1,2,4,5,7)])
  with overlay_seed_image [of "sl_file s'" "os_pwrite f buf off"] assms(6) show ?thesis by auto
qed

text \<open>An empty replica of four bytes, its layer after the first write to it.\<close>

definition zero_replica :: sfile where "zero_replica = os_truncated 4096 4"

theorem overlay_misses_zero_chunk_witness:
  "\<exists>c'. overlay_seed (sl_file (sample_layer\<lparr>sl_saved := [1]\<rparr>)) (os_pwrite zero_replica [5] 0) = (Inl (NameError ''log''), c') \<and>
    f_dat c' 0 = f_dat (os_pwrite zero_replica [5] 0) 0"
proof (rule overlay_misses_zero_chunk [OF sample_layer_wf(1), where f = zero_replica and c = 0])
  show "preserve_chunk zero_replica 0 sample_layer = Inr (sample_layer\<lparr>sl_saved := [1]\<rparr>)"
    by (simp add: preserve_chunk_def is_saved_def set_saved_def sample_layer_def zero_replica_def os_truncated_def
        os_pread_def SEED_CHUNK_def list_ex_iff)
qed (simp_all add: zero_replica_def sample_layer_def os_truncated_def nonzero_chunk_def saved_bit_def)

subsection \<open>The loop device\<close>

definition straced :: "'w shell \<Rightarrow> (string list \<times> 'w) shell" where
  "straced shell cmd = (\<lambda>(tr, w). let (r, w1) = shell cmd w in (r, (tr @ [cmd], w1)))"

text \<open>
  The loop device of \<^verbatim>\<open>mark_standby\<close> is always given back: once it has been set up, the last
  command that runs detaches it, whichever of the steps in between fails, and the outcome is
  that of these steps.
\<close>

theorem mark_standby_detaches:
  assumes "shell (''losetup -Pf --show '' @ copy_path) w = ((0, out, err), w1)"
  shows "\<exists>tr r w2. mark_standby (straced shell) pid stamp copy_path ([], w) = (r, (tr @ [''losetup -d '' @ py_strip out], w2))"
proof -
  have detach: "\<exists>w2. io_bind (sh (straced shell) cmd False) (\<lambda>_. io_lift (Inr ())) (tr, v) = (Inr (), (tr @ [cmd], w2))"
    for cmd tr v by (simp add: sh_def straced_def io_bind_def split: prod.splits)
  have last: "\<exists>tr r w2. io_finally body (io_bind (sh (straced shell) cmd False) (\<lambda>_. io_lift (Inr ()))) v = (r, (tr @ [cmd], w2))"
    for body :: "(string list \<times> 'a, unit) io" and cmd v
    using detach [of cmd "fst (snd (body v))" "snd (snd (body v))"]
    by (auto simp: io_finally_def Let_def split: prod.splits)
  show ?thesis
    using assms last unfolding mark_standby_def
    by (simp add: io_bind_cases [of "sh (straced shell) (''losetup -Pf --show '' @ copy_path) True"] sh_def straced_def Let_def)
qed

theorem mark_standby_detaches_witness:
  "\<exists>tr r w2. mark_standby (straced (\<lambda>cmd (w :: unit). ((if take 5 cmd = ''lsblk'' then 1 else 0, ''/dev/loop0'', []), w)))
      7 ''now'' ''/c.raw'' ([], ()) = (r, (tr @ [''losetup -d '' @ py_strip ''/dev/loop0''], w2))"
  by (rule mark_standby_detaches) simp

subsection \<open>Properties of the run\<close>

lemma io_modify_simps [simp]: "io_modify f w = (Inr (), f w)"
  by (simp add: io_modify_def)

text \<open>The progress file shows the progress: what every report leaves behind. The number of the
  virtual machine is set without a report, so the two agree up to it.\<close>

definition reported :: "progress \<Rightarrow> bool" where
  "reported p \<longleftrightarrow> pg_path p = None \<or> pg_path p = Some [] \<or> pg_file p = Some (pg_d p)"

lemma reported_ops [simp]:
  "reported (Progress path node now old)" "reported (pg_copy n t m eta p)" "reported (pg_step n msg now p)"
  "reported (pg_done msg now p)" "reported (pg_fail e now p)"
  by (auto simp: reported_def Progress_def pg_copy_def pg_step_def pg_done_def pg_fail_def pg_flush_def)

lemma pg_state_ops [simp]:
  "pg_state (pg_d (pg_step n msg now p)) = pg_state (pg_d p)"
  "pg_state (pg_d (pg_done msg now p)) = Done" "pg_state (pg_d (pg_fail e now p)) = Failed"
  "pg_error (pg_d (pg_fail e now p)) = Some e"
  by (simp_all add: pg_step_def pg_done_def pg_fail_def pg_flush_def)

text \<open>While the variable \<^verbatim>\<open>lock\<close> is cleared, there is no lock file.\<close>

definition lock_ok :: "rb_world \<Rightarrow> bool" where
  "lock_ok w \<longleftrightarrow> w_lock w \<or> \<not> nd_lock (w_dir w)"

lemma keeps_modify [keeps]: "(\<And>w. P w \<Longrightarrow> P (f w)) \<Longrightarrow> io_keeps P (io_modify f)"
  by (simp add: io_keeps_def)

lemma rb_body_done:
  assumes "rb_body a env w = (Inr u, w')"
  shows "pg_state (pg_d (w_progress w')) = Done \<and> reported (w_progress w')"
  using assms unfolding rb_body_def rb_boot_def
  by (auto simp: io_bind_cases Let_def split: sum.splits prod.splits if_splits)

lemma rb_unlock_keeps [keeps]: "io_keeps lock_ok rb_unlock"
  by (simp add: io_keeps_def rb_unlock_def lock_ok_def)

lemma rb_step_keeps [keeps]: "io_keeps lock_ok (rb_step env n msg)"
  by (auto simp: rb_step_def lock_ok_def intro: keeps)

lemma rb_steps_keep [keeps]:
  "io_keeps lock_ok (rb_cp env path f)" "io_keeps lock_ok (rb_overlay a)"
  "io_keeps lock_ok (rb_check a env)" "io_keeps lock_ok (rb_create a env path node)"
  "io_keeps lock_ok (rb_boot a env vmid node)"
proof -
  show "io_keeps lock_ok (rb_cp env path f)"
    by (simp add: io_keeps_def rb_cp_def lock_ok_def split: prod.splits)
  show "io_keeps lock_ok (rb_overlay a)"
    by (simp add: io_keeps_def rb_overlay_def lock_ok_def split: prod.splits option.splits)
  show "io_keeps lock_ok (rb_check a env)" unfolding rb_check_def
    by (intro keeps) (simp add: io_keeps_def Let_def split: sum.splits)
  show "io_keeps lock_ok (rb_create a env path node)" "io_keeps lock_ok (rb_boot a env vmid node)"
    unfolding rb_create_def rb_boot_def Let_def by (intro keeps; simp add: lock_ok_def)+
qed

lemma rb_early_keeps: "io_keeps w_lock (rb_check a env)" "io_keeps w_lock (rb_quiesce env)"
proof -
  have step: "io_keeps w_lock (rb_step env n msg)" for n msg by (auto simp: rb_step_def intro: keeps)
  show "io_keeps w_lock (rb_check a env)" unfolding rb_check_def
    by (intro keeps step) (simp add: io_keeps_def Let_def split: sum.splits)
  show "io_keeps w_lock (rb_quiesce env)" unfolding rb_quiesce_def by (intro keeps step) simp
qed

lemma rb_body_lock: "w_lock w \<Longrightarrow> lock_ok (snd (rb_body a env w))"
proof -
  assume w: "w_lock w"
  have rest: "io_keeps lock_ok (io_bind (rb_copy a env f st) (\<lambda>path. io_bind (rb_create a env path node) (\<lambda>vmid. rb_boot a env vmid node)))"
    for f st node unfolding rb_copy_def Let_def by (intro keeps)
  obtain r1 w1 where 1: "rb_check a env w = (r1, w1)" by fastforce
  then have w1: "w_lock w1" using io_keeps_snd [OF rb_early_keeps(1) w] by blast
  obtain r2 w2 where 2: "rb_quiesce env w1 = (r2, w2)" by fastforce
  then have "w_lock w2" using io_keeps_snd [OF rb_early_keeps(2) w1] by blast
  then have "lock_ok w2" "lock_ok w1" using w1 by (simp_all add: lock_ok_def)
  with 1 2 rest show ?thesis
    by (auto simp: rb_body_def io_bind_def io_keeps_def split: sum.splits prod.splits)
qed

lemma rb_overlay_fails: "a_from_seed a \<Longrightarrow> \<exists>e. fst (rb_overlay a w) = Inl e"
  using overlay_seed_image by (auto simp: rb_overlay_def split: option.splits prod.splits) (metis fst_conv)

lemma rb_copy_fails: "a_from_seed a \<Longrightarrow> \<exists>e. fst (rb_copy a env f st w) = Inl e"
proof -
  assume a: "a_from_seed a"
  obtain r1 w1 where 1: "rb_step env 3 (copy_msg a env st) w = (r1, w1)" by fastforce
  obtain r2 w2 where 2: "rb_cp env (path_join (path_join (a_journal a) ''rebuild'') (a_node a @ ''-'' @ v_ts env @ ''.raw'')) f w1 = (r2, w2)"
    by fastforce
  obtain e w3 where 3: "rb_overlay a w2 = (Inl e, w3)" using rb_overlay_fails [OF a, of w2] by (metis prod.collapse)
  from 1 2 3 show ?thesis by (cases r1; cases r2) (simp_all add: rb_copy_def io_bind_def Let_def)
qed

text \<open>
  (C14) How a rebuild ends: the exit code is 0 or 1; it is 0 exactly when the progress says done
  and 1 exactly when it says failed, with the error; the progress file, if there is one, shows
  the final state; and there is no lock, however the run ended. That holds for a lock of another
  rebuild as well: a run that fails its checks removes it.
\<close>

theorem rebuild_outcome:
  assumes "rebuild_main a env w = (code, w')"
  shows "(code = 0 \<and> pg_state (pg_d (w_progress w')) = Done \<or>
      code = 1 \<and> pg_state (pg_d (w_progress w')) = Failed \<and> (\<exists>e. pg_error (pg_d (w_progress w')) = Some e)) \<and>
    reported (w_progress w') \<and> \<not> nd_lock (w_dir w')"
proof -
  let ?w0 = "w\<lparr>w_progress := Progress (a_progress a) (a_node a) (v_clock env 0) (pg_file (w_progress w)), w_lock := True,
    w_copy := None\<rparr>"
  obtain r w1 where r: "rb_body a env ?w0 = (r, w1)" by fastforce
  have l: "lock_ok w1" using rb_body_lock [of ?w0 a env] r by simp
  show ?thesis
  proof (cases r)
    case (Inl e)
    with assms r l show ?thesis by (auto simp: rebuild_main_def Let_def lock_ok_def split: if_splits)
  next
    case (Inr u)
    with rb_body_done r have "pg_state (pg_d (w_progress w1)) = Done \<and> reported (w_progress w1)" by blast
    with Inr assms r l show ?thesis by (auto simp: rebuild_main_def Let_def lock_ok_def split: if_splits)
  qed
qed

text \<open>
  \<^verbatim>\<open>--from seed\<close> never succeeds: whatever the arguments, the environment and the files are,
  the run ends with exit code 1.
\<close>

theorem rebuild_from_seed_fails:
  assumes "a_from_seed a"
  shows "fst (rebuild_main a env w) = 1"
proof -
  have "\<exists>e. fst (rb_body a env w0) = Inl e" for w0
    using rb_copy_fails [OF assms, of env]
    by (auto simp: rb_body_def io_bind_cases split: sum.splits prod.splits) (metis Inl_Inr_False)
  then show ?thesis by (auto simp: rebuild_main_def Let_def split: prod.splits sum.splits) (metis fst_conv sum.distinct(1))+
qed

text \<open>
  Quiescing is not a condition: the outcome of a rebuild does not depend on what the daemon
  reports while the tool waits for it to pause.
\<close>

theorem rebuild_ignores_quiesce:
  "rebuild_main a (env\<lparr>v_polls := polls\<rparr>) w = rebuild_main a env w"
proof -
  let ?env = "env\<lparr>v_polls := polls\<rparr>"
  have steps: "rb_step ?env = rb_step env" "rb_cp ?env = rb_cp env" "copy_msg a ?env = copy_msg a env"
    by (simp_all add: fun_eq_iff rb_step_def rb_cp_def copy_msg_def)
  have fields: "v_check ?env = v_check env" "v_ssh ?env = v_ssh env" "v_ping ?env = v_ping env" "v_ts ?env = v_ts env"
      "v_clock ?env = v_clock env" by simp_all
  have same: "rb_check a ?env = rb_check a env" "rb_copy a ?env f st = rb_copy a env f st"
      "rb_create a ?env path node = rb_create a env path node" "rb_boot a ?env vmid node = rb_boot a env vmid node"
      for f st path node vmid
    unfolding rb_check_def rb_copy_def rb_create_def rb_boot_def steps fields by (rule refl)+
  have "io_bind (rb_quiesce ?env) (\<lambda>_. k) = io_bind (rb_quiesce env) (\<lambda>_. k)" for k :: "(rb_world, unit) io"
    by (rule ext) (simp add: rb_quiesce_def rb_step_def io_bind_def)
  with same have "rb_body a ?env = rb_body a env" by (simp add: rb_body_def)
  then show ?thesis unfolding rebuild_main_def fields by (simp only:)
qed

lemma rb_check_ok:
  assumes "rb_check a env w = (Inr (f, st, node), w')"
  shows "w_replica w = Some f \<and> st = w_status w \<and> node = w_node w \<and>
    (\<exists>m. nd_manifest (w_dir w) = Some m \<and> mf_base_end_seq m \<noteq> None) \<and>
    (\<forall>j. w_status w = Some j \<longrightarrow> a_force a \<or> 60 \<le> v_check env - sj_time j)"
  using assms unfolding rb_check_def rb_step_def io_modify_def
  by (auto simp: io_bind_def Let_def split: option.splits if_splits)

text \<open>The copy is written once and then left alone until it is removed.\<close>

lemma rb_copy_ok:
  assumes "rb_copy a env f st w = (Inr path, w')"
  shows "\<not> a_from_seed a \<and> v_cp_rc env = 0 \<and> w_copy w' = Some (path, v_cp env f) \<and> \<not> nd_lock (w_dir w') \<and> \<not> w_lock w'"
proof -
  have "\<not> a_from_seed a" using rb_copy_fails assms by (metis Inl_Inr_False fst_conv)
  with assms show ?thesis unfolding rb_copy_def rb_step_def rb_cp_def rb_overlay_def rb_unlock_def
    by (auto simp: io_bind_def Let_def copy_with_progress_def split: prod.splits sum.splits if_splits)
qed

lemma rb_create_ok:
  assumes "rb_create a env path node w = (Inr vmid, w')"
  shows "\<exists>out. ssh_script (v_ssh env) (a_host a) (a_user a) (host_script a
      (path_join (path_join (case a_host_journal a of None \<Rightarrow> a_journal a | Some j \<Rightarrow> if j = [] then a_journal a else j)
        ''rebuild'') (basename path)) (vm_spec_of (a_bridge a) node)) = Inr out \<and> vmid = vmid_of out \<and>
    pg_vmid (pg_d (w_progress w')) = Some vmid \<and> w_copy w' = w_copy w \<and> w_dir w' = w_dir w \<and> w_lock w' = w_lock w"
  using assms unfolding rb_create_def rb_step_def Let_def
  by (auto simp: io_bind_def split: prod.splits sum.splits)

lemma rb_boot_ok:
  assumes "rb_boot a env vmid node w = (Inr u, w')"
  shows "w_copy w' = (if a_keep_copy a then w_copy w else None) \<and> w_dir w' = w_dir w \<and> w_lock w' = w_lock w \<and>
    pg_vmid (pg_d (w_progress w')) = pg_vmid (pg_d (w_progress w)) \<and>
    (\<forall>n. node = Some n \<longrightarrow> ni_ips n = [] \<or> (\<exists>k < 150. v_ping env k))"
  using assms unfolding rb_boot_def rb_step_def Let_def
  by (auto simp: io_bind_def list_ex_iff pg_step_def pg_done_def pg_flush_def split: if_splits option.splits)

text \<open>
  (C15) What a successful rebuild has checked and made, whatever its options: the base copy of the
  node was complete and the node had been silent for a minute or the run was forced; \<^verbatim>\<open>cp\<close> ended
  with 0 and what it made of the replica was at \<open>path\<close>, with the lock gone, when the machine was
  created (world \<open>w1\<close>); the script for the host, which names that copy as the host sees it, was
  run there and the identifier in its output is the one reported; the new machine answered one
  of the 150 pings if the node has an address; and at the end the copy is still there with
  \<^verbatim>\<open>--keep-copy\<close> and removed without it.
\<close>

theorem rebuild_success:
  assumes "rebuild_main a env w = (0, w')"
  shows "\<exists>f m path w1 w2 out. w_replica w = Some f \<and> nd_manifest (w_dir w) = Some m \<and> mf_base_end_seq m \<noteq> None \<and>
    (\<forall>j. w_status w = Some j \<longrightarrow> a_force a \<or> 60 \<le> v_check env - sj_time j) \<and>
    v_cp_rc env = 0 \<and> w_copy w1 = Some (path, v_cp env f) \<and> \<not> nd_lock (w_dir w1) \<and>
    rb_create a env path (w_node w) w1 = (Inr (vmid_of out), w2) \<and>
    ssh_script (v_ssh env) (a_host a) (a_user a) (host_script a
      (path_join (path_join (case a_host_journal a of None \<Rightarrow> a_journal a | Some j \<Rightarrow> if j = [] then a_journal a else j)
        ''rebuild'') (basename path)) (vm_spec_of (a_bridge a) (w_node w))) = Inr out \<and>
    rb_boot a env (vmid_of out) (w_node w) w2 = (Inr (), w') \<and>
    pg_vmid (pg_d (w_progress w')) = Some (vmid_of out) \<and>
    (\<forall>n. w_node w = Some n \<longrightarrow> ni_ips n = [] \<or> (\<exists>k < 150. v_ping env k)) \<and>
    w_copy w' = (if a_keep_copy a then Some (path, v_cp env f) else None)"
proof -
  let ?w0 = "w\<lparr>w_progress := Progress (a_progress a) (a_node a) (v_clock env 0) (pg_file (w_progress w)), w_lock := True,
    w_copy := None\<rparr>"
  obtain u wb where body: "rb_body a env ?w0 = (Inr u, wb)"
    and w': "w' = (if w_lock wb \<and> nd_lock (w_dir wb) then wb\<lparr>w_dir := (w_dir wb)\<lparr>nd_lock := False\<rparr>\<rparr> else wb)"
    using assms(1) by (auto simp: rebuild_main_def Let_def split: prod.splits sum.splits if_splits)
  then obtain f st node v1 v2 w1 w2 q path vmid where
    s: "rb_check a env ?w0 = (Inr (f, st, node), v1)" "rb_quiesce env v1 = (Inr q, v2)"
      "rb_copy a env f st v2 = (Inr path, w1)" "rb_create a env path node w1 = (Inr vmid, w2)"
      "rb_boot a env vmid node w2 = (Inr u, wb)"
    by (auto simp: rb_body_def io_bind_def split: prod.splits sum.splits)
  note ok = rb_check_ok [OF s(1)] rb_copy_ok [OF s(3)] rb_create_ok [OF s(4)] rb_boot_ok [OF s(5)]
  have same: "w' = wb" "st = w_status w" "node = w_node w" using ok w' by auto
  obtain m where "nd_manifest (w_dir w) = Some m" "mf_base_end_seq m \<noteq> None" using ok(1) by auto
  moreover obtain out where "ssh_script (v_ssh env) (a_host a) (a_user a) (host_script a
      (path_join (path_join (case a_host_journal a of None \<Rightarrow> a_journal a | Some j \<Rightarrow> if j = [] then a_journal a else j)
        ''rebuild'') (basename path)) (vm_spec_of (a_bridge a) (w_node w))) = Inr out" "vmid = vmid_of out"
    using ok(3) same by blast
  ultimately show ?thesis using ok s(4,5) same
    by (intro exI [of _ f] exI [of _ m] exI [of _ path] exI [of _ w1] exI [of _ w2] exI [of _ out]) simp
qed

subsection \<open>A sample run\<close>

definition sample_args :: rb_args where
  "sample_args = \<lparr>a_node = ''n1'', a_host = ''h'', a_user = ''root'', a_vmid = None, a_storage = ''local-lvm'',
     a_bridge = ''vmbr0'', a_journal = ''/j'', a_host_journal = None, a_progress = Some ''/p'', a_force = False,
     a_keep_copy = True, a_from_seed = False\<rparr>"

definition sample_rb_env :: rb_env where
  "sample_rb_env = \<lparr>v_clock = (\<lambda>n. of_nat n), v_check = 0, v_polls = (\<lambda>_. (None, 100)), v_ts = ''t'', v_hms = (\<lambda>_. []),
     v_cp = id, v_cp_rc = 0, v_cp_total = Some 4096, v_cp_polls = [], v_ssh = (\<lambda>_. Inr (0, ''VMID=9100'', [])),
     v_ping = (\<lambda>_. True)\<rparr>"

definition sample_world :: rb_world where
  "sample_world = \<lparr>w_dir = sample_dir\<lparr>nd_manifest := Some (sample_manifest\<lparr>mf_base_end_seq := Some 0\<rparr>)\<rparr>,
     w_replica = Some zero_replica, w_status = None, w_node = None, w_copy = None,
     w_progress = Progress None [] 0 None, w_lock = False\<rparr>"

lemma sample_run: "\<exists>w'. rebuild_main (sample_args\<lparr>a_keep_copy := k\<rparr>) sample_rb_env sample_world = (0, w')"
  by (simp add: rebuild_main_def rb_body_def rb_check_def rb_quiesce_def rb_copy_def rb_cp_def rb_overlay_def rb_unlock_def
      rb_create_def rb_boot_def rb_step_def ssh_script_def copy_with_progress_def io_bind_def Let_def sample_world_def sample_args_def
      sample_rb_env_def sample_manifest_def)

text \<open>Without \<^verbatim>\<open>--keep-copy\<close>, as the web service starts it.\<close>

theorem rebuild_success_witness:
  "\<exists>w' f m path w1 w2 out. rebuild_main (sample_args\<lparr>a_keep_copy := False\<rparr>) sample_rb_env sample_world = (0, w') \<and>
    w_replica sample_world = Some f \<and> nd_manifest (w_dir sample_world) = Some m \<and> mf_base_end_seq m \<noteq> None \<and>
    w_copy w1 = Some (path, v_cp sample_rb_env f) \<and> \<not> nd_lock (w_dir w1) \<and>
    rb_create (sample_args\<lparr>a_keep_copy := False\<rparr>) sample_rb_env path (w_node sample_world) w1 = (Inr (vmid_of out), w2) \<and>
    pg_vmid (pg_d (w_progress w')) = Some (vmid_of out) \<and>
    w_copy w' = (if a_keep_copy (sample_args\<lparr>a_keep_copy := False\<rparr>) then Some (path, v_cp sample_rb_env f) else None)"
proof -
  obtain w' where run: "rebuild_main (sample_args\<lparr>a_keep_copy := False\<rparr>) sample_rb_env sample_world = (0, w')"
    using sample_run [of False] by blast
  from rebuild_success [OF run] run show ?thesis by blast
qed

theorem rebuild_outcome_witness:
  "\<exists>code w'. rebuild_main sample_args sample_rb_env (sample_world\<lparr>w_dir := sample_dir\<lparr>nd_lock := True\<rparr>\<rparr>) = (code, w') \<and>
    (code = 0 \<and> pg_state (pg_d (w_progress w')) = Done \<or>
      code = 1 \<and> pg_state (pg_d (w_progress w')) = Failed \<and> (\<exists>e. pg_error (pg_d (w_progress w')) = Some e)) \<and>
    reported (w_progress w') \<and> \<not> nd_lock (w_dir w')"
proof -
  obtain code w' where run: "rebuild_main sample_args sample_rb_env (sample_world\<lparr>w_dir := sample_dir\<lparr>nd_lock := True\<rparr>\<rparr>) = (code, w')"
    by fastforce
  from rebuild_outcome [OF run] run show ?thesis by blast
qed

theorem rebuild_from_seed_fails_witness:
  "fst (rebuild_main (sample_args\<lparr>a_from_seed := True\<rparr>) sample_rb_env
     (sample_world\<lparr>w_dir := sample_dir\<lparr>nd_manifest := Some (sample_manifest\<lparr>mf_base_end_seq := Some 0\<rparr>),
        nd_seed_raw := Some zero_replica\<rparr>\<rparr>)) = 1"
  by (rule rebuild_from_seed_fails) simp

end
