(* ===== verification/Seed_Tool.thy ===== *)
theory Seed_Tool
  imports Rebuild
begin

text \<open>
  \<^verbatim>\<open>rkcdp/rkcdp-seed.py\<close>: finding the virtual machine and its disk on the Proxmox hosts, the
  resumable copy, the progress in \<^verbatim>\<open>seed.json\<close>, the entry in the manifest and the wait for the
  daemon.

  \<^verbatim>\<open>ssh\<close> is a function from a host and a command to the return code, the output and the error
  output, or an exception. What the script with \<^verbatim>\<open>dd\<close> does to the replica is a parameter \<open>dd\<close>,
  of which \<open>dd_sparse\<close> states what the manual of \<^verbatim>\<open>dd\<close> says of \<^verbatim>\<open>conv=notrunc,sparse\<close>. The lines
  that the script prints come with the time they are read at.
\<close>

subsection \<open>Locating the machine\<close>

type_synonym ssh_call = "string \<Rightarrow> string \<Rightarrow> (int \<times> string \<times> string) result"

definition lower :: "string \<Rightarrow> string" where
  "lower s = map (\<lambda>c. let n = (of_char c :: nat) in if 65 \<le> n \<and> n \<le> 90 then char_of (n + 32) else c) s"

text \<open>\<open>nets\<close>: the interfaces with their address, if it can be read. The set of the code is a list
  without duplicates here; its order only shows in the pattern that \<^verbatim>\<open>grep\<close> gets.\<close>

definition my_macs :: "(string \<times> string option) list \<Rightarrow> string list" where
  "my_macs nets = remdups (map (\<lambda>(_, a). lower a) (macs_of nets))"

text \<open>\<^verbatim>\<open>re.escape\<close>.\<close>

definition re_escape :: "string \<Rightarrow> string" where
  "re_escape s = concat (map (\<lambda>c.
     if c \<in> set (''()[]{}?*+-|^$.&~# '' @ map char_of [9, 10, 11, 12, 13, 92 :: nat]) then [CHR 0x5C, c] else [c]) s)"

definition is_digit :: "char \<Rightarrow> bool" where
  "is_digit c \<longleftrightarrow> digit_val c \<noteq> None"

text \<open>\<^verbatim>\<open>re.search(r"/(\d+)\.conf", s)\<close>: the number of the first match.\<close>

fun search_conf :: "string \<Rightarrow> nat option" where
  "search_conf [] = None"
| "search_conf (c # cs) =
     (let ds = takeWhile is_digit cs in
      if c = CHR ''/'' \<and> ds \<noteq> [] \<and> take 5 (drop (length ds) cs) = ''.conf''
      then Some (dec_value (fst (digit_run False ds))) else search_conf cs)"

definition find_script :: "string list \<Rightarrow> string" where
  "find_script macs = ''grep -liE '' @ [CHR 0x27] @ py_join ''|'' (map re_escape macs) @ [CHR 0x27] @
     '' /etc/pve/qemu-server/*.conf 2>/dev/null; true''"

text \<open>A host of the inventory: \<^verbatim>\<open>ip\<close> and \<^verbatim>\<open>hostname\<close>.\<close>

type_synonym host_entry = "string option \<times> string option"

definition host_ip :: "host_entry \<Rightarrow> string" where
  "host_ip = (\<lambda>(ip, name). case ip of
     Some s \<Rightarrow> if s \<noteq> [] then s else (case name of None \<Rightarrow> [] | Some n \<Rightarrow> n)
   | None \<Rightarrow> (case name of None \<Rightarrow> [] | Some n \<Rightarrow> n))"

fun find_vm :: "ssh_call \<Rightarrow> string list \<Rightarrow> host_entry list \<Rightarrow> (string \<times> nat) option result" where
  "find_vm ssh macs [] = Inr None"
| "find_vm ssh macs (h # hs) =
     (if host_ip h = [] then find_vm ssh macs hs
      else bind_result (ssh (host_ip h) (find_script macs)) (\<lambda>(_, out, _).
        (case search_conf out of
           Some v \<Rightarrow> Inr (Some (host_ip h, v))
         | None \<Rightarrow> find_vm ssh macs hs)))"

definition disk_size :: "ssh_call \<Rightarrow> string \<Rightarrow> string \<Rightarrow> int result" where
  "disk_size ssh host path =
     bind_result (ssh host (''blockdev --getsize64 '' @ path @ '' 2>/dev/null || stat -c %s '' @ path)) (\<lambda>(_, out, _).
       (case py_split out of
          [] \<Rightarrow> Inr 0
        | w # _ \<Rightarrow> (case py_int w of Inl _ \<Rightarrow> Inr 0 | Inr n \<Rightarrow> Inr n)))"

text \<open>\<^verbatim>\<open>re.search(r":\s*([^,\s]+)", s)\<close>: the volume.\<close>

fun search_vol :: "string \<Rightarrow> string option" where
  "search_vol [] = None"
| "search_vol (c # cs) =
     (let v = takeWhile (\<lambda>x. x \<noteq> CHR '','' \<and> \<not> py_space x) (dropWhile py_space cs) in
      if c = CHR '':'' \<and> v \<noteq> [] then Some v else search_vol cs)"

definition vm_disk :: "ssh_call \<Rightarrow> string \<Rightarrow> nat \<Rightarrow> (string \<times> string) result" where
  "vm_disk ssh host vmid =
     bind_result (ssh host (''qm config '' @ show_nat vmid @ '' | grep -E '' @ [CHR 0x27] @ ''^(scsi|virtio|sata)0:'' @ [CHR 0x27] @
         '' | head -1'')) (\<lambda>(_, out, err).
       (case search_vol out of
          None \<Rightarrow> Inl (SystemExit (''cannot find boot disk of VM '' @ show_nat vmid @ '' on '' @ host @ '': '' @
                    (if py_strip out = [] then py_strip err else py_strip out)))
        | Some vol \<Rightarrow>
            bind_result (ssh host (''pvesm path '' @ vol)) (\<lambda>(rc, out2, err2).
              if rc \<noteq> 0 \<or> py_strip out2 = []
              then Inl (SystemExit (''pvesm path '' @ vol @ '' failed on '' @ host @ '': '' @ py_strip err2))
              else Inr (vol, py_strip out2))))"

subsection \<open>The directory of the node\<close>

text \<open>\<open>arg\<close> is \<^verbatim>\<open>--journal\<close>, \<open>conf_file\<close> the configuration file, if it can be read.\<close>

definition seed_conf :: "string \<Rightarrow> (string \<times> jval) list option \<Rightarrow> conf" where
  "seed_conf hostname conf_file =
     [''journal'' \<mapsto> JStr ''/replication/_kvmdr/rkcdp'', ''node'' \<mapsto> JStr hostname] ++
     (case conf_file of None \<Rightarrow> Map.empty | Some kvs \<Rightarrow> dict_of kvs)"

definition as_path :: "jval \<Rightarrow> string result" where
  "as_path v = (case v of JStr s \<Rightarrow> Inr s | _ \<Rightarrow> Inl TypeError)"

definition seed_dir :: "string option \<Rightarrow> string \<Rightarrow> (string \<times> jval) list option \<Rightarrow> string result" where
  "seed_dir arg hostname conf_file =
     (let conf = seed_conf hostname conf_file in
      bind_result (if arg = None \<or> arg = Some [] then conf_str conf ''journal'' else Inr (the arg)) (\<lambda>journal.
      bind_result (as_path (get_or conf ''node'' (JStr hostname))) (\<lambda>node.
        Inr (path_join journal node))))"

subsection \<open>Progress\<close>

record resume_rec =
  rs_host :: string
  rs_vmid :: nat
  rs_total :: nat
  rs_chunk :: nat

record copy_line_info =
  cl_done :: nat
  cl_mbps :: rat
  cl_eta :: "int option"

record seed_info =
  si_phase :: string
  si_percent :: "nat option"
  si_msg :: string
  si_error :: "py_error option"
  si_time :: rat
  si_copy :: "copy_line_info option"
  si_resume :: "resume_rec option"

record seed_world =
  z_json :: "seed_info option"          \<comment> \<open>\<^verbatim>\<open>seed.json\<close>\<close>
  z_resume :: "resume_rec option"       \<comment> \<open>the variable \<^verbatim>\<open>resume\<close>\<close>
  z_replica :: "sfile option"
  z_seed_raw :: "sfile option"
  z_manifest :: "manifest option"

text \<open>The closure \<^verbatim>\<open>progress\<close>; \<open>chunk\<close> is given by the calls from the copy loop. For the phase
  \<^verbatim>\<open>failed\<close> the message is the text of the exception, kept as the exception itself.\<close>

definition progress ::
  "rat \<Rightarrow> string \<Rightarrow> nat option \<Rightarrow> string \<Rightarrow> py_error option \<Rightarrow> (resume_rec \<times> copy_line_info) option \<Rightarrow> seed_world \<Rightarrow> seed_world" where
  "progress now phase pct msg err chunk z =
     (let r1 = (case chunk of None \<Rightarrow> z_resume z | Some (r, _) \<Rightarrow> Some r);
          r2 = (if phase = ''done'' then None else r1)
      in z\<lparr>z_resume := r2, z_json := Some \<lparr>si_phase = phase, si_percent = pct, si_msg = msg, si_error = err, si_time = now,
             si_copy = map_option snd chunk, si_resume = r2\<rparr>\<rparr>)"

subsection \<open>The copy\<close>

definition CH :: nat where "CH = 64 * 2 ^ 20"

definition resume_start :: "resume_rec option \<Rightarrow> string \<Rightarrow> nat \<Rightarrow> nat \<Rightarrow> nat" where
  "resume_start r host vmid tot =
     (case r of
        None \<Rightarrow> 0
      | Some x \<Rightarrow> if rs_host x = host \<and> rs_vmid x = vmid \<and> rs_total x = tot then rs_chunk x + 1 else 0)"

definition nchunks :: "nat \<Rightarrow> nat" where
  "nchunks tot = (tot + CH - 1) div CH"

text \<open>The loop over the lines: \<^verbatim>\<open>samples\<close>, \<^verbatim>\<open>last_pct\<close>, \<^verbatim>\<open>last_w\<close> and the world. The percentage is
  computed without the rounding of floating-point division.\<close>

record line_state =
  ls_samples :: "(rat \<times> nat) list"
  ls_pct :: int
  ls_w :: rat
  ls_world :: seed_world

definition line_rate :: "(rat \<times> nat) list \<Rightarrow> rat" where
  "line_rate samples =
     (if 2 \<le> length samples \<and> fst (last samples) > fst (hd samples)
      then (of_nat (snd (last samples)) - of_nat (snd (hd samples))) / (fst (last samples) - fst (hd samples)) else 0)"

definition copy_line :: "string \<Rightarrow> nat \<Rightarrow> nat \<Rightarrow> string \<times> rat \<Rightarrow> line_state \<Rightarrow> line_state result" where
  "copy_line host vmid tot = (\<lambda>(raw, now) ls.
     (let line = py_strip raw in
      if line = [] \<or> \<not> list_all is_digit line then Inr ls
      else if tot = 0 then Inl ZeroDivisionError
      else
        (let i = dec_value (fst (digit_run False line));
             done_b = min tot ((i + 1) * CH);
             pct = done_b * 100 div tot;
             all_samples = ls_samples ls @ [(now, done_b)];
             recent = filter (\<lambda>x. now - fst x \<le> 60) all_samples;
             samples = (if recent = [] then [(now, done_b)] else recent);
             rate = line_rate samples;
             eta = (if rate > 0 then Some (py_trunc ((of_nat tot - of_nat done_b) / rate)) else None) in
         if int pct \<noteq> ls_pct ls \<or> now - ls_w ls > 5
         then Inr \<lparr>ls_samples = samples, ls_pct = int pct, ls_w = now,
                ls_world = progress now ''copy'' (Some pct) (''copying disk on '' @ host) None
                  (Some (\<lparr>rs_host = host, rs_vmid = vmid, rs_total = tot, rs_chunk = i\<rparr>,
                         \<lparr>cl_done = done_b, cl_mbps = round1 (rate / 1048576), cl_eta = eta\<rparr>)) (ls_world ls)\<rparr>
         else Inr (ls\<lparr>ls_samples := samples\<rparr>))))"

subsection \<open>The program\<close>

record seed_env =
  y_host :: "string option"               \<comment> \<open>\<^verbatim>\<open>--host\<close>\<close>
  y_vmid :: "nat option"                  \<comment> \<open>\<^verbatim>\<open>--vmid\<close>\<close>
  y_journal :: string
  y_hosts :: "host_entry list"
  y_nets :: "(string \<times> string option) list"
  y_ssh :: ssh_call
  y_dd :: "nat \<Rightarrow> sfile \<Rightarrow> sfile"         \<comment> \<open>what copying one chunk does to the replica\<close>
  y_chunks :: nat                         \<comment> \<open>how many chunks the script copies before it fails\<close>
  y_rc :: int
  y_err :: string
  y_lines :: "(string \<times> rat) list"
  y_clock :: "nat \<Rightarrow> rat"
  y_blk :: nat
  y_boot :: string
  y_polls :: "nat \<Rightarrow> status_json option \<times> rat"

definition HOSTS_FILE :: string where "HOSTS_FILE = ''/opt/kvmdr/hypervisors.json''"

text \<open>Step 1: the host, the number of the machine, the volume and its size. A negative size, which
  neither \<^verbatim>\<open>blockdev\<close> nor \<^verbatim>\<open>stat\<close> prints, is refused here rather than when the file is made.\<close>

definition locate :: "seed_env \<Rightarrow> (string \<times> nat \<times> string \<times> nat) result" where
  "locate y =
     bind_result
       (case (y_host y, y_vmid y) of
          (Some h, Some v) \<Rightarrow> if h \<noteq> [] \<and> v \<noteq> 0 then Inr (Some (h, v))
            else find_vm (y_ssh y) (my_macs (y_nets y)) (if h \<noteq> [] then [(Some h, None)] else y_hosts y)
        | (Some h, None) \<Rightarrow> find_vm (y_ssh y) (my_macs (y_nets y)) (if h \<noteq> [] then [(Some h, None)] else y_hosts y)
        | (None, _) \<Rightarrow> find_vm (y_ssh y) (my_macs (y_nets y)) (y_hosts y)) (\<lambda>found.
     (case found of
        None \<Rightarrow> Inl (RuntimeError (''could not find a VM with this node'' @ [CHR 0x27] @ ''s MAC on any host in '' @ HOSTS_FILE))
      | Some (host, vmid) \<Rightarrow>
          if host = [] \<or> vmid = 0
          then Inl (RuntimeError (''could not find a VM with this node'' @ [CHR 0x27] @ ''s MAC on any host in '' @ HOSTS_FILE))
          else bind_result (vm_disk (y_ssh y) host vmid) (\<lambda>(vol, disk).
               bind_result (disk_size (y_ssh y) host disk) (\<lambda>tot.
               bind_result (y_ssh y host (''test -d '' @ y_journal y @ '' && echo ok'')) (\<lambda>(_, out, _).
                 if \<not> py_contains ''ok'' out
                 then Inl (RuntimeError (''host '' @ host @ '' cannot see '' @ y_journal y @ '' (replication share not mounted there)''))
                 else if tot < 0 then Inl OSError
                 else Inr (host, vmid, vol, nat tot))))))"

definition z_progress ::
  "rat \<Rightarrow> string \<Rightarrow> nat option \<Rightarrow> string \<Rightarrow> py_error option \<Rightarrow> (seed_world, unit) io" where
  "z_progress now phase pct msg err = io_modify (progress now phase pct msg err None)"

text \<open>Step 2.\<close>

definition seed_copy :: "seed_env \<Rightarrow> string \<Rightarrow> nat \<Rightarrow> nat \<Rightarrow> (seed_world, unit) io" where
  "seed_copy y host vmid tot z =
     (let start = resume_start (z_resume z) host vmid tot;
          f = (case z_replica z of None \<Rightarrow> os_truncated (y_blk y) tot | Some g \<Rightarrow> g);
          todo = (if y_rc y = 0 then [start..<nchunks tot] else take (y_chunks y) [start..<nchunks tot]);
          z1 = z\<lparr>z_replica := Some (fold (y_dd y) todo f)\<rparr> in
      case fold_result (copy_line host vmid tot) (y_lines y) \<lparr>ls_samples = [], ls_pct = -1, ls_w = 0, ls_world = z1\<rparr> of
        Inl e \<Rightarrow> (Inl e, z1)
      | Inr ls \<Rightarrow>
          if y_rc y \<noteq> 0
          then (Inl (RuntimeError (''copy failed on '' @ host @ '' (rc='' @ show_int (y_rc y) @ ''): '' @ y_err y)), ls_world ls)
          else (Inr (), progress (y_clock y 2) ''copy'' (Some 100) ''replica.raw written'' None None (ls_world ls)))"

text \<open>Steps 3 and 4. A manifest that is not there yet gets only the keys written here; the model
  leaves the others blank.\<close>

definition blank_manifest :: manifest where
  "blank_manifest = \<lparr>mf_node = [], mf_device = [], mf_dm_name = [], mf_gen = 0, mf_abi = 0, mf_size = 0,
     mf_base_end_seq = None, mf_base_time = None, mf_seeded = None, mf_consistent = None\<rparr>"

definition seed_point :: "seed_env \<Rightarrow> nat \<Rightarrow> seed_world \<Rightarrow> seed_world" where
  "seed_point y tot z =
     (let m = (case z_manifest z of None \<Rightarrow> blank_manifest | Some m \<Rightarrow> m) in
      z\<lparr>z_seed_raw := Some (case z_seed_raw z of None \<Rightarrow> os_truncated (y_blk y) tot | Some g \<Rightarrow> g),
        z_manifest := Some (m\<lparr>mf_seeded := Some \<lparr>sd_boot_id = Some (y_boot y), sd_time = Some (y_clock y 4)\<rparr>, mf_size := tot\<rparr>)\<rparr>)"

text \<open>Step 5: the wait for \<^verbatim>\<open>CDP\<close>, without a limit.\<close>

partial_function (option) wait_cdp ::
  "(nat \<Rightarrow> status_json option \<times> rat) \<Rightarrow> nat \<Rightarrow> seed_world \<Rightarrow> (unit result \<times> seed_world) option" where
  "wait_cdp polls k z =
     (let (st, now) = polls k in
      case st of
        None \<Rightarrow> wait_cdp polls (Suc k) z
      | Some j \<Rightarrow>
          if sj_state j = CDP then Some (Inr (), progress now ''done'' (Some 100) ''protected'' None None z)
          else if now - sj_time j > 300
          then Some (Inl (RuntimeError (''rkcdpd stopped updating status ('' @ show_int (py_trunc (now - sj_time j)) @ '' s ago)'')), z)
          else if sj_state j = WAITING \<or> sj_state j = RECOVERING then wait_cdp polls (Suc k) z
          else wait_cdp polls (Suc k) (progress now ''drain'' None (''rkcdpd state '' @ state_name (sj_state j)) None None z))"

text \<open>The body of the \<^verbatim>\<open>try\<close> and \<^verbatim>\<open>main\<close>. \<^verbatim>\<open>SystemExit\<close> is no \<^verbatim>\<open>Exception\<close>: it passes the handler.\<close>

definition seed_body :: "seed_env \<Rightarrow> (seed_world, unit) io" where
  "seed_body y =
     io_bind (z_progress (y_clock y 0) ''locate'' None ''finding this VM on its host'' None) (\<lambda>_.
     io_bind (io_lift (locate y)) (\<lambda>(host, vmid, vol, tot).
     io_bind (z_progress (y_clock y 1) ''locate'' (Some 0) (''VM '' @ show_nat vmid @ '' on '' @ host @ '', disk '' @ vol) None) (\<lambda>_.
     io_bind (seed_copy y host vmid tot) (\<lambda>_.
     io_bind (io_modify (seed_point y tot)) (\<lambda>_.
       z_progress (y_clock y 4) ''drain'' None ''waiting for rkcdpd to drain changes since boot'' None)))))"

definition seed_main :: "seed_env \<Rightarrow> seed_world \<Rightarrow> (nat \<times> seed_world) option" where
  "seed_main y z =
     (let z0 = z\<lparr>z_resume := (case z_json z of None \<Rightarrow> None | Some j \<Rightarrow> si_resume j)\<rparr>;
          finish = (\<lambda>(r, z1). case r of
             Inr _ \<Rightarrow> (0, z1)
           | Inl (SystemExit m) \<Rightarrow> (1, z1)
           | Inl e \<Rightarrow> (1, progress (y_clock y 5) ''failed'' None [] (Some e) None z1)) in
      case seed_body y z0 of
        (Inl e, z1) \<Rightarrow> Some (finish (Inl e, z1))
      | (Inr _, z1) \<Rightarrow> map_option finish (wait_cdp (y_polls y) 0 z1))"

text \<open>\<^verbatim>\<open>rkcdp-seed --status\<close>.\<close>

definition seed_status :: "seed_world \<Rightarrow> seed_info option" where
  "seed_status z = z_json z"

subsection \<open>What the copy leaves\<close>

text \<open>\<^verbatim>\<open>dd bs=64M count=1 conv=notrunc,sparse\<close> on chunk \<open>i\<close>: \<open>disk i\<close> is the disk when that chunk is read;
  a block of zeros is skipped, anything else is written.\<close>

definition dd_sparse :: "(nat \<Rightarrow> sfile \<Rightarrow> sfile) \<Rightarrow> (nat \<Rightarrow> image) \<Rightarrow> nat \<Rightarrow> bool" where
  "dd_sparse dd disk tot \<longleftrightarrow> (\<forall>i f x. f_size (dd i f) = f_size f \<and> f_dat (dd i f) x =
     (if x < tot \<and> x div CH = i \<and> (\<exists>y < tot. y div CH = i \<and> disk i y \<noteq> 0) then disk i x else f_dat f x))"

lemma dd_chunks:
  assumes "dd_sparse dd disk tot"
  shows "f_size (fold dd [a..<b] f) = f_size f \<and> f_dat (fold dd [a..<b] f) x =
    (if x < tot \<and> a \<le> x div CH \<and> x div CH < b \<and> (\<exists>y < tot. y div CH = x div CH \<and> disk (x div CH) y \<noteq> 0)
     then disk (x div CH) x else f_dat f x)"
proof (induction b)
  case (Suc b)
  show ?case
  proof (cases "a \<le> b")
    case True
    have "f_dat (fold dd [a..<Suc b] f) x = f_dat (dd b (fold dd [a..<b] f)) x"
      "f_size (fold dd [a..<Suc b] f) = f_size (dd b (fold dd [a..<b] f))" using True by simp_all
    with assms Suc.IH True show ?thesis by (auto simp: dd_sparse_def less_Suc_eq)
  qed auto
qed auto

lemma chunk_number: "x < tot \<Longrightarrow> x div CH < nchunks tot"
proof -
  assume "x < tot"
  then have "x div CH * CH < tot" using div_times_less_eq_dividend [of x CH] by linarith
  then show ?thesis
    unfolding nchunks_def by (simp add: CH_def less_eq_div_iff_mult_less_eq Suc_le_eq [symmetric])
qed

text \<open>Reporting does not touch the files.\<close>

definition same_files :: "seed_world \<Rightarrow> seed_world \<Rightarrow> bool" where
  "same_files z z' \<longleftrightarrow> z_replica z' = z_replica z \<and> z_seed_raw z' = z_seed_raw z \<and> z_manifest z' = z_manifest z"

lemma progress_files [simp]: "same_files z (progress now phase pct msg err chunk z)"
  by (simp add: same_files_def progress_def Let_def)

lemma same_files_refl [simp]: "same_files z z"
  by (simp add: same_files_def)

lemma same_files_trans: "same_files a b \<Longrightarrow> same_files b c \<Longrightarrow> same_files a c"
  by (simp add: same_files_def)

lemma copy_line_files:
  assumes "copy_line host vmid tot l ls = Inr ls'"
  shows "same_files (ls_world ls) (ls_world ls')"
  using assms by (cases l) (auto simp: copy_line_def Let_def split: if_splits)

lemma copy_lines_files:
  "fold_result (copy_line host vmid tot) lines ls = Inr ls' \<Longrightarrow> same_files (ls_world ls) (ls_world ls')"
proof (induction lines arbitrary: ls)
  case (Cons l lines)
  then obtain ls1 where "copy_line host vmid tot l ls = Inr ls1" "fold_result (copy_line host vmid tot) lines ls1 = Inr ls'"
    by (auto simp: bind_result_Inr_iff)
  with Cons.IH copy_line_files same_files_trans show ?case by blast
qed simp

lemma seed_copy_replica:
  assumes "seed_copy y host vmid tot z = (Inr u, z')"
  shows "y_rc y = 0 \<and> z_replica z' = Some (fold (y_dd y) [resume_start (z_resume z) host vmid tot..<nchunks tot]
    (case z_replica z of None \<Rightarrow> os_truncated (y_blk y) tot | Some g \<Rightarrow> g))"
  using assms
  by (auto simp: seed_copy_def Let_def same_files_def progress_def dest!: copy_lines_files split: sum.splits if_splits)

lemma seed_copy_image:
  assumes "dd_sparse (y_dd y) disk tot" "seed_copy y host vmid tot z = (Inr u, z')"
    and "f = (case z_replica z of None \<Rightarrow> os_truncated (y_blk y) tot | Some g \<Rightarrow> g)"
  shows "\<exists>g. z_replica z' = Some g \<and> f_size g = f_size f \<and> (\<forall>x < tot. f_dat g x =
    (if resume_start (z_resume z) host vmid tot \<le> x div CH \<and> (\<exists>y < tot. y div CH = x div CH \<and> disk (x div CH) y \<noteq> 0)
     then disk (x div CH) x else f_dat f x))"
  using seed_copy_replica [OF assms(2)] dd_chunks [OF assms(1)] chunk_number by (auto simp: assms(3))

subsection \<open>The whole run\<close>

text \<open>The percentage on the screen.\<close>

definition percent_ok :: "seed_world \<Rightarrow> bool" where
  "percent_ok z \<longleftrightarrow> (case z_json z of None \<Rightarrow> True | Some j \<Rightarrow> (case si_percent j of None \<Rightarrow> True | Some p \<Rightarrow> p \<le> 100))"

lemma percent_progress [simp]:
  "percent_ok (progress now phase pct msg err chunk z) \<longleftrightarrow> (case pct of None \<Rightarrow> True | Some p \<Rightarrow> p \<le> 100)"
  by (simp add: percent_ok_def progress_def Let_def)

lemma progress_json [simp]:
  "z_json (progress now phase pct msg err chunk z) = Some j \<longleftrightarrow>
    j = \<lparr>si_phase = phase, si_percent = pct, si_msg = msg, si_error = err, si_time = now, si_copy = map_option snd chunk,
      si_resume = (if phase = ''done'' then None else case chunk of None \<Rightarrow> z_resume z | Some (r, _) \<Rightarrow> Some r)\<rparr>"
  by (auto simp: progress_def Let_def split: option.split)

lemma percent_of_part: "0 < tot \<Longrightarrow> min tot d * 100 div tot \<le> (100 :: nat)"
proof -
  assume "0 < tot"
  have "min tot d * 100 div tot \<le> tot * 100 div tot" by (intro div_le_mono) simp
  with \<open>0 < tot\<close> show ?thesis by simp
qed

lemma copy_line_percent:
  assumes "copy_line host vmid tot l ls = Inr ls'" and "percent_ok (ls_world ls)"
  shows "percent_ok (ls_world ls')"
  using assms by (cases l) (auto simp: copy_line_def Let_def percent_of_part split: if_splits)

lemma copy_lines_percent:
  "fold_result (copy_line host vmid tot) lines ls = Inr ls' \<Longrightarrow> percent_ok (ls_world ls) \<Longrightarrow> percent_ok (ls_world ls')"
proof (induction lines arbitrary: ls)
  case (Cons l lines)
  then obtain ls1 where "copy_line host vmid tot l ls = Inr ls1" "fold_result (copy_line host vmid tot) lines ls1 = Inr ls'"
    by (auto simp: bind_result_Inr_iff)
  with Cons copy_line_percent show ?case by blast
qed simp

lemma percent_files [simp]: "percent_ok (z\<lparr>z_replica := r\<rparr>) = percent_ok z" "percent_ok (seed_point y tot z) = percent_ok z"
  by (simp_all add: percent_ok_def seed_point_def Let_def)

lemma seed_copy_percent:
  "seed_copy y host vmid tot z = (r, z') \<Longrightarrow> percent_ok z \<Longrightarrow> percent_ok z'"
  by (auto simp: seed_copy_def Let_def dest!: copy_lines_percent split: sum.splits if_splits)

lemma seed_copy_error:
  "seed_copy y host vmid tot z = (Inl e, z') \<Longrightarrow> e \<noteq> SystemExit m"
proof -
  have "fold_result (copy_line host vmid tot) lines ls = Inl e \<Longrightarrow> e = ZeroDivisionError" for lines ls
    by (induction lines arbitrary: ls)
      (auto simp: bind_result_def copy_line_def Let_def split: sum.splits if_splits)
  moreover assume "seed_copy y host vmid tot z = (Inl e, z')"
  ultimately show ?thesis by (auto simp: seed_copy_def Let_def split: sum.splits if_splits)
qed

text \<open>What the wait can end with.\<close>

lemma wait_cdp_outcome:
  assumes "wait_cdp polls k z = Some (r, z')"
  shows "same_files z z' \<and> (percent_ok z \<longrightarrow> percent_ok z') \<and>
    (case r of Inr _ \<Rightarrow> \<exists>j. z_json z' = Some j \<and> si_phase j = ''done'' \<and> si_resume j = None
     | Inl e \<Rightarrow> \<exists>m. e = RuntimeError m)"
proof -
  have "case rz of (r, z') \<Rightarrow> same_files z z' \<and> (percent_ok z \<longrightarrow> percent_ok z') \<and>
    (case r of Inr _ \<Rightarrow> \<exists>j. z_json z' = Some j \<and> si_phase j = ''done'' \<and> si_resume j = None
     | Inl e \<Rightarrow> \<exists>m. e = RuntimeError m)" if "wait_cdp polls k z = Some rz" for rz
  proof (rule wait_cdp.raw_induct [OF _ that], goal_cases)
    case (1 wait polls k z rz)
    obtain st now where p: "polls k = (st, now)" by force
    note step = 1(2) [unfolded p Let_def prod.case]
    show ?case
    proof (cases st)
      case None
      with step show ?thesis using 1(1) [of polls "Suc k" z rz] by simp
    next
      case (Some j)
      have same: "same_files z (progress now ''drain'' None m None None z)" for m by simp
      from Some step show ?thesis
        using 1(1) [of polls "Suc k" z rz]
          1(1) [of polls "Suc k" "progress now ''drain'' None (''rkcdpd state '' @ state_name (sj_state j)) None None z" rz]
          same_files_trans [OF same]
        by (auto split: if_splits)
    qed
  qed
  from this [OF assms] show ?thesis by simp
qed

lemma wait_cdp_live:
  assumes "polls (k + n) = (Some j, now)" "sj_state j = CDP"
    and "\<forall>i < n. \<forall>j now. polls (k + i) = (Some j, now) \<longrightarrow> sj_state j \<noteq> CDP \<longrightarrow> now - sj_time j \<le> 300"
  shows "\<exists>z'. wait_cdp polls k z = Some (Inr (), z')"
  using assms
proof (induction n arbitrary: k z)
  case 0
  then show ?case by (subst wait_cdp.simps) simp
next
  case (Suc n)
  obtain st t where p: "polls k = (st, t)" by force
  have next_poll: "\<exists>z'. wait_cdp polls (Suc k) z = Some (Inr (), z')" for z
    using Suc.prems by (intro Suc.IH) auto
  have fresh: "t - sj_time j' \<le> 300" if "st = Some j'" "sj_state j' \<noteq> CDP" for j'
    using Suc.prems(3) [rule_format, of 0 j' t] p that by simp
  show ?case
    by (subst wait_cdp.simps) (use p next_poll fresh in \<open>auto simp: not_less split: option.split\<close>)
qed

lemma seed_body_cases:
  assumes "seed_body y z = (r, z1)"
  shows "percent_ok z1 \<and> (case r of
      Inl e \<Rightarrow> (\<forall>m. e = SystemExit m \<longrightarrow> (\<exists>j. z_json z1 = Some j \<and> si_phase j = ''locate''))
    | Inr _ \<Rightarrow> \<exists>m. z_manifest z1 = Some m \<and> mf_seeded m = Some \<lparr>sd_boot_id = Some (y_boot y), sd_time = Some (y_clock y 4)\<rparr>)"
proof -
  let ?z0 = "progress (y_clock y 0) ''locate'' None ''finding this VM on its host'' None None z"
  show ?thesis
  proof (cases "locate y")
    case (Inl e)
    with assms show ?thesis by (auto simp: seed_body_def z_progress_def io_bind_cases)
  next
    case (Inr loc)
    obtain host vmid vol tot where loc: "loc = (host, vmid, vol, tot)" by (cases loc) auto
    let ?z1 = "progress (y_clock y 1) ''locate'' (Some 0) (''VM '' @ show_nat vmid @ '' on '' @ host @ '', disk '' @ vol) None None ?z0"
    obtain c z2 where copy: "seed_copy y host vmid tot ?z1 = (c, z2)" by force
    have "percent_ok z2" using seed_copy_percent [OF copy] by simp
    moreover have "(case c of Inl e \<Rightarrow> r = Inl e \<and> z1 = z2 \<and> (\<forall>m. e \<noteq> SystemExit m)
      | Inr _ \<Rightarrow> r = Inr () \<and>
          z1 = progress (y_clock y 4) ''drain'' None ''waiting for rkcdpd to drain changes since boot'' None None (seed_point y tot z2))"
      using assms copy seed_copy_error [of y host vmid tot ?z1]
      by (auto simp: seed_body_def z_progress_def Inr loc io_bind_cases split: sum.split)
    ultimately show ?thesis
      using progress_files [of "seed_point y tot z2"]
      by (auto simp: same_files_def seed_point_def Let_def split: sum.splits)
  qed
qed

text \<open>How a run can end.\<close>

definition seed_end :: "seed_env \<Rightarrow> seed_world \<Rightarrow> seed_info \<Rightarrow> nat \<Rightarrow> bool" where
  "seed_end y z j code \<longleftrightarrow>
     code = 0 \<and> si_phase j = ''done'' \<and> si_resume j = None \<and>
       (\<exists>m. z_manifest z = Some m \<and> mf_seeded m = Some \<lparr>sd_boot_id = Some (y_boot y), sd_time = Some (y_clock y 4)\<rparr>)
     \<or> code = 1 \<and> (si_phase j = ''failed'' \<and> si_error j \<noteq> None \<or> si_phase j = ''locate'')"

lemma seed_main_result:
  assumes "seed_main y z = Some (code, z')"
  shows "\<exists>j. z_json z' = Some j \<and> percent_ok z' \<and> seed_end y z' j code"
proof -
  let ?z0 = "z\<lparr>z_resume := (case z_json z of None \<Rightarrow> None | Some j \<Rightarrow> si_resume j)\<rparr>"
  obtain r z1 where body: "seed_body y ?z0 = (r, z1)" by force
  note b = seed_body_cases [OF body]
  show ?thesis
  proof (cases r)
    case (Inl e)
    with assms body b show ?thesis by (cases e) (auto simp: seed_main_def seed_end_def Let_def)
  next
    case (Inr u)
    with assms body obtain w z2 where w: "wait_cdp (y_polls y) 0 z1 = Some (w, z2)"
      by (auto simp: seed_main_def Let_def)
    note o = wait_cdp_outcome [OF w]
    with assms body Inr w b show ?thesis
      by (cases w) (auto simp: seed_main_def seed_end_def Let_def same_files_def)
  qed
qed

text \<open>
  What the daemon needs of a seed: the replica is new, or the empty file that a waiting daemon
  has created, and every byte that changes between the copy of its chunk and the present is
  marked dirty; then every byte in which the replica differs from the present disk is dirty.
\<close>

definition empty_replica :: "nat \<Rightarrow> seed_world \<Rightarrow> bool" where
  "empty_replica tot z \<longleftrightarrow> (case z_replica z of None \<Rightarrow> True | Some f \<Rightarrow> f_size f = tot \<and> (\<forall>x < tot. f_dat f x = 0))"

lemma seed_copy_covers:
  assumes "dd_sparse (y_dd y) disk tot" and "empty_replica tot z" and "z_resume z = None"
    and "\<forall>i. \<forall>x < tot. disk i x \<noteq> dev x \<longrightarrow> dirty x"
    and "seed_copy y host vmid tot z = (Inr u, z')"
  shows "\<exists>g. z_replica z' = Some g \<and> f_size g = tot \<and> (\<forall>x < tot. f_dat g x \<noteq> dev x \<longrightarrow> dirty x)"
proof -
  define f where "f = (case z_replica z of None \<Rightarrow> os_truncated (y_blk y) tot | Some g \<Rightarrow> g)"
  have f: "f_size f = tot" "\<forall>x < tot. f_dat f x = 0"
    using assms(2) by (auto simp: f_def empty_replica_def os_truncated_def split: option.splits)
  obtain g where g: "z_replica z' = Some g" "f_size g = f_size f"
      "\<forall>x < tot. f_dat g x = (if resume_start (z_resume z) host vmid tot \<le> x div CH \<and>
        (\<exists>y < tot. y div CH = x div CH \<and> disk (x div CH) y \<noteq> 0) then disk (x div CH) x else f_dat f x)"
    using seed_copy_image [OF assms(1,5) f_def] by blast
  have "f_dat g x = disk (x div CH) x" if "x < tot" for x
    using g(3) that f(2) assms(3) by (auto simp: resume_start_def)
  with g(1,2) f(1) assms(4) show ?thesis by auto
qed

lemma seed_copy_keeps:
  assumes "seed_copy y host vmid tot z = (Inr u, z')"
  shows "z_seed_raw z' = z_seed_raw z \<and> z_manifest z' = z_manifest z"
  using assms
  by (auto simp: seed_copy_def Let_def same_files_def progress_def dest!: copy_lines_files split: sum.splits if_splits)

lemma seed_body_run:
  assumes "seed_body y z = (Inr u, z1)" and "locate y = Inr (host, vmid, vol, tot)"
  shows "\<exists>z0 z2. z_resume z0 = z_resume z \<and> same_files z z0 \<and> seed_copy y host vmid tot z0 = (Inr (), z2) \<and>
    same_files (seed_point y tot z2) z1"
proof -
  let ?z0 = "progress (y_clock y 1) ''locate'' (Some 0) (''VM '' @ show_nat vmid @ '' on '' @ host @ '', disk '' @ vol) None None
    (progress (y_clock y 0) ''locate'' None ''finding this VM on its host'' None None z)"
  obtain c z2 where copy: "seed_copy y host vmid tot ?z0 = (c, z2)" by force
  with assms have "c = Inr ()" "same_files (seed_point y tot z2) z1"
    by (auto simp: seed_body_def z_progress_def io_bind_cases split: sum.splits)
  moreover have "same_files z ?z0" using same_files_trans progress_files by blast
  moreover have "z_resume ?z0 = z_resume z" by (simp add: progress_def Let_def)
  ultimately show ?thesis using copy by blast
qed

subsection \<open>A sample run\<close>

text \<open>A host that knows machine 101 and its disk of four bytes, and a disk on which byte 1 is 9.\<close>

definition sample_ssh :: ssh_call where
  "sample_ssh host cmd =
     Inr (0, (if take 4 cmd = ''grep'' then ''/etc/pve/qemu-server/101.conf''
              else if take 9 cmd = ''qm config'' then ''scsi0: local:vm-101,size=4''
              else if take 5 cmd = ''pvesm'' then ''/dev/pve/vm-101''
              else if take 8 cmd = ''blockdev'' then ''4'' else ''ok''), [])"

definition sample_disk :: image where "sample_disk x = (if x = 1 then 9 else 0)"

definition sample_dd :: "nat \<Rightarrow> sfile \<Rightarrow> sfile" where
  "sample_dd i f = (if i = 0 then f\<lparr>f_dat := (\<lambda>x. if x < 4 then sample_disk x else f_dat f x)\<rparr> else f)"

definition sample_seed_env :: seed_env where
  "sample_seed_env = \<lparr>y_host = None, y_vmid = None, y_journal = ''/j'', y_hosts = [(Some ''h1'', None)],
     y_nets = [(''eth0'', Some ''AA:BB'')], y_ssh = sample_ssh, y_dd = sample_dd, y_chunks = 0, y_rc = 0, y_err = [],
     y_lines = [(''0'', 10)], y_clock = (\<lambda>n. of_nat n), y_blk = 4096, y_boot = ''b'',
     y_polls = (\<lambda>_. (None, 0))\<rparr>"

definition sample_seed_world :: seed_world where
  "sample_seed_world = \<lparr>z_json = None, z_resume = None, z_replica = None, z_seed_raw = None, z_manifest = Some sample_manifest\<rparr>"

definition sample_protected :: status_json where
  "sample_protected = \<lparr>sj_node = ''n'', sj_state = CDP, sj_time = 9, sj_boot_id = Some ''b'', sj_last_seq = None, sj_last_time = None,
     sj_seq_next = 1, sj_ring_used = 0, sj_ring_size = 4096, sj_overflows = 0, sj_records = 0, sj_bytes = 0,
     sj_base_copy = None, sj_recovery_gap_seq = None, sj_consistent = None, sj_pending_bytes = 0\<rparr>"

lemma CH_pos: "0 < CH" "4 \<le> CH"
  by (simp_all add: CH_def)

lemma sample_dd_sparse: "dd_sparse sample_dd (\<lambda>_. sample_disk) 4"
proof -
  have "x div CH = 0" if "x < 4" for x using that CH_pos by simp
  moreover have "\<exists>y < 4. y div CH = 0 \<and> sample_disk y \<noteq> 0" using CH_pos by (intro exI [of _ 1]) (simp add: sample_disk_def)
  ultimately show ?thesis by (auto simp: dd_sparse_def sample_dd_def)
qed

lemma sample_locate: "locate sample_seed_env = Inr (''h1'', 101, ''local:vm-101'', 4)"
  by code_simp

text \<open>The lines can only stop the copy of an empty disk.\<close>

lemma copy_lines_total:
  assumes "0 < tot"
  shows "\<exists>ls'. fold_result (copy_line host vmid tot) lines ls = Inr ls'"
proof (induction lines arbitrary: ls)
  case (Cons l lines)
  have "copy_line host vmid tot l ls \<noteq> Inl e" for e
    using assms by (cases l) (simp add: copy_line_def Let_def)
  then obtain ls1 where "copy_line host vmid tot l ls = Inr ls1" by (cases "copy_line host vmid tot l ls") auto
  with Cons.IH [of ls1] show ?case by simp
qed simp

lemma seed_copy_returns:
  assumes "0 < tot" and "y_rc y = 0"
  shows "\<exists>z'. seed_copy y host vmid tot z = (Inr (), z')"
  using assms copy_lines_total [OF assms(1)] by (auto simp: seed_copy_def Let_def split: sum.splits) (metis sum.distinct(1))

lemma sample_copy: "\<exists>z'. seed_copy sample_seed_env host vmid 4 z = (Inr (), z')"
  by (rule seed_copy_returns) (simp_all add: sample_seed_env_def)

subsection \<open>Properties\<close>

text \<open>
  A resumed copy trusts what an earlier run left, from whichever boot: with a matching
  \<^verbatim>\<open>resume\<close> entry the bytes of the chunks up to the recorded one stay as they are, although the
  seed point is recorded with the id of the present boot.
\<close>

theorem seed_resume_keeps_old:
  assumes "dd_sparse (y_dd y) disk tot" and "z_replica z = Some f"
    and "z_resume z = Some \<lparr>rs_host = host, rs_vmid = vmid, rs_total = tot, rs_chunk = c\<rparr>"
    and "seed_copy y host vmid tot z = (Inr u, z')" and "x < tot" and "x div CH \<le> c"
  shows "\<exists>g. z_replica (seed_point y tot z') = Some g \<and> f_dat g x = f_dat f x \<and>
    (\<exists>m. z_manifest (seed_point y tot z') = Some m \<and>
      mf_seeded m = Some \<lparr>sd_boot_id = Some (y_boot y), sd_time = Some (y_clock y 4)\<rparr>)"
  using seed_copy_image [OF assms(1,4), of f] assms(2,3,5,6)
  by (auto simp: seed_point_def resume_start_def Let_def)

theorem seed_resume_keeps_old_witness:
  "\<exists>z' g. seed_copy sample_seed_env ''h1'' 101 4 (sample_seed_world\<lparr>z_replica := Some (os_truncated 4096 4),
      z_resume := Some \<lparr>rs_host = ''h1'', rs_vmid = 101, rs_total = 4, rs_chunk = 0\<rparr>\<rparr>) = (Inr (), z') \<and>
    z_replica (seed_point sample_seed_env 4 z') = Some g \<and> f_dat g 1 = f_dat (os_truncated 4096 4) 1 \<and>
    (\<exists>m. z_manifest (seed_point sample_seed_env 4 z') = Some m \<and>
      mf_seeded m = Some \<lparr>sd_boot_id = Some (y_boot sample_seed_env), sd_time = Some (y_clock sample_seed_env 4)\<rparr>)"
proof -
  let ?z = "sample_seed_world\<lparr>z_replica := Some (os_truncated 4096 4),
    z_resume := Some \<lparr>rs_host = ''h1'', rs_vmid = 101, rs_total = 4, rs_chunk = 0\<rparr>\<rparr>"
  obtain z' where run: "seed_copy sample_seed_env ''h1'' 101 4 ?z = (Inr (), z')" using sample_copy by blast
  have "dd_sparse (y_dd sample_seed_env) (\<lambda>_. sample_disk) 4"
    by (simp add: sample_seed_env_def sample_dd_sparse)
  from seed_resume_keeps_old [OF this _ _ run, of "os_truncated 4096 4" 0 1] run CH_pos show ?thesis by auto
qed

text \<open>
  A disk whose size could not be read counts as an empty one: with size 0 nothing is copied,
  yet the copy succeeds and the seed point is recorded.
\<close>

theorem seed_unknown_size:
  assumes "locate y = Inr (host, vmid, vol, 0)" and "y_rc y = 0" and "y_lines y = []" and "z_replica z = Some f"
  shows "\<exists>z'. seed_body y z = (Inr (), z') \<and> z_replica z' = Some f \<and>
    (\<exists>m. z_manifest z' = Some m \<and> mf_seeded m \<noteq> None \<and> mf_size m = 0)"
  using assms
  by (simp add: seed_body_def seed_copy_def seed_point_def z_progress_def progress_def io_bind_def nchunks_def CH_def Let_def)

theorem seed_unknown_size_witness:
  "\<exists>z'. seed_body (sample_seed_env\<lparr>y_lines := [], y_ssh := (\<lambda>h c. if take 8 c = ''blockdev'' then Inr (1, [], []) else sample_ssh h c)\<rparr>)
      (sample_seed_world\<lparr>z_replica := Some (os_truncated 4096 4)\<rparr>) = (Inr (), z') \<and>
    z_replica z' = Some (os_truncated 4096 4) \<and> (\<exists>m. z_manifest z' = Some m \<and> mf_seeded m \<noteq> None \<and> mf_size m = 0)"
proof (rule seed_unknown_size)
  show "locate (sample_seed_env\<lparr>y_lines := [], y_ssh := (\<lambda>h c. if take 8 c = ''blockdev'' then Inr (1, [], []) else sample_ssh h c)\<rparr>) =
      Inr (''h1'', 101, ''local:vm-101'', 0)" by code_simp
qed (simp_all add: sample_seed_env_def)

text \<open>
  (C26) What the exit code of \<^verbatim>\<open>rkcdp-seed\<close> says: with 0, \<^verbatim>\<open>seed.json\<close> reports \<^verbatim>\<open>done\<close> and forgets the
  resume entry, and the manifest carries the seed point of the present boot; with 1,
  \<^verbatim>\<open>seed.json\<close> reports \<^verbatim>\<open>failed\<close>, or still \<^verbatim>\<open>locate\<close> when the machine's disk was not found; there is
  no other code, and the percentage reported is at most 100.
\<close>

theorem seed_outcome:
  assumes "seed_main y z = Some (code, z')"
  shows "\<exists>j. z_json z' = Some j \<and> percent_ok z' \<and>
    (code = 0 \<and> si_phase j = ''done'' \<and> si_resume j = None \<and>
       (\<exists>m. z_manifest z' = Some m \<and> mf_seeded m = Some \<lparr>sd_boot_id = Some (y_boot y), sd_time = Some (y_clock y 4)\<rparr>)
     \<or> code = 1 \<and> (si_phase j = ''failed'' \<and> si_error j \<noteq> None \<or> si_phase j = ''locate''))"
  using seed_main_result [OF assms] by (auto simp: seed_end_def)

theorem seed_outcome_witness:
  "\<exists>z' j. seed_main (sample_seed_env\<lparr>y_ssh := (\<lambda>_ _. Inl TimeoutExpired)\<rparr>) sample_seed_world = Some (1, z') \<and>
    z_json z' = Some j \<and> percent_ok z'"
proof -
  have loc: "locate (sample_seed_env\<lparr>y_ssh := (\<lambda>_ _. Inl TimeoutExpired)\<rparr>) = Inl TimeoutExpired" by code_simp
  obtain z' where run: "seed_main (sample_seed_env\<lparr>y_ssh := (\<lambda>_ _. Inl TimeoutExpired)\<rparr>) sample_seed_world = Some (1, z')"
    using loc by (simp add: seed_main_def seed_body_def z_progress_def Let_def io_bind_cases)
  with seed_outcome [OF run] show ?thesis by blast
qed

text \<open>
  (C25) Seeding reaches protection: when the machine is found, its disk is not empty, the copy
  on the host succeeds, and the daemon keeps writing its status until at some poll it
  reports \<^verbatim>\<open>CDP\<close>, then \<^verbatim>\<open>rkcdp-seed\<close> returns, with exit code 0.
\<close>

theorem seed_reaches_protection:
  assumes "locate y = Inr (host, vmid, vol, tot)" and "0 < tot" and "y_rc y = 0"
    and "y_polls y n = (Some j, now)" and "sj_state j = CDP"
    and "\<forall>i < n. \<forall>j now. y_polls y i = (Some j, now) \<longrightarrow> sj_state j \<noteq> CDP \<longrightarrow> now - sj_time j \<le> 300"
  shows "\<exists>z'. seed_main y z = Some (0, z')"
proof -
  let ?z0 = "z\<lparr>z_resume := (case z_json z of None \<Rightarrow> None | Some j \<Rightarrow> si_resume j)\<rparr>"
  have "\<exists>z1. seed_body y ?z0 = (Inr (), z1)"
    using assms(1) seed_copy_returns [OF assms(2,3), of host vmid]
    by (auto simp: seed_body_def z_progress_def io_bind_cases split: sum.split) (metis fst_conv sum.distinct(1))
  then obtain z1 where "seed_body y ?z0 = (Inr (), z1)" by blast
  moreover have "\<exists>z'. wait_cdp (y_polls y) 0 z1 = Some (Inr (), z')"
    using assms(4-6) by (intro wait_cdp_live [where n = n and j = j and now = now]) auto
  ultimately show ?thesis by (auto simp: seed_main_def Let_def)
qed

theorem seed_reaches_protection_witness:
  "\<exists>z'. seed_main (sample_seed_env\<lparr>y_polls := (\<lambda>k. (if k = 0 then None else Some sample_protected, 10))\<rparr>) sample_seed_world = Some (0, z')"
proof (rule seed_reaches_protection [where n = 1 and now = 10 and j = sample_protected])
  show "locate (sample_seed_env\<lparr>y_polls := (\<lambda>k. (if k = 0 then None else Some sample_protected, 10))\<rparr>) =
      Inr (''h1'', 101, ''local:vm-101'', 4)"
    by code_simp
qed (simp_all add: sample_seed_env_def sample_protected_def)

end
