(* ===== verification/Api.thy ===== *)
theory Api
  imports Main_Loop "HOL-Library.List_Lexorder" "HOL-Library.Char_ord"
begin

text \<open>
  \<^verbatim>\<open>rkcdp/api_rkcdp.py\<close>: the node list (\<^verbatim>\<open>_nodes\<close>, \<^verbatim>\<open>_refresh_loop\<close> and the cached answer) and the
  three endpoints.

  A JSON file that cannot be read is \<open>None\<close>; what it holds otherwise is any JSON value. The
  database is a function from host ids to rows. Where the web framework is called, the model
  has the answer or the HTTP error the code raises.
\<close>

definition STALE_SEC :: rat where "STALE_SEC = 60"

definition JOURNAL :: string where "JOURNAL = ''/replication/_kvmdr/rkcdp''"
definition REBUILD_BIN :: string where "REBUILD_BIN = ''/opt/rkcdp/rkcdp-rebuild''"
definition PROGRESS_DIR :: string where "PROGRESS_DIR = ''/run/rkcdp''"

text \<open>A dictionary as it is read, and \<^verbatim>\<open>d.get(k)\<close>.\<close>

type_synonym dict = "(string \<times> jval) list"

definition dget :: "dict \<Rightarrow> string \<Rightarrow> jval option" where
  "dget d k = dict_of d k"

text \<open>\<^verbatim>\<open>_load(p, {})\<close> followed by \<^verbatim>\<open>.get\<close>: a value that is no object has no such attribute.\<close>

definition load_dict :: "jval option \<Rightarrow> dict result" where
  "load_dict v = (case v of None \<Rightarrow> Inr [] | Some (JObj kvs) \<Rightarrow> Inr kvs | Some _ \<Rightarrow> Inl (AttributeError ''get''))"

subsection \<open>The state of a node\<close>

datatype api_state = ASeeding | AWaiting | ASyncing | AUnprotected | AStale | ABitmap | APaused | ACdp

text \<open>\<^verbatim>\<open>now - status.get("time", 0) if status else None\<close>.\<close>

definition status_age :: "rat \<Rightarrow> dict \<Rightarrow> rat option result" where
  "status_age now st =
     (if st = [] then Inr None
      else (case dget st ''time'' of
          None \<Rightarrow> Inr (Some now)
        | Some (JNum t) \<Rightarrow> Inr (Some (now - t))
        | Some (JBool b) \<Rightarrow> Inr (Some (now - (if b then 1 else 0)))
        | Some _ \<Rightarrow> Inl TypeError))"

definition is_str :: "jval option \<Rightarrow> string list \<Rightarrow> bool" where
  "is_str v ss = (case v of Some (JStr s) \<Rightarrow> s \<in> set ss | _ \<Rightarrow> False)"

definition classify :: "rat option \<Rightarrow> dict \<Rightarrow> dict \<Rightarrow> dict \<Rightarrow> api_state" where
  "classify age m st seed =
     (let fresh = (case age of None \<Rightarrow> False | Some t \<Rightarrow> t \<le> STALE_SEC) in
      if fresh \<and> is_str (dget seed ''phase'') [''locate'', ''copy'', ''seed'', ''replica'', ''drain''] then ASeeding
      else if fresh \<and> is_str (dget st ''state'') [''WAITING''] then AWaiting
      else if fresh \<and> is_str (dget st ''state'') [''SYNCING''] then ASyncing
      else if dget m ''base_end_seq'' = None then AUnprotected
      else if \<not> fresh then AStale
      else if is_str (dget st ''state'') [''BITMAP'', ''RECOVERING''] then ABitmap
      else if is_str (dget st ''state'') [''PAUSED''] then APaused
      else ACdp)"

subsection \<open>The node list\<close>

record node_files =
  nf_name :: string
  nf_isdir :: bool
  nf_manifest :: "jval option"
  nf_status :: "jval option"
  nf_node :: "jval option"
  nf_seed :: "jval option"
  nf_replica :: "(nat \<times> nat) option"     \<comment> \<open>\<^verbatim>\<open>st_size\<close> and \<^verbatim>\<open>st_blocks\<close>\<close>
  nf_seed_raw :: bool
  nf_progress :: "jval option"

record node_row =
  nr_node :: string
  nr_state :: api_state
  nr_age :: "int option"
  nr_last_seq :: "jval option"
  nr_seq_next :: "jval option"
  nr_overflows :: "jval option"
  nr_applied_time :: "jval option"
  nr_pending_bytes :: jval
  nr_replica_bytes :: "nat option"
  nr_replica_used :: "nat option"
  nr_device :: "jval option"
  nr_ips :: "jval option"
  nr_mem_mb :: "jval option"
  nr_cpus :: "jval option"
  nr_base_copy :: "jval option"
  nr_seed :: "(jval option \<times> jval option \<times> jval option) option"
  nr_seed_present :: bool
  nr_rebuilding :: bool
  nr_rebuild :: "jval option"

definition listed :: "node_files \<Rightarrow> bool" where
  "listed f \<longleftrightarrow> nf_isdir f \<and> nf_name f \<noteq> ''rebuild'' \<and> take 1 (nf_name f) \<noteq> ''.''"

text \<open>\<^verbatim>\<open>bool(prog and prog.get("state") == "running")\<close>.\<close>

definition is_running :: "jval option \<Rightarrow> bool result" where
  "is_running prog =
     (case prog of
        None \<Rightarrow> Inr False
      | Some v \<Rightarrow> if \<not> truthy v then Inr False
                  else (case v of JObj kvs \<Rightarrow> Inr (is_str (dict_of kvs ''state'') [''running''])
                        | _ \<Rightarrow> Inl (AttributeError ''get'')))"

text \<open>\<^verbatim>\<open>seed.json\<close> is looked into only next to a fresh status or when it is not empty.\<close>

definition seed_dict :: "rat option \<Rightarrow> jval option \<Rightarrow> dict result" where
  "seed_dict age v =
     (case v of
        Some x \<Rightarrow> if \<not> truthy x \<and> \<not> (case age of None \<Rightarrow> False | Some t \<Rightarrow> t \<le> STALE_SEC) then Inr [] else load_dict v
      | None \<Rightarrow> Inr [])"

text \<open>One row. Which of several unreadable files is complained about first is not modelled.\<close>

definition make_row :: "rat \<Rightarrow> node_files \<Rightarrow> node_row result" where
  "make_row now f =
     bind_result (load_dict (nf_manifest f)) (\<lambda>m.
     bind_result (load_dict (nf_status f)) (\<lambda>st.
     bind_result (load_dict (nf_node f)) (\<lambda>node.
     bind_result (status_age now st) (\<lambda>age.
     bind_result (seed_dict age (nf_seed f)) (\<lambda>seed.
     bind_result (is_running (nf_progress f)) (\<lambda>running.
       Inr \<lparr>nr_node = nf_name f, nr_state = classify age m st seed,
            nr_age = map_option (\<lambda>t. if 0 \<le> t then \<lfloor>t\<rfloor> else \<lceil>t\<rceil>) age,
            nr_last_seq = dget st ''last_seq'', nr_seq_next = dget st ''seq_next'', nr_overflows = dget st ''overflows'',
            nr_applied_time = (case dget st ''last_time'' of
                Some v \<Rightarrow> if truthy v then Some v else dget m ''base_time'' | None \<Rightarrow> dget m ''base_time''),
            nr_pending_bytes = (case dget st ''pending_bytes'' of None \<Rightarrow> JNum 0 | Some v \<Rightarrow> v),
            nr_replica_bytes = map_option fst (nf_replica f), nr_replica_used = map_option (\<lambda>(_, b). b * 512) (nf_replica f),
            nr_device = dget m ''device'', nr_ips = dget node ''ips'', nr_mem_mb = dget node ''mem_mb'', nr_cpus = dget node ''cpus'',
            nr_base_copy = dget st ''base_copy'',
            nr_seed = (if seed = [] then None else Some (dget seed ''phase'', dget seed ''percent'', dget seed ''msg'')),
            nr_seed_present = nf_seed_raw f, nr_rebuilding = running, nr_rebuild = nf_progress f\<rparr>))))))"

text \<open>\<^verbatim>\<open>_nodes\<close>: \<open>files\<close> gives the entry of each name in the journal directory, in any order.\<close>

definition map_result :: "('a \<Rightarrow> 'b result) \<Rightarrow> 'a list \<Rightarrow> 'b list result" where
  "map_result f xs = fold_result (\<lambda>x ys. bind_result (f x) (\<lambda>y. Inr (ys @ [y]))) xs []"

definition nodes :: "rat \<Rightarrow> node_files list option \<Rightarrow> node_row list result" where
  "nodes now journal =
     (case journal of
        None \<Rightarrow> Inr []
      | Some files \<Rightarrow> map_result (make_row now) (filter listed (sort_key nf_name files)))"

record cache =
  c_nodes :: "node_row list"
  c_time :: rat

definition refresh :: "rat \<Rightarrow> rat \<Rightarrow> node_files list option \<Rightarrow> cache \<Rightarrow> cache" where
  "refresh now stamp journal c =
     (case nodes now journal of Inl _ \<Rightarrow> c | Inr ns \<Rightarrow> \<lparr>c_nodes = ns, c_time = stamp\<rparr>)"

definition rkcdp_nodes :: "cache \<Rightarrow> node_row list \<times> rat" where
  "rkcdp_nodes c = (c_nodes c, c_time c)"

definition rkcdp_rebuild_status :: "jval option \<Rightarrow> jval" where
  "rkcdp_rebuild_status prog =
     (case prog of
        Some v \<Rightarrow> if truthy v then v else JObj [(''state'', JStr ''none'')]
      | None \<Rightarrow> JObj [(''state'', JStr ''none'')])"

subsection \<open>Starting a rebuild\<close>

datatype api_error = HTTP nat string | Raise py_error

record host_row =
  h_hostname :: string
  h_ip :: string
  h_ssh_user :: "string option"
  h_hv_type :: "string option"

definition lower_char :: "char \<Rightarrow> char" where
  "lower_char c = (let n = (of_char c :: nat) in if 65 \<le> n \<and> n \<le> 90 then char_of (n + 32) else c)"

text \<open>\<^verbatim>\<open>(payload.get("node") or "").strip()\<close>.\<close>

definition node_arg :: "(string \<rightharpoonup> jval) \<Rightarrow> string result" where
  "node_arg payload =
     (case get_or payload ''node'' (JStr []) of JStr s \<Rightarrow> Inr (py_strip s) | _ \<Rightarrow> Inl (AttributeError ''strip''))"

text \<open>\<^verbatim>\<open>str(int(payload["vmid"]))\<close>.\<close>

definition vmid_arg :: "jval \<Rightarrow> string result" where
  "vmid_arg v =
     (case v of
        JNum q \<Rightarrow> Inr (show_int (if 0 \<le> q then \<lfloor>q\<rfloor> else \<lceil>q\<rceil>))
      | JBool b \<Rightarrow> Inr (if b then ''1'' else ''0'')
      | JStr s \<Rightarrow> bind_result (py_int s) (\<lambda>i. Inr (show_int i))
      | _ \<Rightarrow> Inl TypeError)"

text \<open>An optional argument whose value goes into the command as it is.\<close>

definition opt_arg :: "(string \<rightharpoonup> jval) \<Rightarrow> string \<Rightarrow> string \<Rightarrow> string list result" where
  "opt_arg payload k flag =
     (case get_or payload k JNull of
        JStr s \<Rightarrow> Inr (if s = [] then [] else [flag, s])
      | v \<Rightarrow> if truthy v then Inl TypeError else Inr [])"

definition rebuild_cmd :: "(string \<rightharpoonup> jval) \<Rightarrow> string \<Rightarrow> host_row \<Rightarrow> string list result" where
  "rebuild_cmd payload node h =
     bind_result (let v = get_or payload ''vmid'' JNull in
        if truthy v then bind_result (vmid_arg v) (\<lambda>s. Inr [''--vmid'', s]) else Inr []) (\<lambda>vmid.
     bind_result (opt_arg payload ''storage'' ''--storage'') (\<lambda>storage.
     bind_result (opt_arg payload ''bridge'' ''--bridge'') (\<lambda>bridge.
       Inr ([REBUILD_BIN, ''--node'', node, ''--host'', h_ip h, ''--user'',
             (case h_ssh_user h of None \<Rightarrow> ''root'' | Some u \<Rightarrow> if u = [] then ''root'' else u),
             ''--journal'', JOURNAL, ''--progress'', path_join PROGRESS_DIR (node @ ''.json'')] @
            vmid @ storage @ bridge @
            (if truthy (get_or payload ''force'' JNull) then [''--force''] else []) @
            (case payload ''source'' of
               Some (JStr s) \<Rightarrow> if s = ''replica'' \<or> s = ''seed'' then [''--from'', s] else []
             | _ \<Rightarrow> [])))))"

definition lift_api :: "'a result \<Rightarrow> ('a \<Rightarrow> api_error + 'b) \<Rightarrow> api_error + 'b" where
  "lift_api r k = (case r of Inl e \<Rightarrow> Inl (Raise e) | Inr x \<Rightarrow> k x)"

text \<open>\<^verbatim>\<open>rkcdp_rebuild\<close>: the command that is started, or the error.\<close>

definition rkcdp_rebuild ::
  "(jval \<Rightarrow> host_row option) \<Rightarrow> (string \<Rightarrow> jval option) \<Rightarrow> (string \<rightharpoonup> jval) \<Rightarrow> api_error + string list" where
  "rkcdp_rebuild hosts progress payload =
     lift_api (node_arg payload) (\<lambda>node.
       if node = [] \<or> payload ''host_id'' = None \<or> payload ''host_id'' = Some JNull
       then Inl (HTTP 400 ''node and host_id required'')
       else if CHR ''/'' \<in> set node \<or> take 1 node = ''.'' then Inl (HTTP 400 ''bad node name'')
       else lift_api (is_running (progress node)) (\<lambda>running.
         if running then Inl (HTTP 409 (''rebuild already running for '' @ node))
         else (case hosts (the (payload ''host_id'')) of
             None \<Rightarrow> Inl (HTTP 404 ''host not found'')
           | Some h \<Rightarrow>
               if map lower_char (case h_hv_type h of None \<Rightarrow> [] | Some t \<Rightarrow> t) \<notin> {''proxmox'', ''pve'', []}
               then Inl (HTTP 400 ''rebuild currently supports Proxmox hosts only'')
               else lift_api (rebuild_cmd payload node h) Inr)))"

subsection \<open>The status file as the daemon writes it\<close>

definition jopt :: "('a \<Rightarrow> jval) \<Rightarrow> 'a option \<Rightarrow> jval" where
  "jopt f x = (case x of None \<Rightarrow> JNull | Some v \<Rightarrow> f v)"

definition json_of_status :: "status_json \<Rightarrow> dict" where
  "json_of_status j =
     [(''node'', JStr (sj_node j)), (''state'', JStr (state_name (sj_state j))), (''time'', JNum (sj_time j)),
      (''boot_id'', jopt JStr (sj_boot_id j)),
      (''last_seq'', jopt (\<lambda>n. JNum (of_nat n)) (sj_last_seq j)), (''last_time'', jopt JNum (sj_last_time j)),
      (''seq_next'', JNum (of_nat (sj_seq_next j))), (''ring_used'', JNum (of_nat (sj_ring_used j))),
      (''ring_size'', JNum (of_nat (sj_ring_size j))), (''overflows'', JNum (of_nat (sj_overflows j))),
      (''records'', JNum (of_nat (sj_records j))), (''bytes'', JNum (of_nat (sj_bytes j))),
      (''base_copy'', jopt (\<lambda>b. JObj [(''done'', JNum (of_nat (bp_done b))), (''total'', JNum (of_nat (bp_total b)))]) (sj_base_copy j)),
      (''recovery_gap_seq'', jopt (\<lambda>i. JNum (of_int i)) (sj_recovery_gap_seq j)),
      (''consistent'', jopt (\<lambda>c. JObj [(''seq'', jopt (\<lambda>n. JNum (of_nat n)) (cs_seq c)), (''time'', JNum (cs_time c)),
         (''held_sec'', JNum (cs_held c))]) (sj_consistent j)),
      (''pending_bytes'', JNum (of_nat (sj_pending_bytes j)))]"

text \<open>What the list shows for a state of the daemon.\<close>

fun shown_as :: "node_state \<Rightarrow> api_state" where
  "shown_as WAITING = AWaiting"
| "shown_as SYNCING = ASyncing"
| "shown_as RECOVERING = ABitmap"
| "shown_as PAUSED = APaused"
| "shown_as BITMAP = ABitmap"
| "shown_as CDP = ACdp"

subsection \<open>Lemmas\<close>

lemma fold_collect:
  "fold_result (\<lambda>x ys. bind_result (f x) (\<lambda>y. Inr (ys @ [y]))) xs acc = Inr zs \<longleftrightarrow>
    (\<exists>ys. zs = acc @ ys \<and> list_all2 (\<lambda>x y. f x = Inr y) xs ys)"
proof (induction xs arbitrary: acc)
  case (Cons x xs)
  show ?case by (cases "f x") (auto simp: Cons.IH list_all2_Cons1)
qed auto

lemma map_result_Inr: "map_result f xs = Inr ys \<longleftrightarrow> list_all2 (\<lambda>x y. f x = Inr y) xs ys"
  by (simp add: map_result_def fold_collect)

lemma map_result_Inl: "x \<in> set xs \<Longrightarrow> f x = Inl e \<Longrightarrow> \<exists>e'. map_result f xs = Inl e'"
proof (cases "map_result f xs")
  case (Inr ys)
  assume x: "x \<in> set xs" "f x = Inl e"
  from Inr have "list_all2 (\<lambda>x y. f x = Inr y) xs ys" by (simp add: map_result_Inr)
  with x(1) obtain y where "f x = Inr y" by (auto simp: list_all2_conv_all_nth in_set_conv_nth)
  with x(2) show ?thesis by simp
qed simp

lemma dget_Nil [simp]: "dget [] k = None"
  by (simp add: dget_def dict_of_def)

lemma seed_dict_load: "load_dict v = Inr seed \<Longrightarrow> seed_dict age v = Inr seed"
  by (auto simp: seed_dict_def load_dict_def split: option.splits jval.splits)

lemma seed_dict_None [simp]: "seed_dict age None = Inr []"
  by (simp add: seed_dict_def)

lemma status_fields:
  "dget (json_of_status j) ''time'' = Some (JNum (sj_time j))"
  "dget (json_of_status j) ''state'' = Some (JStr (state_name (sj_state j)))"
  "json_of_status j \<noteq> []"
  by (simp_all add: json_of_status_def dget_def dict_of_def)

subsection \<open>Properties\<close>

text \<open>
  (C28) From the daemon to the list: for a node with a recorded base and no seeding under way,
  whose daemon wrote its status at most a minute ago, the state in the list is the image of the
  daemon's state, so \<^verbatim>\<open>cdp\<close> is shown exactly when the daemon says \<^verbatim>\<open>CDP\<close>.
\<close>

theorem listed_state_is_daemon_state:
  assumes "status st_buf = Inr st" and "write_status st_buf node t d = Inr j"
    and "nf_status f = Some (JObj (json_of_status j))" and "now - t \<le> 60"
    and "nf_manifest f = Some (JObj m)" and "dget m ''base_end_seq'' \<noteq> None"
    and "load_dict (nf_seed f) = Inr seed"
    and "\<not> is_str (dget seed ''phase'') [''locate'', ''copy'', ''seed'', ''replica'', ''drain'']"
    and "load_dict (nf_node f) = Inr nd" and "is_running (nf_progress f) = Inr running"
  shows "\<exists>row. make_row now f = Inr row \<and> nr_state row = shown_as (daemon_state st d)"
proof -
  have j: "sj_time j = t" "sj_state j = daemon_state st d" using assms(1,2) by (auto simp: write_status_def)
  have st: "is_str (dget (json_of_status j) ''state'') ss \<longleftrightarrow> state_name (sj_state j) \<in> set ss" for ss
    by (simp add: status_fields is_str_def)
  have "classify (Some (now - t)) m (json_of_status j) seed = shown_as (sj_state j)"
    using assms(4,6,8) by (cases "sj_state j") (simp_all add: classify_def st STALE_SEC_def)
  moreover have "load_dict (nf_manifest f) = Inr m" "load_dict (nf_status f) = Inr (json_of_status j)"
      "status_age now (json_of_status j) = Inr (Some (now - t))"
    using assms(3,5) j by (simp_all add: load_dict_def status_age_def status_fields)
  ultimately show ?thesis
    using j assms(9,10) seed_dict_load [OF assms(7)] by (simp add: make_row_def)
qed

definition sample_files :: "jval \<Rightarrow> node_files" where
  "sample_files st = \<lparr>nf_name = ''n1'', nf_isdir = True, nf_manifest = Some (JObj [(''base_end_seq'', JNum 0)]), nf_status = Some st,
     nf_node = None, nf_seed = None, nf_replica = None, nf_seed_raw = False, nf_progress = None\<rparr>"

theorem listed_state_is_daemon_state_witness:
  "\<exists>j row. write_status sample_status_bytes ''n1'' 7 sample_daemon = Inr j \<and>
    make_row 8 (sample_files (JObj (json_of_status j))) = Inr row \<and>
    nr_state row = shown_as (daemon_state sample_status sample_daemon)"
proof -
  obtain j where j: "write_status sample_status_bytes ''n1'' 7 sample_daemon = Inr j"
    by (simp add: write_status_def sample_status_read)
  let ?f = "sample_files (JObj (json_of_status j))"
  have "\<exists>row. make_row 8 ?f = Inr row \<and> nr_state row = shown_as (daemon_state sample_status sample_daemon)"
    by (rule listed_state_is_daemon_state [OF sample_status_read j, where m = "[(''base_end_seq'', JNum 0)]" and seed = "[]" and nd = "[]" and running = False])
      (simp_all add: sample_files_def load_dict_def is_running_def is_str_def dget_def dict_of_def)
  with j show ?thesis by blast
qed

text \<open>
  A node is shown as \<^verbatim>\<open>cdp\<close> only with reason: whatever the files hold, its base is recorded,
  its status is at most a minute old, and that status names no other state.
\<close>

theorem cdp_shown_with_reason:
  assumes "make_row now f = Inr row" and "nr_state row = ACdp"
  shows "\<exists>m st. nf_manifest f = Some (JObj m) \<and> dget m ''base_end_seq'' \<noteq> None \<and>
    nf_status f = Some (JObj st) \<and> (\<exists>age. status_age now st = Inr (Some age) \<and> age \<le> 60) \<and>
    \<not> is_str (dget st ''state'') [''WAITING'', ''SYNCING'', ''RECOVERING'', ''PAUSED'', ''BITMAP'']"
proof -
  obtain m st seed age where r: "load_dict (nf_manifest f) = Inr m" "load_dict (nf_status f) = Inr st"
      "status_age now st = Inr age" "classify age m st seed = ACdp"
    using assms by (auto simp: make_row_def bind_result_Inr_iff)
  then obtain t where t: "age = Some t" "t \<le> 60" "dget m ''base_end_seq'' \<noteq> None"
      "\<not> is_str (dget st ''state'') [''WAITING'', ''SYNCING'', ''RECOVERING'', ''PAUSED'', ''BITMAP'']"
    by (auto simp: classify_def Let_def STALE_SEC_def is_str_def split: option.splits if_splits jval.splits)
  have "nf_manifest f = Some (JObj m)"
    using r(1) t(3) by (auto simp: load_dict_def dget_def dict_of_def split: option.splits jval.splits)
  moreover have "nf_status f = Some (JObj st)"
    using r(2,3) t(1) by (auto simp: load_dict_def status_age_def split: option.splits jval.splits)
  ultimately show ?thesis using r(3) t by auto
qed

theorem cdp_shown_with_reason_witness:
  "\<exists>row m st. make_row 8 (sample_files (JObj [(''time'', JNum 7)])) = Inr row \<and> nr_state row = ACdp \<and>
    nf_manifest (sample_files (JObj [(''time'', JNum 7)])) = Some (JObj m) \<and> dget m ''base_end_seq'' \<noteq> None \<and>
    nf_status (sample_files (JObj [(''time'', JNum 7)])) = Some (JObj st) \<and>
    (\<exists>age. status_age 8 st = Inr (Some age) \<and> age \<le> 60) \<and>
    \<not> is_str (dget st ''state'') [''WAITING'', ''SYNCING'', ''RECOVERING'', ''PAUSED'', ''BITMAP'']"
proof -
  obtain row where row: "make_row 8 (sample_files (JObj [(''time'', JNum 7)])) = Inr row" "nr_state row = ACdp"
    by (simp add: make_row_def sample_files_def load_dict_def status_age_def dget_def dict_of_def is_running_def
        classify_def STALE_SEC_def is_str_def)
  from cdp_shown_with_reason [OF row] row show ?thesis by blast
qed

text \<open>
  The list is all or nothing: it has one row for each node directory, in the order of the
  names; but a single node whose files cannot be evaluated (a status whose time is no number)
  keeps the whole list from being refreshed, and the old one stays.
\<close>

theorem nodes_all_or_nothing:
  "(\<forall>rows. nodes now (Some files) = Inr rows \<longrightarrow>
      map nr_node rows = map nf_name (filter listed (sort_key nf_name files)) \<and> sorted (map nr_node rows)) \<and>
   (\<forall>f e. f \<in> set files \<longrightarrow> listed f \<longrightarrow> make_row now f = Inl e \<longrightarrow> refresh now stamp (Some files) c = c)"
proof -
  have name: "nr_node y = nf_name x" if "make_row now x = Inr y" for x y
    using that by (auto simp: make_row_def bind_result_Inr_iff)
  have "map nr_node rows = map nf_name (filter listed (sort_key nf_name files))" if "nodes now (Some files) = Inr rows" for rows
  proof -
    have "list_all2 (\<lambda>x y. make_row now x = Inr y) (filter listed (sort_key nf_name files)) rows"
      using that by (simp add: nodes_def map_result_Inr)
    then show ?thesis by (induction rule: list_all2_induct) (simp_all add: name)
  qed
  moreover have "sorted (map nf_name (filter listed (sort_key nf_name files)))"
    by (intro sorted_filter) simp
  moreover have "refresh now stamp (Some files) c = c" if "f \<in> set files" "listed f" "make_row now f = Inl e" for f e
    using that map_result_Inl [of f "filter listed (sort_key nf_name files)" "make_row now" e]
    by (auto simp: refresh_def nodes_def)
  ultimately show ?thesis by auto
qed

theorem nodes_all_or_nothing_witness:
  "\<exists>rows. nodes 8 (Some [sample_files (JObj [(''time'', JNum 7)])]) = Inr rows \<and> map nr_node rows = [''n1'']"
proof -
  obtain row where row: "make_row 8 (sample_files (JObj [(''time'', JNum 7)])) = Inr row"
    by (simp add: make_row_def sample_files_def load_dict_def status_age_def dget_def dict_of_def is_running_def)
  then have "nodes 8 (Some [sample_files (JObj [(''time'', JNum 7)])]) = Inr [row]"
    by (simp add: nodes_def map_result_def listed_def sample_files_def)
  with nodes_all_or_nothing [of 8 "[sample_files (JObj [(''time'', JNum 7)])]"] show ?thesis
    by (auto simp: listed_def sample_files_def)
qed

text \<open>
  Which requests start a rebuild: the name of the node is not empty, names no other
  directory, no rebuild of it is running, the host is known and a Proxmox host; the command
  names the node, the address of the host and the progress file of the node. The storage and
  the bridge are taken from the request as they are.
\<close>

theorem rebuild_request:
  assumes "rkcdp_rebuild hosts progress payload = Inr cmd"
  shows "\<exists>node h rest. node_arg payload = Inr node \<and> node \<noteq> [] \<and> CHR ''/'' \<notin> set node \<and> hd node \<noteq> CHR ''.'' \<and>
    is_running (progress node) = Inr False \<and> hosts (the (payload ''host_id'')) = Some h \<and>
    cmd = [REBUILD_BIN, ''--node'', node, ''--host'', h_ip h] @ rest \<and>
    (\<forall>s. payload ''storage'' = Some (JStr s) \<longrightarrow> s \<noteq> [] \<longrightarrow> s \<in> set rest)"
proof -
  obtain node h where n: "node_arg payload = Inr node" "node \<noteq> []" "CHR ''/'' \<notin> set node" "take 1 node \<noteq> ''.''"
      "is_running (progress node) = Inr False" "hosts (the (payload ''host_id'')) = Some h"
      "rebuild_cmd payload node h = Inr cmd"
    using assms
    by (auto simp: rkcdp_rebuild_def lift_api_def split: sum.splits if_splits option.splits)
  have "hd node \<noteq> CHR ''.''" using n(2,4) by (cases node) auto
  moreover have "\<exists>rest. cmd = [REBUILD_BIN, ''--node'', node, ''--host'', h_ip h] @ rest \<and>
      (\<forall>s. payload ''storage'' = Some (JStr s) \<longrightarrow> s \<noteq> [] \<longrightarrow> s \<in> set rest)"
    using n(7) by (auto simp: rebuild_cmd_def bind_result_Inr_iff opt_arg_def)
  ultimately show ?thesis using n by blast
qed

theorem rebuild_request_witness:
  "\<exists>cmd node (h :: host_row) rest. rkcdp_rebuild (\<lambda>_. Some \<lparr>h_hostname = ''pve1'', h_ip = ''10.0.0.1'', h_ssh_user = None, h_hv_type = Some ''PVE''\<rparr>)
      (\<lambda>_. None) [''node'' \<mapsto> JStr '' n1 '', ''host_id'' \<mapsto> JNum 3] = Inr cmd \<and>
    node_arg [''node'' \<mapsto> JStr '' n1 '', ''host_id'' \<mapsto> JNum 3] = Inr node \<and> node \<noteq> [] \<and> CHR ''/'' \<notin> set node \<and>
    cmd = [REBUILD_BIN, ''--node'', node, ''--host'', h_ip h] @ rest"
proof -
  have strip: "py_strip '' n1 '' = ''n1''" by code_simp
  have low: "map lower_char ''PVE'' = ''pve''" by code_simp
  obtain cmd where cmd: "rkcdp_rebuild (\<lambda>_. Some \<lparr>h_hostname = ''pve1'', h_ip = ''10.0.0.1'', h_ssh_user = None, h_hv_type = Some ''PVE''\<rparr>)
      (\<lambda>_. None) [''node'' \<mapsto> JStr '' n1 '', ''host_id'' \<mapsto> JNum 3] = Inr cmd"
    using strip low
    by (simp add: rkcdp_rebuild_def lift_api_def node_arg_def get_or_def is_running_def rebuild_cmd_def opt_arg_def
        del: list.map)
  from rebuild_request [OF cmd] cmd show ?thesis by blast
qed

end
