(* ===== verification/Argparse.thy ===== *)
theory Argparse
  imports Rebuild
begin

text \<open>
  The command lines of \<^verbatim>\<open>rkcdp-rebuild.py\<close> and \<^verbatim>\<open>rkcdp-seed.py\<close>: what \<^verbatim>\<open>argparse\<close> makes of the words,
  for a parser that has long options, \<^verbatim>\<open>-h\<close> and no positional arguments, as both have.

  \<^verbatim>\<open>argparse\<close> first decides of every word whether it is an option: it is when it begins with a dash
  and is the name of an option, a name with \<^verbatim>\<open>=\<close> and a value, or the beginning of one name; when it
  begins with a dash and is none of these, it is still taken for an unknown option, unless it is a
  negative number or contains a blank. Only a word that is not an option can be the value of one.
  A word that is left over is an error at the end.
\<close>

datatype opt_kind = Text_Opt | Int_Opt | Choice_Opt "string list" | Flag_Opt

type_synonym opt_spec = "(string \<times> opt_kind) list"

text \<open>How \<^verbatim>\<open>parse_args\<close> ends when it does not return: exit status 2, or 0 after the help text.\<close>

datatype cli_exit = Usage | Help

datatype word_class =
    Positional
  | Known string "string option"   \<comment> \<open>the option and the value after \<^verbatim>\<open>=\<close>\<close>
  | Short_Help string              \<comment> \<open>\<^verbatim>\<open>-h\<close> with what is attached to it\<close>
  | Unknown
  | Ambiguous

definition dashes :: string where "dashes = ''--''"

definition names_of :: "opt_spec \<Rightarrow> string list" where
  "names_of spec = ''--help'' # map fst spec"

definition all_digits :: "string \<Rightarrow> bool" where
  "all_digits s \<longleftrightarrow> list_all (\<lambda>c. digit_val c \<noteq> None) s"

text \<open>\<^verbatim>\<open>^-\d+$|^-\d*\.\d+$\<close>.\<close>

definition negative_number :: "string \<Rightarrow> bool" where
  "negative_number w \<longleftrightarrow> w \<noteq> [] \<and> hd w = CHR ''-'' \<and>
     (let i = takeWhile (\<lambda>c. c \<noteq> CHR ''.'') (tl w); f = dropWhile (\<lambda>c. c \<noteq> CHR ''.'') (tl w) in
      all_digits i \<and> (if f = [] then i \<noteq> [] else tl f \<noteq> [] \<and> all_digits (tl f)))"

definition before_eq :: "string \<Rightarrow> string" where
  "before_eq w = takeWhile (\<lambda>c. c \<noteq> CHR ''='') w"

definition after_eq :: "string \<Rightarrow> string option" where
  "after_eq w = (if CHR ''='' \<in> set w then Some (tl (dropWhile (\<lambda>c. c \<noteq> CHR ''='') w)) else None)"

definition abbreviates :: "opt_spec \<Rightarrow> string \<Rightarrow> string list" where
  "abbreviates spec w = (if take 2 w = dashes then filter (\<lambda>n. take (length (before_eq w)) n = before_eq w) (names_of spec) else [])"

definition classify_word :: "opt_spec \<Rightarrow> string \<Rightarrow> word_class" where
  "classify_word spec w =
     (if w = [] \<or> hd w \<noteq> CHR ''-'' then Positional
      else if w \<in> set (names_of spec) then Known w None
      else if tl w = [] then Positional
      else if before_eq w \<in> set (names_of spec) then Known (before_eq w) (after_eq w)
      else if take 2 w = ''-h'' then Short_Help (drop 2 w)
      else (case abbreviates spec w of
          [n] \<Rightarrow> Known n (after_eq w)
        | _ # _ # _ \<Rightarrow> Ambiguous
        | [] \<Rightarrow> if negative_number w \<or> CHR '' '' \<in> set w then Positional else Unknown))"

definition value_ok :: "opt_kind \<Rightarrow> string \<Rightarrow> bool" where
  "value_ok kind v =
     (case kind of
        Text_Opt \<Rightarrow> True
      | Int_Opt \<Rightarrow> (case py_int v of Inl _ \<Rightarrow> False | Inr _ \<Rightarrow> True)
      | Choice_Opt cs \<Rightarrow> v \<in> set cs
      | Flag_Opt \<Rightarrow> False)"

text \<open>The words from left to right; \<open>extra\<close> says whether one was left over. What was given is a map from
  names to values, the value of a flag being empty.\<close>

fun parse_words :: "opt_spec \<Rightarrow> bool \<Rightarrow> string list \<Rightarrow> (string \<rightharpoonup> string) \<Rightarrow> cli_exit + (string \<rightharpoonup> string)" where
  "parse_words spec extra [] m = (if extra then Inl Usage else Inr m)"
| "parse_words spec extra (w # ws) m =
     (if w = dashes then Inl Usage
      else (case classify_word spec w of
        Positional \<Rightarrow> parse_words spec True ws m
      | Unknown \<Rightarrow> parse_words spec True ws m
      | Ambiguous \<Rightarrow> Inl Usage
      | Short_Help s \<Rightarrow> Inl (if list_all (\<lambda>c. c = CHR ''h'') s then Help else Usage)
      | Known n v \<Rightarrow>
          (case map_of spec n of
             None \<Rightarrow> Inl (if v = None then Help else Usage)
           | Some Flag_Opt \<Rightarrow> if v = None then parse_words spec extra ws (m(n \<mapsto> [])) else Inl Usage
           | Some kind \<Rightarrow>
               (case v of
                  Some x \<Rightarrow> if value_ok kind x then parse_words spec extra ws (m(n \<mapsto> x)) else Inl Usage
                | None \<Rightarrow>
                    (case ws of
                       [] \<Rightarrow> Inl Usage
                     | x # ws1 \<Rightarrow>
                         if x \<noteq> dashes \<and> classify_word spec x = Positional \<and> value_ok kind x
                         then parse_words spec extra ws1 (m(n \<mapsto> x)) else Inl Usage)))))"

text \<open>\<^verbatim>\<open>parse_args\<close>: an ambiguous abbreviation before \<^verbatim>\<open>--\<close> is an error before anything else happens.\<close>

definition parse_args :: "opt_spec \<Rightarrow> string list \<Rightarrow> string list \<Rightarrow> cli_exit + (string \<rightharpoonup> string)" where
  "parse_args spec required ws =
     (if \<exists>w \<in> set (takeWhile (\<lambda>w. w \<noteq> dashes) ws). classify_word spec w = Ambiguous then Inl Usage
      else (case parse_words spec False ws Map.empty of
          Inl e \<Rightarrow> Inl e
        | Inr m \<Rightarrow> if list_all (\<lambda>n. m n \<noteq> None) required then Inr m else Inl Usage))"

definition given :: "(string \<rightharpoonup> string) \<Rightarrow> string \<Rightarrow> string \<Rightarrow> string" where
  "given m n dflt = (case m n of None \<Rightarrow> dflt | Some v \<Rightarrow> v)"

definition given_int :: "(string \<rightharpoonup> string) \<Rightarrow> string \<Rightarrow> int option" where
  "given_int m n = (case m n of None \<Rightarrow> None | Some v \<Rightarrow> (case py_int v of Inl _ \<Rightarrow> None | Inr i \<Rightarrow> Some i))"

subsection \<open>The two programs\<close>

definition rebuild_spec :: opt_spec where
  "rebuild_spec =
     [(''--node'', Text_Opt), (''--host'', Text_Opt), (''--user'', Text_Opt), (''--vmid'', Int_Opt), (''--storage'', Text_Opt),
      (''--bridge'', Text_Opt), (''--journal'', Text_Opt), (''--host-journal'', Text_Opt), (''--progress'', Text_Opt),
      (''--force'', Flag_Opt), (''--keep-copy'', Flag_Opt), (''--no-standby'', Flag_Opt),
      (''--from'', Choice_Opt [''replica'', ''seed''])]"

definition rb_args_of :: "(string \<rightharpoonup> string) \<Rightarrow> rb_args" where
  "rb_args_of m =
     \<lparr>a_node = given m ''--node'' [], a_host = given m ''--host'' [], a_user = given m ''--user'' ''root'',
      a_vmid = given_int m ''--vmid'', a_storage = given m ''--storage'' ''local-lvm'', a_bridge = given m ''--bridge'' ''vmbr0'',
      a_journal = given m ''--journal'' ''/replication/_kvmdr/rkcdp'', a_host_journal = m ''--host-journal'',
      a_progress = m ''--progress'', a_force = (m ''--force'' \<noteq> None), a_keep_copy = (m ''--keep-copy'' \<noteq> None),
      a_from_seed = (given m ''--from'' ''replica'' = ''seed'')\<rparr>"

definition rb_parse_args :: "string list \<Rightarrow> cli_exit + rb_args" where
  "rb_parse_args ws = map_sum id rb_args_of (parse_args rebuild_spec [''--node'', ''--host''] ws)"

record seed_args =
  sa_journal :: "string option"
  sa_host :: "string option"
  sa_vmid :: "int option"
  sa_status :: bool

definition seed_spec :: opt_spec where
  "seed_spec = [(''--journal'', Text_Opt), (''--host'', Text_Opt), (''--vmid'', Int_Opt), (''--status'', Flag_Opt)]"

definition seed_parse_args :: "string list \<Rightarrow> cli_exit + seed_args" where
  "seed_parse_args ws =
     map_sum id (\<lambda>m. \<lparr>sa_journal = m ''--journal'', sa_host = m ''--host'', sa_vmid = given_int m ''--vmid'',
       sa_status = (m ''--status'' \<noteq> None)\<rparr>) (parse_args seed_spec [] ws)"

end
