(* ===== verification/Web_Service.thy ===== *)
theory Web_Service
  imports Api Argparse
begin

text \<open>
  The web service as a whole, \<^verbatim>\<open>init\<close> of \<^verbatim>\<open>rkcdp/api_rkcdp.py\<close>: the three endpoints behind the check of the
  user, the refresh thread beside them and the rebuilds they start, as one state that requests and
  the other programs change in any order; and what the command that is started means to
  \<^verbatim>\<open>rkcdp-rebuild\<close>.

  \<^verbatim>\<open>require_admin\<close> and the database are parameters: what the first makes of a request is part of the
  request, an HTTP error or the user, and the second is a function from host ids to rows.
\<close>

subsection \<open>Endpoints\<close>

record web =
  w_cache :: cache
  w_progress_files :: "string \<Rightarrow> jval option"    \<comment> \<open>\<^verbatim>\<open>/run/rkcdp/<node>.json\<close>\<close>
  w_started :: "string list list"                 \<comment> \<open>the commands of \<^verbatim>\<open>Popen\<close>, in order\<close>

datatype request = Get_Nodes | Get_Rebuild string | Post_Rebuild "(string \<times> jval) list"

datatype response =
    Nodes_Resp "node_row list" rat
  | Status_Resp jval
  | Started_Resp string string "string option"    \<comment> \<open>\<^verbatim>\<open>node\<close>, \<^verbatim>\<open>host\<close>, \<^verbatim>\<open>started_by\<close>\<close>

definition post_rebuild :: "(jval \<Rightarrow> host_row option) \<Rightarrow> dict \<Rightarrow> (string \<times> jval) list \<Rightarrow> web \<Rightarrow> (api_error + response) \<times> web" where
  "post_rebuild hosts user payload w =
     (case rkcdp_rebuild hosts (w_progress_files w) (dict_of payload) of
        Inl e \<Rightarrow> (Inl e, w)
      | Inr cmd \<Rightarrow>
          ((case (node_arg (dict_of payload), hosts (the (dict_of payload ''host_id''))) of
              (Inr node, Some h) \<Rightarrow>
                Inr (Started_Resp node (h_hostname h) (case dget user ''username'' of Some (JStr u) \<Rightarrow> Some u | _ \<Rightarrow> None))
            | _ \<Rightarrow> Inl (Raise TypeError)),
           w\<lparr>w_started := w_started w @ [cmd]\<rparr>))"

definition handle ::
  "(jval \<Rightarrow> host_row option) \<Rightarrow> api_error + dict \<Rightarrow> request \<Rightarrow> web \<Rightarrow> (api_error + response) \<times> web" where
  "handle hosts auth req w =
     (case auth of
        Inl e \<Rightarrow> (Inl e, w)
      | Inr user \<Rightarrow>
          (case req of
             Get_Nodes \<Rightarrow> (let (ns, t) = rkcdp_nodes (w_cache w) in (Inr (Nodes_Resp ns t), w))
           | Get_Rebuild node \<Rightarrow> (Inr (Status_Resp (rkcdp_rebuild_status (w_progress_files w node))), w)
           | Post_Rebuild payload \<Rightarrow> post_rebuild hosts user payload w))"

text \<open>What happens to the service: a request, a turn of the refresh thread, a program that writes a
  progress file.\<close>

datatype web_event =
    Request "api_error + dict" request
  | Refresh rat rat "node_files list option"
  | Write_Progress string "jval option"

definition web_event :: "(jval \<Rightarrow> host_row option) \<Rightarrow> web_event \<Rightarrow> web \<Rightarrow> web" where
  "web_event hosts ev w =
     (case ev of
        Request auth req \<Rightarrow> snd (handle hosts auth req w)
      | Refresh now stamp journal \<Rightarrow> w\<lparr>w_cache := refresh now stamp journal (w_cache w)\<rparr>
      | Write_Progress node v \<Rightarrow> w\<lparr>w_progress_files := (w_progress_files w)(node := v)\<rparr>)"

definition web_init :: web where
  "web_init = \<lparr>w_cache = \<lparr>c_nodes = [], c_time = 0\<rparr>, w_progress_files = (\<lambda>_. None), w_started = []\<rparr>"

definition web_run :: "(jval \<Rightarrow> host_row option) \<Rightarrow> web_event list \<Rightarrow> web" where
  "web_run hosts evs = fold (web_event hosts) evs web_init"

subsection \<open>What a request can do\<close>

lemma rkcdp_rebuild_Inr:
  assumes "rkcdp_rebuild hosts progress payload = Inr cmd"
  obtains node h where "node_arg payload = Inr node" "node \<noteq> []" "CHR ''/'' \<notin> set node" "hd node \<noteq> CHR ''.''"
    "hosts (the (payload ''host_id'')) = Some h" "is_running (progress node) = Inr False" "rebuild_cmd payload node h = Inr cmd"
    "map lower_char (case h_hv_type h of None \<Rightarrow> [] | Some t \<Rightarrow> t) \<in> {''proxmox'', ''pve'', []}"
proof -
  obtain node h where n: "node_arg payload = Inr node" "node \<noteq> []" "CHR ''/'' \<notin> set node" "take 1 node \<noteq> ''.''"
      "is_running (progress node) = Inr False" "hosts (the (payload ''host_id'')) = Some h"
      "rebuild_cmd payload node h = Inr cmd" "map lower_char (case h_hv_type h of None \<Rightarrow> [] | Some t \<Rightarrow> t) \<in> {''proxmox'', ''pve'', []}"
    using assms by (auto simp: rkcdp_rebuild_def lift_api_def split: sum.splits if_splits option.splits)
  have "hd node \<noteq> CHR ''.''" using n(2,4) by (cases node) auto
  then show ?thesis by (rule that [OF n(1,2,3) _ n(6,5,7,8)])
qed

text \<open>A command that one request may start: for the node and the host that the request names, the
  name being that of no other directory, the host a Proxmox one, and no rebuild of the node running.\<close>

definition started_by :: "(jval \<Rightarrow> host_row option) \<Rightarrow> (string \<rightharpoonup> jval) \<Rightarrow> (string \<Rightarrow> jval option) \<Rightarrow> string list \<Rightarrow> bool" where
  "started_by hosts payload progress cmd \<longleftrightarrow> (\<exists>node id h rest. cmd = [REBUILD_BIN, ''--node'', node, ''--host'', h_ip h] @ rest \<and>
     node_arg payload = Inr node \<and> node \<noteq> [] \<and> CHR ''/'' \<notin> set node \<and> hd node \<noteq> CHR ''.'' \<and>
     payload ''host_id'' = Some id \<and> hosts id = Some h \<and>
     map lower_char (case h_hv_type h of None \<Rightarrow> [] | Some t \<Rightarrow> t) \<in> {''proxmox'', ''pve'', []} \<and>
     is_running (progress node) = Inr False)"

lemma started_ok:
  assumes c: "rkcdp_rebuild hosts progress payload = Inr cmd"
  shows "started_by hosts payload progress cmd"
proof -
  obtain node h where n: "node_arg payload = Inr node" "node \<noteq> []"
    "CHR ''/'' \<notin> set node" "hd node \<noteq> CHR ''.''" "hosts (the (payload ''host_id'')) = Some h"
    "is_running (progress node) = Inr False" "rebuild_cmd payload node h = Inr cmd"
    "map lower_char (case h_hv_type h of None \<Rightarrow> [] | Some t \<Rightarrow> t) \<in> {''proxmox'', ''pve'', []}"
    by (rule rkcdp_rebuild_Inr [OF c])
  obtain rest where "cmd = [REBUILD_BIN, ''--node'', node, ''--host'', h_ip h] @ rest"
    using n(7) by (auto simp: rebuild_cmd_def bind_result_Inr_iff)
  moreover have "payload ''host_id'' \<noteq> None" using c n(1,2) by (auto simp: rkcdp_rebuild_def lift_api_def split: if_splits)
  ultimately show ?thesis using n by (auto simp: started_by_def)
qed

text \<open>The parts of the state that only a request, only the refresh thread and only the rebuilds change.\<close>

fun admin_post :: "web_event \<Rightarrow> bool" where
  "admin_post (Request (Inr user) (Post_Rebuild payload)) = True"
| "admin_post _ = False"

lemma handle_keeps:
  "w_cache (snd (handle hosts auth req w)) = w_cache w"
  "w_progress_files (snd (handle hosts auth req w)) = w_progress_files w"
  by (auto simp: handle_def post_rebuild_def Let_def split: sum.split request.split prod.split)

lemma web_event_started:
  "w_started (web_event hosts ev w) = w_started w \<or>
    (\<exists>user payload cmd. ev = Request (Inr user) (Post_Rebuild payload) \<and>
      started_by hosts (dict_of payload) (w_progress_files w) cmd \<and> w_started (web_event hosts ev w) = w_started w @ [cmd])"
proof (cases ev)
  case (Request auth req)
  then show ?thesis
    by (cases auth; cases req) (auto simp: web_event_def handle_def post_rebuild_def started_ok Let_def split: sum.split prod.split)
qed (simp_all add: web_event_def)

lemma web_event_cache:
  "w_cache (web_event hosts ev w) =
    (case ev of Refresh now stamp journal \<Rightarrow>
        (case nodes now journal of Inl _ \<Rightarrow> w_cache w | Inr ns \<Rightarrow> \<lparr>c_nodes = ns, c_time = stamp\<rparr>)
     | _ \<Rightarrow> w_cache w)"
  by (cases ev) (simp_all add: web_event_def handle_keeps refresh_def)

lemma web_run_snoc: "web_run hosts (evs @ [ev]) = web_event hosts ev (web_run hosts evs)"
  by (simp add: web_run_def)

text \<open>Every command has its request, and a request starts at most one.\<close>

lemma web_run_started:
  "(\<forall>cmd \<in> set (w_started (web_run hosts evs)). \<exists>pre user payload post.
      evs = pre @ Request (Inr user) (Post_Rebuild payload) # post \<and>
      started_by hosts (dict_of payload) (w_progress_files (web_run hosts pre)) cmd) \<and>
    length (w_started (web_run hosts evs)) \<le> length (filter admin_post evs)"
proof (induction evs rule: rev_induct)
  case Nil
  then show ?case by (simp add: web_run_def web_init_def)
next
  case (snoc ev evs)
  have old: "\<exists>pre user payload post. evs @ [ev] = pre @ Request (Inr user) (Post_Rebuild payload) # post \<and>
      started_by hosts (dict_of payload) (w_progress_files (web_run hosts pre)) cmd"
    if "cmd \<in> set (w_started (web_run hosts evs))" for cmd
    using snoc.IH that by fastforce
  from web_event_started [of hosts ev "web_run hosts evs"] show ?case
  proof (elim disjE exE conjE)
    assume "w_started (web_event hosts ev (web_run hosts evs)) = w_started (web_run hosts evs)"
    with old snoc.IH show ?thesis by (auto simp: web_run_snoc)
  next
    fix user payload cmd
    assume e: "ev = Request (Inr user) (Post_Rebuild payload)"
      "started_by hosts (dict_of payload) (w_progress_files (web_run hosts evs)) cmd"
      "w_started (web_event hosts ev (web_run hosts evs)) = w_started (web_run hosts evs) @ [cmd]"
    then have "\<exists>pre user payload post. evs @ [ev] = pre @ Request (Inr user) (Post_Rebuild payload) # post \<and>
        started_by hosts (dict_of payload) (w_progress_files (web_run hosts pre)) cmd" by blast
    with old e snoc.IH show ?thesis by (auto simp: web_run_snoc)
  qed
qed

text \<open>The cache holds what the last complete pass over the journal gave.\<close>

definition failed_pass :: "web_event \<Rightarrow> bool" where
  "failed_pass ev \<longleftrightarrow> (\<forall>now stamp journal. ev = Refresh now stamp journal \<longrightarrow> (\<exists>e. nodes now journal = Inl e))"

lemma web_run_cache:
  "(w_cache (web_run hosts evs) = \<lparr>c_nodes = [], c_time = 0\<rparr> \<and> list_all failed_pass evs) \<or>
    (\<exists>pre now t journal post ns. evs = pre @ Refresh now t journal # post \<and> nodes now journal = Inr ns \<and>
      list_all failed_pass post \<and> w_cache (web_run hosts evs) = \<lparr>c_nodes = ns, c_time = t\<rparr>)"
proof (induction evs rule: rev_induct)
  case Nil
  then show ?case by (simp add: web_run_def web_init_def)
next
  case (snoc ev evs)
  show ?case
  proof (cases "failed_pass ev")
    case False
    then obtain now t journal ns where "ev = Refresh now t journal" "nodes now journal = Inr ns"
      by (auto simp: failed_pass_def) (metis sum.exhaust)
    then show ?thesis by (intro disjI2 exI [of _ evs] exI [of _ now] exI [of _ t] exI [of _ journal] exI [of _ "[]"] exI [of _ ns])
      (simp add: web_run_snoc web_event_cache)
  next
    case True
    then have same: "w_cache (web_run hosts (evs @ [ev])) = w_cache (web_run hosts evs)"
      by (cases ev) (auto simp: web_run_snoc web_event_cache failed_pass_def)
    from snoc.IH show ?thesis
    proof (elim disjE exE conjE)
      fix pre now t journal post ns
      assume "evs = pre @ Refresh now t journal # post" "nodes now journal = Inr ns" "list_all failed_pass post"
        "w_cache (web_run hosts evs) = \<lparr>c_nodes = ns, c_time = t\<rparr>"
      with True same show ?thesis
        by (intro disjI2 exI [of _ pre] exI [of _ now] exI [of _ t] exI [of _ journal] exI [of _ "post @ [ev]"] exI [of _ ns]) simp
    qed (use True same in simp)
  qed
qed

subsection \<open>Properties\<close>

text \<open>
  (C29) The web service over any run, of requests with any outcome of the user check, turns of the
  refresh thread and progress files appearing and vanishing. Every command it has started goes back
  to one rebuild request of an administrator in the run, and there are no more commands than such
  requests: the command is \<^verbatim>\<open>rkcdp-rebuild\<close> for the node of that request, a name that names no other
  directory, and for the address of the host that its \<^verbatim>\<open>host_id\<close> names, a Proxmox one, and no
  rebuild of the node was running when the request came. The answer to the node list is the list and
  the time of the last pass over the journal that did not fail, or the empty list of the start when
  every pass so far failed.
\<close>

theorem web_service_safe:
  "(\<forall>cmd \<in> set (w_started (web_run hosts evs)). \<exists>pre user payload post node id h rest.
      evs = pre @ Request (Inr user) (Post_Rebuild payload) # post \<and>
      cmd = [REBUILD_BIN, ''--node'', node, ''--host'', h_ip h] @ rest \<and>
      node_arg (dict_of payload) = Inr node \<and> node \<noteq> [] \<and> CHR ''/'' \<notin> set node \<and> hd node \<noteq> CHR ''.'' \<and>
      dict_of payload ''host_id'' = Some id \<and> hosts id = Some h \<and>
      map lower_char (case h_hv_type h of None \<Rightarrow> [] | Some t \<Rightarrow> t) \<in> {''proxmox'', ''pve'', []} \<and>
      is_running (w_progress_files (web_run hosts pre) node) = Inr False) \<and>
    length (w_started (web_run hosts evs)) \<le> length (filter admin_post evs) \<and>
    (\<forall>user ns t. fst (handle hosts (Inr user) Get_Nodes (web_run hosts evs)) = Inr (Nodes_Resp ns t) \<longrightarrow>
      (ns = [] \<and> t = 0 \<and> list_all failed_pass evs) \<or>
      (\<exists>pre now journal post. evs = pre @ Refresh now t journal # post \<and> nodes now journal = Inr ns \<and> list_all failed_pass post))"
proof -
  have "(ns = [] \<and> t = 0 \<and> list_all failed_pass evs) \<or>
      (\<exists>pre now journal post. evs = pre @ Refresh now t journal # post \<and> nodes now journal = Inr ns \<and> list_all failed_pass post)"
    if "fst (handle hosts (Inr user) Get_Nodes (web_run hosts evs)) = Inr (Nodes_Resp ns t)" for user ns t
  proof -
    have "w_cache (web_run hosts evs) = \<lparr>c_nodes = ns, c_time = t\<rparr>" using that by (simp add: handle_def rkcdp_nodes_def)
    with web_run_cache [of hosts evs] show ?thesis by auto
  qed
  then show ?thesis using web_run_started [of hosts evs] unfolding started_by_def by fastforce
qed

definition sample_host :: host_row where
  "sample_host = \<lparr>h_hostname = ''pve1'', h_ip = ''10.0.0.1'', h_ssh_user = None, h_hv_type = Some ''PVE''\<rparr>"

abbreviation sample_payload :: "(string \<times> jval) list" where
  "sample_payload \<equiv> [(''node'', JStr '' n1 ''), (''host_id'', JNum 3), (''vmid'', JNum 12), (''bridge'', JStr ''vmbr1''),
     (''source'', JStr ''seed'')]"

lemma sample_request:
  "rkcdp_rebuild (\<lambda>_. Some sample_host) (\<lambda>_. None) (dict_of sample_payload) =
    Inr [REBUILD_BIN, ''--node'', ''n1'', ''--host'', ''10.0.0.1'', ''--user'', ''root'', ''--journal'', JOURNAL,
      ''--progress'', ''/run/rkcdp/n1.json'', ''--vmid'', ''12'', ''--bridge'', ''vmbr1'', ''--from'', ''seed'']"
proof -
  have strip: "py_strip '' n1 '' = ''n1''" by code_simp
  have low: "map lower_char ''PVE'' = ''pve''" by code_simp
  have id: "show_int 12 = ''12''" by code_simp
  show ?thesis
    using strip low id
    by (simp add: rkcdp_rebuild_def lift_api_def node_arg_def get_or_def is_running_def rebuild_cmd_def opt_arg_def dict_of_def
        vmid_arg_def sample_host_def path_join_def PROGRESS_DIR_def del: list.map)
qed

theorem web_service_safe_witness:
  "\<exists>cmd pre user payload post node id h rest.
      w_started (web_run (\<lambda>_. Some sample_host) [Refresh 8 8 (Some []), Request (Inr []) (Post_Rebuild sample_payload)]) = [cmd] \<and>
      [Refresh 8 8 (Some []), Request (Inr []) (Post_Rebuild sample_payload)] = pre @ Request (Inr user) (Post_Rebuild payload) # post \<and>
      cmd = [REBUILD_BIN, ''--node'', node, ''--host'', h_ip h] @ rest \<and> node_arg (dict_of payload) = Inr node \<and>
      CHR ''/'' \<notin> set node \<and> dict_of payload ''host_id'' = Some id \<and> Some sample_host = Some h"
proof -
  let ?evs = "[Refresh 8 8 (Some []), Request (Inr []) (Post_Rebuild sample_payload)]"
  obtain cmd where c: "w_started (web_run (\<lambda>_. Some sample_host) ?evs) = [cmd]"
    by (simp add: web_run_def web_event_def web_init_def handle_def post_rebuild_def sample_request)
  then have "cmd \<in> set (w_started (web_run (\<lambda>_. Some sample_host) ?evs))" by simp
  from bspec [OF conjunct1 [OF web_service_safe] this] show ?thesis
    by (elim exE conjE) (intro exI conjI, rule c, assumption+)
qed

text \<open>
  The check for a running rebuild does not see a rebuild that has only been started: the progress
  file is written by the new process, so a second request that comes before it starts a second one.
\<close>

theorem two_rebuilds_started:
  assumes "rkcdp_rebuild hosts (w_progress_files w) (dict_of payload) = Inr cmd"
  shows "w_started (fold (web_event hosts) [Request (Inr u1) (Post_Rebuild payload), Request (Inr u2) (Post_Rebuild payload)] w) =
    w_started w @ [cmd, cmd]"
  using assms by (simp add: web_event_def handle_def post_rebuild_def)

subsection \<open>The command line between the two programs\<close>

text \<open>A word that \<^verbatim>\<open>argparse\<close> never takes for an option.\<close>

definition plain :: "string \<Rightarrow> bool" where
  "plain w \<longleftrightarrow> w = [] \<or> hd w \<noteq> CHR ''-''"

lemma plain_positional: "plain w \<Longrightarrow> classify_word spec w = Positional \<and> w \<noteq> dashes"
  by (auto simp: plain_def classify_word_def dashes_def)

lemma known_options:
  "classify_word rebuild_spec ''--node'' = Known ''--node'' None" "classify_word rebuild_spec ''--host'' = Known ''--host'' None"
  "classify_word rebuild_spec ''--user'' = Known ''--user'' None" "classify_word rebuild_spec ''--vmid'' = Known ''--vmid'' None"
  "classify_word rebuild_spec ''--storage'' = Known ''--storage'' None" "classify_word rebuild_spec ''--bridge'' = Known ''--bridge'' None"
  "classify_word rebuild_spec ''--journal'' = Known ''--journal'' None" "classify_word rebuild_spec ''--progress'' = Known ''--progress'' None"
  "classify_word rebuild_spec ''--force'' = Known ''--force'' None" "classify_word rebuild_spec ''--from'' = Known ''--from'' None"
  by code_simp+

lemma option_kinds:
  "map_of rebuild_spec ''--node'' = Some Text_Opt" "map_of rebuild_spec ''--host'' = Some Text_Opt"
  "map_of rebuild_spec ''--user'' = Some Text_Opt" "map_of rebuild_spec ''--vmid'' = Some Int_Opt"
  "map_of rebuild_spec ''--storage'' = Some Text_Opt" "map_of rebuild_spec ''--bridge'' = Some Text_Opt"
  "map_of rebuild_spec ''--journal'' = Some Text_Opt" "map_of rebuild_spec ''--progress'' = Some Text_Opt"
  "map_of rebuild_spec ''--force'' = Some Flag_Opt" "map_of rebuild_spec ''--from'' = Some (Choice_Opt [''replica'', ''seed''])"
  by code_simp+

lemma parse_value:
  assumes "classify_word spec n = Known n None" "n \<noteq> dashes" "map_of spec n = Some kind" "value_ok kind x"
    and "classify_word spec x = Positional" "x \<noteq> dashes"
  shows "parse_words spec extra (n # x # ws) m = parse_words spec extra ws (m(n \<mapsto> x))"
  using assms by (cases kind) (auto simp: value_ok_def)

lemma parse_flag:
  assumes "classify_word spec n = Known n None" "n \<noteq> dashes" "map_of spec n = Some Flag_Opt"
  shows "parse_words spec extra (n # ws) m = parse_words spec extra ws (m(n \<mapsto> []))"
  using assms by simp

text \<open>An integer as \<^verbatim>\<open>str\<close> writes it is a value, also a negative one.\<close>

lemma show_nat_chars: "c \<in> set (show_nat n) \<Longrightarrow> digit_val c \<noteq> None"
  using dec_digits_ok(1) [of n] by (auto simp: show_nat_digits list_all_iff)

lemma not_digits [simp]: "digit_val CHR ''-'' = None" "digit_val CHR ''.'' = None" "digit_val CHR ''='' = None" "digit_val CHR ''h'' = None"
  by (simp_all add: digit_val_def)

lemma show_nat_hd: "hd (show_nat n) \<noteq> CHR ''-''"
  using show_nat_chars [of "hd (show_nat n)" n] show_nat_ends(1) [of n] by (cases "show_nat n") auto

lemma py_int_show_int: "py_int (show_int i) = Inr i"
proof (cases "i < 0")
  case True
  let ?n = "nat (- i)"
  have "py_strip (CHR ''-'' # show_nat ?n) = CHR ''-'' # show_nat ?n"
    using py_strip_line [of "CHR ''-'' # show_nat ?n" "[]"] show_nat_ends [of ?n] by (simp add: py_space_def)
  then show ?thesis
    using True dec_digits_ok [of ?n] digit_run_digits [of "dec_digits ?n" False]
    by (simp add: show_int_def py_int_def split_sign_def show_nat_digits)
next
  case False
  then show ?thesis using py_int_show [of "[]" "nat i"] by (simp add: show_int_def)
qed

lemma show_int_positional: "classify_word rebuild_spec (show_int i) = Positional \<and> show_int i \<noteq> dashes"
proof (cases "i < 0")
  case False
  then show ?thesis using plain_positional [of "show_nat (nat i)"] show_nat_hd by (simp add: show_int_def plain_def)
next
  case True
  let ?t = "show_nat (nat (- i))"
  have dig: "\<forall>c \<in> set ?t. digit_val c \<noteq> None" using show_nat_chars by blast
  have t: "?t \<noteq> []" "hd ?t \<noteq> CHR ''-''" "hd ?t \<noteq> CHR ''h''"
    using show_nat_ends(1) show_nat_hd dig not_digits(4) by (metis list.set_sel(1))+
  have "takeWhile (\<lambda>c. c \<noteq> CHR ''='') ?t = ?t" "takeWhile (\<lambda>c. c \<noteq> CHR ''.'') ?t = ?t" "dropWhile (\<lambda>c. c \<noteq> CHR ''.'') ?t = []"
    using dig not_digits(2,3) by (auto simp: takeWhile_eq_all_conv dropWhile_eq_Nil_conv)
  moreover have "CHR ''-'' # ?t \<notin> set (names_of rebuild_spec)"
    using t by (cases ?t) (auto simp: names_of_def rebuild_spec_def)
  moreover have "all_digits ?t" using dig by (simp add: all_digits_def list_all_iff)
  ultimately show ?thesis
    using True t by (cases ?t) (auto simp: show_int_def classify_word_def before_eq_def abbreviates_def negative_number_def dashes_def)
qed

text \<open>The command as a list of options, some of which may be missing.\<close>

definition opt_seg :: "string \<Rightarrow> string option \<Rightarrow> string list" where
  "opt_seg n x = (case x of None \<Rightarrow> [] | Some s \<Rightarrow> [n, s])"

definition text_of :: "(string \<rightharpoonup> jval) \<Rightarrow> string \<Rightarrow> string option" where
  "text_of payload k = (case payload k of Some (JStr s) \<Rightarrow> if s = [] then None else Some s | _ \<Rightarrow> None)"

definition source_of :: "(string \<rightharpoonup> jval) \<Rightarrow> string option" where
  "source_of payload = (case payload ''source'' of Some (JStr s) \<Rightarrow> if s = ''replica'' \<or> s = ''seed'' then Some s else None | _ \<Rightarrow> None)"

text \<open>The words of the command, each an option or the value of one.\<close>

definition cmd_words :: "string \<Rightarrow> string \<Rightarrow> string \<Rightarrow> string \<Rightarrow> int option \<Rightarrow> string option \<Rightarrow> string option \<Rightarrow> bool \<Rightarrow> string option \<Rightarrow> string list" where
  "cmd_words node host user pfile vm storage bridge force src =
     [''--node'', node, ''--host'', host, ''--user'', user, ''--journal'', JOURNAL, ''--progress'', pfile] @
     opt_seg ''--vmid'' (map_option show_int vm) @ opt_seg ''--storage'' storage @ opt_seg ''--bridge'' bridge @
     (if force then [''--force''] else []) @ opt_seg ''--from'' src"

text \<open>The machine id that a request asks for: a number without its fraction, a text read as an integer.\<close>

definition asked_vmid :: "(string \<rightharpoonup> jval) \<Rightarrow> int option" where
  "asked_vmid payload =
     (case payload ''vmid'' of
        Some (JNum q) \<Rightarrow> if q = 0 then None else Some (if q < 0 then - \<lfloor>- q\<rfloor> else \<lfloor>q\<rfloor>)
      | Some (JBool b) \<Rightarrow> if b then Some 1 else None
      | Some (JStr s) \<Rightarrow> if s = [] then None else (case py_int s of Inl _ \<Rightarrow> None | Inr i \<Rightarrow> Some i)
      | _ \<Rightarrow> None)"

lemma vmid_words:
  assumes "(let v = get_or payload ''vmid'' JNull in
      if truthy v then bind_result (vmid_arg v) (\<lambda>s. Inr [''--vmid'', s]) else Inr []) = Inr ws"
  shows "ws = opt_seg ''--vmid'' (map_option show_int (asked_vmid payload))"
proof (cases "payload ''vmid''")
  case None
  with assms show ?thesis by (simp add: asked_vmid_def get_or_def opt_seg_def)
next
  case (Some v)
  have "show_int 1 = ''1''" by code_simp
  with assms Some show ?thesis
    by (cases v) (auto simp: asked_vmid_def get_or_def opt_seg_def vmid_arg_def bind_result_Inr_iff ceiling_def split: if_splits)
qed

lemma opt_arg_seg: "opt_arg payload k n = Inr ws \<Longrightarrow> ws = opt_seg n (text_of payload k)"
  by (cases "payload k"; cases "the (payload k)")
    (auto simp: opt_arg_def get_or_def opt_seg_def text_of_def split: if_splits)

definition ssh_user_of :: "host_row \<Rightarrow> string" where
  "ssh_user_of h = (case h_ssh_user h of Some (c # cs) \<Rightarrow> c # cs | _ \<Rightarrow> ''root'')"

lemma rebuild_cmd_words:
  assumes "rebuild_cmd payload node h = Inr cmd"
  shows "cmd = REBUILD_BIN # cmd_words node (h_ip h) (ssh_user_of h) (path_join PROGRESS_DIR (node @ ''.json'')) (asked_vmid payload)
      (text_of payload ''storage'') (text_of payload ''bridge'') (truthy (get_or payload ''force'' JNull)) (source_of payload)"
proof -
  let ?v = "get_or payload ''vmid'' JNull"
  let ?user = "case h_ssh_user h of None \<Rightarrow> ''root'' | Some u \<Rightarrow> if u = [] then ''root'' else u"
  obtain vs sts brs where c: "(let v = ?v in if truthy v then bind_result (vmid_arg v) (\<lambda>s. Inr [''--vmid'', s]) else Inr []) = Inr vs"
      "opt_arg payload ''storage'' ''--storage'' = Inr sts" "opt_arg payload ''bridge'' ''--bridge'' = Inr brs"
      "cmd = [REBUILD_BIN, ''--node'', node, ''--host'', h_ip h, ''--user'', ?user, ''--journal'', JOURNAL, ''--progress'',
        path_join PROGRESS_DIR (node @ ''.json'')] @ vs @ sts @ brs @
        (if truthy (get_or payload ''force'' JNull) then [''--force''] else []) @
        (case payload ''source'' of Some (JStr s) \<Rightarrow> if s = ''replica'' \<or> s = ''seed'' then [''--from'', s] else [] | _ \<Rightarrow> [])"
    using assms unfolding rebuild_cmd_def by (auto simp: bind_result_Inr_iff)
  have "(case payload ''source'' of Some (JStr s) \<Rightarrow> if s = ''replica'' \<or> s = ''seed'' then [''--from'', s] else [] | _ \<Rightarrow> []) =
      opt_seg ''--from'' (source_of payload)"
    by (auto simp: source_of_def opt_seg_def split: option.splits jval.splits)
  moreover have "?user = ssh_user_of h" by (auto simp: ssh_user_of_def split: option.split list.split)
  ultimately show ?thesis
    using c(4) vmid_words [OF c(1)] opt_arg_seg [OF c(2)] opt_arg_seg [OF c(3)] by (simp add: cmd_words_def)
qed

lemma text_default:
  "(case text_of payload k of None \<Rightarrow> x | Some s \<Rightarrow> s) = (case payload k of Some (JStr (c # cs)) \<Rightarrow> c # cs | _ \<Rightarrow> x)"
  by (auto simp: text_of_def split: option.split jval.split list.split)

lemma source_seed: "source_of payload = Some ''seed'' \<longleftrightarrow> payload ''source'' = Some (JStr ''seed'')"
  by (auto simp: source_of_def split: option.splits jval.splits if_splits)

lemma parse_seg:
  assumes "classify_word spec n = Known n None" "n \<noteq> dashes" "map_of spec n = Some kind"
    and "\<And>s. x = Some s \<Longrightarrow> value_ok kind s \<and> classify_word spec s = Positional \<and> s \<noteq> dashes"
  shows "parse_words spec extra (opt_seg n x @ ws) m = parse_words spec extra ws (case x of None \<Rightarrow> m | Some s \<Rightarrow> m(n \<mapsto> s))"
  using assms parse_value [of spec n kind] by (cases x) (auto simp: opt_seg_def simp del: parse_words.simps)

definition cmd_map :: "string \<Rightarrow> string \<Rightarrow> string \<Rightarrow> string \<Rightarrow> int option \<Rightarrow> string option \<Rightarrow> string option \<Rightarrow> bool \<Rightarrow> string option \<Rightarrow> (string \<rightharpoonup> string)" where
  "cmd_map node host user pfile vm storage bridge force src =
     (\<lambda>n. if n = ''--node'' then Some node else if n = ''--host'' then Some host else if n = ''--user'' then Some user
        else if n = ''--journal'' then Some JOURNAL else if n = ''--progress'' then Some pfile
        else if n = ''--vmid'' then map_option show_int vm else if n = ''--storage'' then storage
        else if n = ''--bridge'' then bridge else if n = ''--force'' then (if force then Some [] else None)
        else if n = ''--from'' then src else None)"

lemma journal_plain: "plain JOURNAL"
  by (simp add: plain_def JOURNAL_def)

lemma parse_cmd_words:
  assumes "plain node" "plain host" "plain user" "plain pfile" "\<And>s. storage = Some s \<Longrightarrow> plain s" "\<And>s. bridge = Some s \<Longrightarrow> plain s"
    and "\<And>s. src = Some s \<Longrightarrow> s = ''replica'' \<or> s = ''seed''"
  shows "parse_words rebuild_spec False (cmd_words node host user pfile vm storage bridge force src) Map.empty =
    Inr (cmd_map node host user pfile vm storage bridge force src)"
proof -
  note pos = plain_positional [of _ rebuild_spec]
  have src: "value_ok (Choice_Opt [''replica'', ''seed'']) s \<and> classify_word rebuild_spec s = Positional \<and> s \<noteq> dashes" if "src = Some s" for s
    using assms(7) [OF that] pos [of s] by (auto simp: plain_def value_ok_def dashes_def)
  have vm: "value_ok Int_Opt s \<and> classify_word rebuild_spec s = Positional \<and> s \<noteq> dashes" if "map_option show_int vm = Some s" for s
    using that show_int_positional by (auto simp: value_ok_def py_int_show_int)
  have ws: "cmd_words node host user pfile vm storage bridge force src =
      opt_seg ''--node'' (Some node) @ opt_seg ''--host'' (Some host) @ opt_seg ''--user'' (Some user) @ opt_seg ''--journal'' (Some JOURNAL) @
      opt_seg ''--progress'' (Some pfile) @ opt_seg ''--vmid'' (map_option show_int vm) @ opt_seg ''--storage'' storage @
      opt_seg ''--bridge'' bridge @ (if force then [''--force''] else []) @ opt_seg ''--from'' src @ []"
    by (simp add: cmd_words_def opt_seg_def)
  have texts: "parse_words rebuild_spec False (opt_seg n x @ r) m = parse_words rebuild_spec False r (case x of None \<Rightarrow> m | Some s \<Rightarrow> m(n \<mapsto> s))"
    if "classify_word rebuild_spec n = Known n None" "n \<noteq> dashes" "map_of rebuild_spec n = Some Text_Opt" "\<And>s. x = Some s \<Longrightarrow> plain s" for n x r m
    using parse_seg [OF that(1-3)] that(4) pos by (auto simp: value_ok_def)
  have force: "parse_words rebuild_spec False ((if force then [''--force''] else []) @ r) m =
      parse_words rebuild_spec False r (if force then m(''--force'' \<mapsto> []) else m)" for r m
    using parse_flag [OF known_options(9) _ option_kinds(9)] by (simp add: dashes_def del: parse_words.simps)
  have nd: "''--node'' \<noteq> dashes" "''--host'' \<noteq> dashes" "''--user'' \<noteq> dashes" "''--journal'' \<noteq> dashes" "''--progress'' \<noteq> dashes"
      "''--storage'' \<noteq> dashes" "''--bridge'' \<noteq> dashes" "''--vmid'' \<noteq> dashes" "''--from'' \<noteq> dashes"
    by (simp_all add: dashes_def)
  have one: "parse_words rebuild_spec False (opt_seg n (Some v) @ r) m = parse_words rebuild_spec False r (m(n \<mapsto> v))"
    if "classify_word rebuild_spec n = Known n None" "n \<noteq> dashes" "map_of rebuild_spec n = Some Text_Opt" "plain v" for n v r m
    using texts [OF that(1-3), of "Some v" r m] that(4) by simp
  note steps = one [OF known_options(1) nd(1) option_kinds(1) assms(1)] one [OF known_options(2) nd(2) option_kinds(2) assms(2)]
    one [OF known_options(3) nd(3) option_kinds(3) assms(3)] one [OF known_options(7) nd(4) option_kinds(7) journal_plain]
    one [OF known_options(8) nd(5) option_kinds(8) assms(4)] texts [OF known_options(5) nd(6) option_kinds(5) assms(5)]
    texts [OF known_options(6) nd(7) option_kinds(6) assms(6)]
    parse_seg [OF known_options(4) nd(8) option_kinds(4) vm] parse_seg [OF known_options(10) nd(9) option_kinds(10) src]
  show ?thesis
    by (simp only: ws steps force) (auto simp: cmd_map_def fun_eq_iff split: option.splits)
qed

lemma cmd_words_unambiguous:
  assumes "plain node" "plain host" "plain user" "plain pfile" "\<And>s. storage = Some s \<Longrightarrow> plain s" "\<And>s. bridge = Some s \<Longrightarrow> plain s"
    and "\<And>s. src = Some s \<Longrightarrow> s = ''replica'' \<or> s = ''seed''"
    and "w \<in> set (cmd_words node host user pfile vm storage bridge force src)"
  shows "classify_word rebuild_spec w \<noteq> Ambiguous"
proof -
  note pos = plain_positional [of _ rebuild_spec]
  have "plain s" if "src = Some s" for s using assms(7) [OF that] by (auto simp: plain_def)
  with assms pos journal_plain show ?thesis
    using show_int_positional
    by (auto simp: cmd_words_def opt_seg_def known_options split: option.splits if_splits)
qed

lemma rb_parse_cmd:
  assumes "plain node" "plain host" "plain user" "plain pfile" "\<And>s. storage = Some s \<Longrightarrow> plain s" "\<And>s. bridge = Some s \<Longrightarrow> plain s"
    and "\<And>s. src = Some s \<Longrightarrow> s = ''replica'' \<or> s = ''seed''"
  shows "rb_parse_args (cmd_words node host user pfile vm storage bridge force src) =
    Inr (rb_args_of (cmd_map node host user pfile vm storage bridge force src))"
proof -
  have "\<not> (\<exists>w \<in> set (takeWhile (\<lambda>w. w \<noteq> dashes) (cmd_words node host user pfile vm storage bridge force src)).
      classify_word rebuild_spec w = Ambiguous)"
    using cmd_words_unambiguous [OF assms] by (blast dest: set_takeWhileD)
  with parse_cmd_words [OF assms] show ?thesis
    by (simp add: rb_parse_args_def parse_args_def) (simp add: cmd_map_def)
qed

text \<open>
  (C30) The two programs agree on the command line: when the web service starts \<^verbatim>\<open>rkcdp-rebuild\<close> and none of
  the texts it puts into the command begins with a dash, \<^verbatim>\<open>argparse\<close> accepts the words and yields exactly
  what the request and the host say: the node, the address and the user of the host (\<^verbatim>\<open>root\<close> when it has
  none), the machine id as an integer when one was asked for, the storage and the bridge or their
  defaults, the journal, the progress file of the node, the flags as they were set, and no option that
  was not asked for.
\<close>

theorem web_command_understood:
  assumes "rkcdp_rebuild hosts progress payload = Inr cmd" and "node_arg payload = Inr node"
    and "hosts (the (payload ''host_id'')) = Some h" and "plain node" and "plain (h_ip h)"
    and "\<forall>u. h_ssh_user h = Some u \<longrightarrow> plain u" and "\<forall>s. payload ''storage'' = Some (JStr s) \<longrightarrow> plain s"
    and "\<forall>s. payload ''bridge'' = Some (JStr s) \<longrightarrow> plain s"
  shows "rb_parse_args (tl cmd) = Inr
    \<lparr>a_node = node, a_host = h_ip h,
     a_user = (case h_ssh_user h of Some (c # cs) \<Rightarrow> c # cs | _ \<Rightarrow> ''root''),
     a_vmid = asked_vmid payload,
     a_storage = (case payload ''storage'' of Some (JStr (c # cs)) \<Rightarrow> c # cs | _ \<Rightarrow> ''local-lvm''),
     a_bridge = (case payload ''bridge'' of Some (JStr (c # cs)) \<Rightarrow> c # cs | _ \<Rightarrow> ''vmbr0''),
     a_journal = JOURNAL, a_host_journal = None,
     a_progress = Some (''/run/rkcdp/'' @ node @ ''.json''),
     a_force = truthy (get_or payload ''force'' JNull), a_keep_copy = False,
     a_from_seed = (payload ''source'' = Some (JStr ''seed''))\<rparr>"
proof -
  obtain n' h' where n: "node_arg payload = Inr n'" "n' \<noteq> []" "CHR ''/'' \<notin> set n'" "hosts (the (payload ''host_id'')) = Some h'"
      "rebuild_cmd payload n' h' = Inr cmd"
    using rkcdp_rebuild_Inr [OF assms(1)] by metis
  then have eq: "n' = node" "h' = h" using assms(2,3) by auto
  let ?p = "path_join PROGRESS_DIR (node @ ''.json'')" and ?f = "truthy (get_or payload ''force'' JNull)"
  have c: "tl cmd = cmd_words node (h_ip h) (ssh_user_of h) ?p (asked_vmid payload)
      (text_of payload ''storage'') (text_of payload ''bridge'') ?f (source_of payload)"
    using rebuild_cmd_words [OF n(5)] unfolding eq by simp
  have "hd (node @ ''.json'') \<noteq> CHR ''/''" using n(2,3) eq by (cases node) auto
  then have p: "?p = ''/run/rkcdp/'' @ node @ ''.json''" by (auto simp: path_join_def PROGRESS_DIR_def)
  moreover have "plain (ssh_user_of h)" using assms(6) by (auto simp: plain_def ssh_user_of_def split: option.split list.split)
  moreover have "plain s" if "text_of payload ''storage'' = Some s \<or> text_of payload ''bridge'' = Some s" for s
    using that assms(7,8) by (auto simp: text_of_def split: option.splits jval.splits if_splits)
  moreover have "s = ''replica'' \<or> s = ''seed''" if "source_of payload = Some s" for s
    using that by (auto simp: source_of_def split: option.splits jval.splits if_splits)
  ultimately have "rb_parse_args (tl cmd) = Inr (rb_args_of (cmd_map node (h_ip h) (ssh_user_of h) ?p (asked_vmid payload)
      (text_of payload ''storage'') (text_of payload ''bridge'') ?f (source_of payload)))"
    unfolding c using assms(4,5) by (intro rb_parse_cmd) (auto simp: plain_def)
  also have "rb_args_of (cmd_map node (h_ip h) (ssh_user_of h) ?p (asked_vmid payload)
      (text_of payload ''storage'') (text_of payload ''bridge'') ?f (source_of payload)) =
    \<lparr>a_node = node, a_host = h_ip h, a_user = ssh_user_of h, a_vmid = asked_vmid payload,
     a_storage = (case text_of payload ''storage'' of None \<Rightarrow> ''local-lvm'' | Some s \<Rightarrow> s),
     a_bridge = (case text_of payload ''bridge'' of None \<Rightarrow> ''vmbr0'' | Some s \<Rightarrow> s), a_journal = JOURNAL, a_host_journal = None,
     a_progress = Some ?p, a_force = ?f, a_keep_copy = False, a_from_seed = (source_of payload = Some ''seed'')\<rparr>"
    by (auto simp: rb_args_of_def cmd_map_def given_def given_int_def py_int_show_int split: option.splits)
  finally show ?thesis
    unfolding p ssh_user_of_def text_default source_seed .
qed

theorem web_command_understood_witness:
  "\<exists>cmd a. rkcdp_rebuild (\<lambda>_. Some sample_host) (\<lambda>_. None) (dict_of sample_payload) = Inr cmd \<and> rb_parse_args (tl cmd) = Inr a \<and>
    a_node a = ''n1'' \<and> a_host a = ''10.0.0.1'' \<and> a_user a = ''root'' \<and> a_vmid a = Some 12 \<and>
    a_storage a = ''local-lvm'' \<and> a_bridge a = ''vmbr1'' \<and> a_from_seed a"
proof -
  have "py_strip '' n1 '' = ''n1''" by code_simp
  then have n: "node_arg (dict_of sample_payload) = Inr ''n1''" by (simp add: node_arg_def get_or_def dict_of_def)
  have v: "asked_vmid (dict_of sample_payload) = Some 12" by (simp add: asked_vmid_def dict_of_def)
  from web_command_understood [OF sample_request n, of sample_host] sample_request v show ?thesis
    by (auto simp: plain_def sample_host_def dict_of_def)
qed

text \<open>
  A node whose name begins with a dash is accepted by the web service, and by \<^verbatim>\<open>rkcdp-rebuild\<close> refused with a
  usage error before it writes a progress file.
\<close>

theorem dash_node_refused:
  "\<exists>cmd. rkcdp_rebuild (\<lambda>_. Some sample_host) (\<lambda>_. None) (dict_of [(''node'', JStr ''-n1''), (''host_id'', JNum 3)]) = Inr cmd \<and>
    rb_parse_args (tl cmd) = Inl Usage"
proof -
  have strip: "py_strip ''-n1'' = ''-n1''" by code_simp
  have low: "map lower_char ''PVE'' = ''pve''" by code_simp
  have usage: "rb_parse_args (''--node'' # ''-n1'' # ws) = Inl Usage" for ws
  proof -
    have "classify_word rebuild_spec ''-n1'' = Unknown" by code_simp
    then show ?thesis using known_options(1) option_kinds(1) by (simp add: rb_parse_args_def parse_args_def dashes_def)
  qed
  show ?thesis
    using strip low
    by (simp add: rkcdp_rebuild_def lift_api_def node_arg_def get_or_def is_running_def rebuild_cmd_def opt_arg_def dict_of_def
        sample_host_def usage del: list.map)
qed

end
