(* ===== verification/Setup.thy ===== *)
theory Setup
  imports Rebuild Startup Json_Text
begin

text \<open>
  \<^verbatim>\<open>rkcdp/rkcdp-setup.py\<close>: the installer with \<^verbatim>\<open>--check\<close> and \<^verbatim>\<open>--remove\<close>.

  The file system is a map from paths to contents and permission bits of regular files;
  directories come into being with the files in them. Shell commands are a function of the
  command line and the file system to a return code, the two outputs and the file system they
  leave. The assets embedded at build time, \<^verbatim>\<open>os.path.realpath\<close>, the release of the kernel, the
  effective user and the permissions of a newly created file are the environment.
\<close>

subsection \<open>Files\<close>

text \<open>A file holds text, or a dictionary that \<^verbatim>\<open>json.dump\<close> wrote.\<close>

datatype content = Text string | Json "(string \<times> jval) list"

type_synonym fs = "string \<rightharpoonup> content \<times> nat"

record setup_env =
  e_euid :: nat
  e_kver :: string
  e_assets :: "string \<rightharpoonup> string"
  e_realpath :: "string \<Rightarrow> string"
  e_mode :: nat
  e_shell :: "fs shell"

record setup_world =
  su_fs :: fs
  su_out :: "string list"

definition JOURNAL_DEFAULT :: string where "JOURNAL_DEFAULT = ''/replication/_kvmdr/rkcdp''"

definition module_path :: "string \<Rightarrow> string" where
  "module_path kver = ''/lib/modules/'' @ kver @ ''/extra/dm-cdp.ko''"

text \<open>Permissions in decimal: 493 is \<^verbatim>\<open>0o755\<close>, 420 is \<^verbatim>\<open>0o644\<close>.\<close>

definition FILES :: "string \<Rightarrow> (string \<times> string \<times> nat) list" where
  "FILES kver =
     [(''dm-cdp.ko'', module_path kver, 420),
      (''rkcdpd'', ''/opt/rkcdp/rkcdpd'', 493),
      (''rkcdp-rebuild'', ''/opt/rkcdp/rkcdp-rebuild'', 493),
      (''rkcdp-seed'', ''/opt/rkcdp/rkcdp-seed'', 493),
      (''rkcdpd.service'', ''/etc/systemd/system/rkcdpd.service'', 420),
      (''hook'', ''/etc/initramfs-tools/hooks/rkcdp'', 493),
      (''local-top'', ''/etc/initramfs-tools/scripts/local-top/rkcdp'', 493),
      (''99-rkcdp.rules'', ''/etc/udev/rules.d/99-rkcdp.rules'', 420)]"

definition CONF_DIR :: string where "CONF_DIR = ''/etc/rkcdp''"

text \<open>\<^verbatim>\<open>open(p, "w")\<close> and \<^verbatim>\<open>write\<close>: an existing file keeps its permissions.\<close>

definition write_file :: "setup_env \<Rightarrow> string \<Rightarrow> content \<Rightarrow> fs \<Rightarrow> fs" where
  "write_file env p c m = m(p \<mapsto> (c, case m p of None \<Rightarrow> e_mode env | Some (_, bits) \<Rightarrow> bits))"

definition chmod_file :: "string \<Rightarrow> nat \<Rightarrow> fs \<Rightarrow> fs" where
  "chmod_file p bits m = m(p := map_option (\<lambda>(c, _). (c, bits)) (m p))"

definition replace_file :: "string \<Rightarrow> string \<Rightarrow> fs \<Rightarrow> fs" where
  "replace_file src dst m = (m(dst := m src))(src := None)"

text \<open>\<^verbatim>\<open>if os.path.exists(p): os.remove(p)\<close>, for each of a list.\<close>

definition remove_files :: "string list \<Rightarrow> fs \<Rightarrow> fs" where
  "remove_files ps = fold (\<lambda>p m. if m p \<noteq> None then m(p := None) else m) ps"

definition rmtree :: "string \<Rightarrow> fs \<Rightarrow> fs" where
  "rmtree dir m = (\<lambda>p. if take (length dir + 1) p = dir @ ''/'' then None else m p)"

definition su_files :: "(fs \<Rightarrow> fs) \<Rightarrow> (setup_world, unit) io" where
  "su_files f = io_modify (\<lambda>w. w\<lparr>su_fs := f (su_fs w)\<rparr>)"

definition su_print :: "string \<Rightarrow> (setup_world, unit) io" where
  "su_print s = io_modify (\<lambda>w. w\<lparr>su_out := su_out w @ [s]\<rparr>)"

subsection \<open>Operations\<close>

text \<open>\<^verbatim>\<open>sh\<close>; the callers use the standard output only.\<close>

definition su_sh :: "setup_env \<Rightarrow> string \<Rightarrow> bool \<Rightarrow> (setup_world, string) io" where
  "su_sh env cmd check w =
     (let ((rc, out, err), m) = e_shell env cmd (su_fs w); w1 = w\<lparr>su_fs := m\<rparr> in
      if check \<and> rc \<noteq> 0
      then (Inl (SystemExit (''rkcdp-setup: '' @ hd (py_split cmd @ [[]]) @ '' failed: '' @
              take 300 (py_strip (if err = [] then out else err)))), w1)
      else (Inr out, w1))"

definition install_file :: "setup_env \<Rightarrow> string \<times> string \<times> nat \<Rightarrow> (setup_world, unit) io" where
  "install_file env = (\<lambda>(asset, dst, bits).
     (case e_assets env asset of
        None \<Rightarrow> io_lift (Inl (SystemExit (''rkcdp-setup: embedded asset missing: '' @ asset)))
      | Some body \<Rightarrow>
          (let tmp = dst @ ''.new'' in
           su_files (\<lambda>m. replace_file tmp dst (chmod_file tmp bits (write_file env tmp (Text body) m))))))"

definition setup_root_disk :: "setup_env \<Rightarrow> (setup_world, string) io" where
  "setup_root_disk env =
     io_bind (su_sh env ''findmnt -n -o SOURCE /'' True) (\<lambda>out.
       (let src = py_strip out;
            name = basename (e_realpath env src);
            parent = e_realpath env (''/sys/class/block/'' @ name @ ''/..'') in
        io_lift (Inr (if basename parent \<noteq> ''block'' then ''/dev/'' @ basename parent else src))))"

definition leftovers :: "string list" where
  "leftovers = [''/etc/systemd/system/rkcdp-applier.service'', ''/opt/rkcdp/rkcdp-applier'',
     ''/etc/systemd/system/rkcdp-firstboot.service'', ''/opt/rkcdp/rkcdp-firstboot.sh'',
     ''/opt/rkcdp/rkcdpd.py'', ''/opt/rkcdp/rkcdp-rebuild.py'', ''/opt/rkcdp/dmcdp.py'', ''/opt/rkcdp/rkcdp-applier.py'']"

definition nl :: string where "nl = [CHR 0x0A]"

definition default_conf :: "string \<Rightarrow> (string \<times> jval) list" where
  "default_conf journal = [(''dm_name'', JStr ''rkcdp''), (''journal'', JStr journal), (''cycle_sec'', JNum 1),
     (''base_copy_mbps'', JNum 15), (''seed_required'', JBool True)]"

definition write_settings :: "setup_env \<Rightarrow> string \<Rightarrow> fs \<Rightarrow> fs" where
  "write_settings env journal m =
     (let m1 = write_file env (CONF_DIR @ ''/initramfs.conf'') (Text (''DM_NAME=rkcdp'' @ nl)) m;
          m2 = write_file env ''/etc/modprobe.d/dm-cdp.conf'' (Text (''options dm-cdp ring_mb=1024'' @ nl)) m1;
          m3 = write_file env ''/etc/initramfs-tools/conf.d/resume'' (Text (''RESUME=none'' @ nl)) m2
      in if m3 CONF = None then write_file env CONF (Json (default_conf journal)) m3 else m3)"

definition io_limit :: "setup_env \<Rightarrow> (setup_world, unit) io" where
  "io_limit env =
     io_bind (setup_root_disk env) (\<lambda>dev.
       su_files (write_file env ''/etc/systemd/system/rkcdpd.service.d/io.conf''
         (Text (''[Service]'' @ nl @ ''IOReadBandwidthMax='' @ dev @ '' 20M'' @ nl))))"

definition restart_daemon :: "setup_env \<Rightarrow> (setup_world, unit) io" where
  "restart_daemon env =
     io_bind (su_sh env ''systemctl is-active rkcdpd'' False) (\<lambda>out.
       if py_strip out = ''active''
       then io_bind (su_sh env ''systemctl restart rkcdpd'' False) (\<lambda>_.
              su_print ''rkcdp-setup: upgraded, rkcdpd restarted'')
       else io_bind (su_sh env ''systemctl disable rkcdpd >/dev/null 2>&1'' False) (\<lambda>_.
              su_print ''rkcdp-setup: installed. dm-cdp wraps the root disk from the next boot; rkcdpd starts after seeding.''))"

definition activate :: "setup_env \<Rightarrow> (setup_world, unit) io" where
  "activate env =
     io_bind (io_limit env) (\<lambda>_.
     io_bind (su_sh env ''depmod -a'' True) (\<lambda>_.
     io_bind (su_sh env ''update-initramfs -u'' True) (\<lambda>_.
     io_bind (su_sh env ''systemctl daemon-reload'' True) (\<lambda>_.
     io_bind (su_sh env ''systemctl disable rkcdp-applier rkcdp-firstboot >/dev/null 2>&1'' False) (\<lambda>_.
       restart_daemon env)))))"

definition finish_install :: "setup_env \<Rightarrow> string \<Rightarrow> (setup_world, unit) io" where
  "finish_install env journal =
     io_bind (su_files (remove_files leftovers)) (\<lambda>_.
     io_bind (su_files (write_settings env journal)) (\<lambda>_.
       activate env))"

definition do_install :: "setup_env \<Rightarrow> string \<Rightarrow> (setup_world, unit) io" where
  "do_install env journal =
     (if e_euid env \<noteq> 0 then io_lift (Inl (SystemExit ''rkcdp-setup: run as root''))
      else
        io_bind (su_sh env ''apt-get install -y -q kpartx dmsetup >/dev/null 2>&1'' False) (\<lambda>_.
        io_bind (io_fold (\<lambda>x _. install_file env x) (FILES (e_kver env)) ()) (\<lambda>_.
          finish_install env journal)))"

text \<open>\<^verbatim>\<open>{label:<18}\<close> and the lines of the report.\<close>

definition ljust18 :: "string \<Rightarrow> string" where
  "ljust18 s = s @ replicate (18 - length s) (CHR '' '')"

definition check_line :: "string \<Rightarrow> bool \<Rightarrow> string \<Rightarrow> bool \<Rightarrow> (setup_world, bool) io" where
  "check_line label good detail ok =
     io_bind (su_print (''  '' @ ljust18 label @ (if good then ''ok'' else ''MISSING'') @ ''  '' @ detail)) (\<lambda>_.
       io_lift (Inr (ok \<and> good)))"

definition check_exists :: "string \<Rightarrow> string \<Rightarrow> string \<Rightarrow> bool \<Rightarrow> (setup_world, bool) io" where
  "check_exists label p detail ok w = check_line label (su_fs w p \<noteq> None) detail ok w"

definition do_check :: "setup_env \<Rightarrow> (setup_world, nat) io" where
  "do_check env =
     io_bind (check_exists ''module'' (module_path (e_kver env)) (e_kver env) True) (\<lambda>ok1.
     io_bind (check_exists ''initramfs hook'' ''/etc/initramfs-tools/scripts/local-top/rkcdp'' [] ok1) (\<lambda>ok2.
     io_bind (su_sh env (''lsinitramfs /boot/initrd.img-'' @ e_kver env @ '' 2>/dev/null | grep -c dm-cdp.ko'') False) (\<lambda>n.
     io_bind (check_line ''module in initrd'' (py_strip n \<noteq> [] \<and> py_strip n \<noteq> ''0'') [] ok2) (\<lambda>ok3.
     io_bind (check_exists ''daemon binary'' ''/opt/rkcdp/rkcdpd'' [] ok3) (\<lambda>ok4.
     io_bind (su_sh env ''systemctl is-enabled rkcdpd 2>/dev/null'' False) (\<lambda>en.
     io_bind (su_print (''  '' @ ljust18 ''rkcdpd unit'' @ (if py_strip en = [] then ''absent'' else py_strip en) @
         ''  (enabled by the seed stage)'')) (\<lambda>_.
     io_bind (su_sh env ''findmnt -n -o SOURCE /'' False) (\<lambda>src.
     io_bind (su_print (''  '' @ ljust18 ''root wrapped'' @
         (if take 17 (py_strip src) = ''/dev/mapper/rkcdp'' then ''yes'' else ''no (takes effect at next boot)''))) (\<lambda>_.
       io_lift (Inr (if ok4 then 0 else 1)))))))))))"

definition do_remove :: "setup_env \<Rightarrow> (setup_world, unit) io" where
  "do_remove env =
     io_bind (su_sh env ''systemctl disable --now rkcdpd >/dev/null 2>&1'' False) (\<lambda>_.
     io_bind (su_files (remove_files (filter (\<lambda>p. take 13 p \<noteq> ''/lib/modules/'') (map (fst \<circ> snd) (FILES (e_kver env)))))) (\<lambda>_.
     io_bind (su_files (rmtree ''/etc/systemd/system/rkcdpd.service.d'')) (\<lambda>_.
     io_bind (su_files (remove_files [''/etc/udev/rules.d/99-rkcdp.rules'', CONF_DIR @ ''/initramfs.conf''])) (\<lambda>_.
     io_bind (su_sh env ''update-initramfs -u'' True) (\<lambda>_.
     io_bind (su_sh env ''systemctl daemon-reload'' True) (\<lambda>_.
       su_print ''rkcdp-setup: removed; root boots unwrapped from the next boot''))))))"

text \<open>\<^verbatim>\<open>a[a.index(x) + 1]\<close>.\<close>

fun arg_after :: "string \<Rightarrow> string list \<Rightarrow> string result" where
  "arg_after x [] = Inl IndexError"
| "arg_after x (y # ys) = (if y = x then (case ys of [] \<Rightarrow> Inl IndexError | v # _ \<Rightarrow> Inr v) else arg_after x ys)"

definition setup_main :: "setup_env \<Rightarrow> string list \<Rightarrow> (setup_world, nat) io" where
  "setup_main env a =
     io_bind (io_lift (if ''--journal'' \<in> set a then arg_after ''--journal'' a else Inr JOURNAL_DEFAULT)) (\<lambda>journal.
       if ''--check'' \<in> set a then do_check env
       else if ''--remove'' \<in> set a then io_bind (do_remove env) (\<lambda>_. io_lift (Inr 0))
       else io_bind (do_install env journal) (\<lambda>_. io_lift (Inr 0)))"

subsection \<open>What the operations leave alone\<close>

definition managed :: "string \<Rightarrow> string list" where
  "managed kver = map (fst \<circ> snd) (FILES kver) @ CONF # leftovers"

text \<open>The programs that are run keep the files they are not meant to change.\<close>

definition quiet :: "setup_env \<Rightarrow> string list \<Rightarrow> bool" where
  "quiet env ps \<longleftrightarrow> (\<forall>cmd m. \<forall>p \<in> set ps. snd (e_shell env cmd m) p = m p)"

lemma su_sh_fs: "quiet env ps \<Longrightarrow> p \<in> set ps \<Longrightarrow> su_fs (snd (su_sh env cmd check w)) p = su_fs w p"
  by (auto simp: su_sh_def quiet_def Let_def split: prod.split) (metis snd_conv)+

lemma keeps_sh [keeps]: "quiet env ps \<Longrightarrow> p \<in> set ps \<Longrightarrow> io_keeps (\<lambda>w. su_fs w p = v) (su_sh env cmd check)"
  by (simp add: io_keeps_def su_sh_fs)

lemma keeps_files: "(\<And>m. m p = v \<Longrightarrow> f m p = v) \<Longrightarrow> io_keeps (\<lambda>w. su_fs w p = v) (su_files f)"
  by (simp add: io_keeps_def su_files_def io_modify_def)

lemma keeps_print [keeps]: "io_keeps (\<lambda>w. P (su_fs w)) (su_print s)"
  by (simp add: io_keeps_def su_print_def io_modify_def)

lemma keeps_fold: "(\<And>x s. x \<in> set xs \<Longrightarrow> io_keeps P (f x s)) \<Longrightarrow> io_keeps P (io_fold f xs s)"
  by (induction xs arbitrary: s) (auto intro: keeps)

lemma write_file_other [simp]: "q \<noteq> p \<Longrightarrow> write_file env p c m q = m q"
  by (simp add: write_file_def)

lemma write_file_some [simp]: "write_file env p c m p \<noteq> None"
  by (simp add: write_file_def)

lemma remove_files_at: "remove_files ps m p = (if p \<in> set ps then None else m p)"
  by (induction ps arbitrary: m) (auto simp: remove_files_def simp del: not_None_eq)

lemma installed: "replace_file (d @ ''.new'') d (chmod_file (d @ ''.new'') bits (write_file env (d @ ''.new'') c m)) =
  m(d \<mapsto> (c, bits), d @ ''.new'' := None)"
  by (rule ext) (simp add: replace_file_def chmod_file_def write_file_def)

lemma install_file_cases:
  "install_file env (a, d, bits) w = (case e_assets env a of
     None \<Rightarrow> (Inl (SystemExit (''rkcdp-setup: embedded asset missing: '' @ a)), w)
   | Some body \<Rightarrow> (Inr (), w\<lparr>su_fs := (su_fs w)(d \<mapsto> (Text body, bits), d @ ''.new'' := None)\<rparr>))"
  by (simp add: install_file_def su_files_def io_modify_def Let_def installed split: option.split)

text \<open>The destinations and their temporary names do not meet.\<close>

definition separate :: "(string \<times> string \<times> nat) list \<Rightarrow> bool" where
  "separate xs \<longleftrightarrow> distinct (concat (map (\<lambda>(a, d, b). [d, d @ ''.new'']) xs))"

lemma separate_FILES: "separate (FILES kver)"
  by (simp add: separate_def FILES_def module_path_def)

lemma install_all:
  assumes "\<forall>(a, d, b) \<in> set xs. e_assets env a \<noteq> None" and "separate xs"
  shows "\<exists>w'. io_fold (\<lambda>x _. install_file env x) xs () w = (Inr (), w') \<and>
    (\<forall>(a, d, b) \<in> set xs. \<exists>body. e_assets env a = Some body \<and> su_fs w' d = Some (Text body, b)) \<and>
    (\<forall>p. p \<notin> set (concat (map (\<lambda>(a, d, b). [d, d @ ''.new'']) xs)) \<longrightarrow> su_fs w' p = su_fs w p)"
  using assms
proof (induction xs arbitrary: w)
  case (Cons x xs)
  obtain a d b where x: "x = (a, d, b)" by (cases x)
  from Cons.prems x obtain body where body: "e_assets env a = Some body" by auto
  let ?w1 = "w\<lparr>su_fs := (su_fs w)(d \<mapsto> (Text body, b), d @ ''.new'' := None)\<rparr>"
  have fresh: "d \<notin> set (concat (map (\<lambda>(a, d, b). [d, d @ ''.new'']) xs))" and sep: "separate xs"
    using Cons.prems(2) x by (auto simp: separate_def)
  obtain w' where w': "io_fold (\<lambda>x _. install_file env x) xs () ?w1 = (Inr (), w')"
      "\<forall>(a, d, b) \<in> set xs. \<exists>body. e_assets env a = Some body \<and> su_fs w' d = Some (Text body, b)"
      "\<forall>p. p \<notin> set (concat (map (\<lambda>(a, d, b). [d, d @ ''.new'']) xs)) \<longrightarrow> su_fs w' p = su_fs ?w1 p"
    using Cons.IH [OF _ sep, of ?w1] Cons.prems(1) by auto
  have "su_fs w' d = Some (Text body, b)" using w'(3) fresh by simp
  with w' body x show ?case
    by (intro exI [of _ w']) (auto simp: install_file_cases)
qed simp

lemma activate_keeps [keeps]:
  assumes "quiet env ps" and "p \<in> set ps" and "p \<noteq> ''/etc/systemd/system/rkcdpd.service.d/io.conf''"
  shows "io_keeps (\<lambda>w. su_fs w p = v) (activate env)"
proof -
  have "io_keeps (\<lambda>w. su_fs w p = v) (su_files (write_file env ''/etc/systemd/system/rkcdpd.service.d/io.conf'' c))" for c
    using assms(3) by (intro keeps_files) simp
  then have "io_keeps (\<lambda>w. su_fs w p = v) (io_limit env)"
    unfolding io_limit_def setup_root_disk_def Let_def by (intro io_keeps_bind keeps_sh [OF assms(1,2)] io_keeps_lift)
  moreover have "io_keeps (\<lambda>w. su_fs w p = v) (restart_daemon env)"
    unfolding restart_daemon_def
    by (auto intro!: io_keeps_bind keeps_sh [OF assms(1,2)] keeps_print [of "\<lambda>m. m p = v"])
  ultimately show ?thesis
    unfolding activate_def by (intro io_keeps_bind keeps_sh [OF assms(1,2)])
qed

lemma finish_keeps:
  assumes "quiet env (managed (e_kver env))" and "p \<in> set (map (fst \<circ> snd) (FILES (e_kver env)))"
  shows "io_keeps (\<lambda>w. su_fs w p = v) (finish_install env journal)"
proof -
  have p: "p \<in> set (managed (e_kver env))" using assms(2) by (simp add: managed_def)
  have out: "p \<notin> set leftovers" "p \<noteq> CONF" "p \<noteq> CONF_DIR @ ''/initramfs.conf''" "p \<noteq> ''/etc/modprobe.d/dm-cdp.conf''"
      "p \<noteq> ''/etc/initramfs-tools/conf.d/resume''" "p \<noteq> ''/etc/systemd/system/rkcdpd.service.d/io.conf''"
    using assms(2) by (auto simp: FILES_def module_path_def leftovers_def CONF_def CONF_DIR_def)
  then have "io_keeps (\<lambda>w. su_fs w p = v) (su_files (remove_files leftovers))"
      "io_keeps (\<lambda>w. su_fs w p = v) (su_files (write_settings env journal))"
    by (auto intro!: keeps_files simp: remove_files_at write_settings_def Let_def)
  with out(6) activate_keeps [OF assms(1) p] show ?thesis
    unfolding finish_install_def by (intro io_keeps_bind) auto
qed

text \<open>Actions that always return.\<close>

definition io_returns :: "('w, 'a) io \<Rightarrow> bool" where
  "io_returns act \<longleftrightarrow> (\<forall>w. \<exists>x. fst (act w) = Inr x)"

lemma returns_bind: "io_returns m \<Longrightarrow> (\<And>x. io_returns (k x)) \<Longrightarrow> io_returns (io_bind m k)"
  by (auto simp: io_returns_def io_bind_cases split: sum.split) (metis sum.distinct(1))

lemma returns_simple: "io_returns (su_files f)" "io_returns (su_print t)" "io_returns (io_lift (Inr x))"
  by (simp_all add: io_returns_def su_files_def su_print_def io_modify_def)

definition succeeds :: "setup_env \<Rightarrow> string \<Rightarrow> bool" where
  "succeeds env cmd \<longleftrightarrow> (\<forall>m. fst (fst (e_shell env cmd m)) = 0)"

lemma returns_sh: "succeeds env cmd \<Longrightarrow> io_returns (su_sh env cmd True)" "io_returns (su_sh env cmd False)"
  unfolding io_returns_def su_sh_def Let_def succeeds_def by (auto split: prod.split) (metis fst_conv)+

lemma finish_returns:
  assumes "succeeds env ''findmnt -n -o SOURCE /''" "succeeds env ''depmod -a''" "succeeds env ''update-initramfs -u''"
    "succeeds env ''systemctl daemon-reload''"
  shows "io_returns (finish_install env journal)"
  unfolding finish_install_def activate_def io_limit_def setup_root_disk_def restart_daemon_def Let_def
  by (intro returns_bind returns_simple returns_sh assms; simp split: if_split; intro conjI impI returns_bind returns_simple returns_sh)

lemma su_print_run [simp]: "su_print t w = (Inr (), w\<lparr>su_out := su_out w @ [t]\<rparr>)"
  by (simp add: su_print_def io_modify_def)

lemma su_sh_unchecked: "su_sh env cmd False w = (Inr (fst (snd (fst (e_shell env cmd (su_fs w))))), w\<lparr>su_fs := snd (e_shell env cmd (su_fs w))\<rparr>)"
  by (simp add: su_sh_def Let_def split: prod.split)

lemma quiet_at: "quiet env ps \<Longrightarrow> p \<in> set ps \<Longrightarrow> snd (e_shell env cmd m) p = m p"
  by (simp add: quiet_def)

definition initrd_cmd :: "string \<Rightarrow> string" where
  "initrd_cmd kver = ''lsinitramfs /boot/initrd.img-'' @ kver @ '' 2>/dev/null | grep -c dm-cdp.ko''"

lemma managed_simps [simp]:
  "module_path kver \<in> set (managed kver)" "''/opt/rkcdp/rkcdpd'' \<in> set (managed kver)"
  "''/etc/initramfs-tools/scripts/local-top/rkcdp'' \<in> set (managed kver)" "CONF \<in> set (managed kver)"
  by (simp_all add: managed_def FILES_def)

lemma check_result:
  assumes "quiet env (managed (e_kver env))"
  shows "fst (do_check env w) = Inr (if su_fs w (module_path (e_kver env)) \<noteq> None \<and>
      su_fs w ''/etc/initramfs-tools/scripts/local-top/rkcdp'' \<noteq> None \<and> su_fs w ''/opt/rkcdp/rkcdpd'' \<noteq> None \<and>
      py_strip (fst (snd (fst (e_shell env (initrd_cmd (e_kver env)) (su_fs w))))) \<notin> {[], ''0''} then 0 else 1)"
  using quiet_at [OF assms]
  by (simp add: do_check_def check_exists_def check_line_def io_bind_cases su_sh_unchecked initrd_cmd_def)

lemma install_result:
  assumes "e_euid env = 0" and "\<forall>(a, d, b) \<in> set (FILES (e_kver env)). e_assets env a \<noteq> None"
    and "succeeds env ''findmnt -n -o SOURCE /''" "succeeds env ''depmod -a''" "succeeds env ''update-initramfs -u''"
    "succeeds env ''systemctl daemon-reload''" and "quiet env (managed (e_kver env))"
  shows "\<exists>w'. do_install env journal w = (Inr (), w') \<and>
    (\<forall>(a, d, b) \<in> set (FILES (e_kver env)). \<exists>body. e_assets env a = Some body \<and> su_fs w' d = Some (Text body, b))"
proof -
  let ?w0 = "w\<lparr>su_fs := snd (e_shell env ''apt-get install -y -q kpartx dmsetup >/dev/null 2>&1'' (su_fs w))\<rparr>"
  obtain w1 where w1: "io_fold (\<lambda>x _. install_file env x) (FILES (e_kver env)) () ?w0 = (Inr (), w1)"
      "\<forall>(a, d, b) \<in> set (FILES (e_kver env)). \<exists>body. e_assets env a = Some body \<and> su_fs w1 d = Some (Text body, b)"
    using install_all [OF assms(2) separate_FILES, of ?w0] by blast
  obtain w' where w': "finish_install env journal w1 = (Inr (), w')"
    using finish_returns [OF assms(3-6), of journal] unfolding io_returns_def by (metis old.unit.exhaust prod.collapse)
  have "\<exists>body. e_assets env a = Some body \<and> su_fs w' d = Some (Text body, b)" if f: "(a, d, b) \<in> set (FILES (e_kver env))" for a d b
  proof -
    from f w1(2) obtain body where "e_assets env a = Some body" "su_fs w1 d = Some (Text body, b)" by blast
    moreover have "d \<in> set (map (fst \<circ> snd) (FILES (e_kver env)))" using f by force
    ultimately show ?thesis using io_keeps_snd [OF finish_keeps [OF assms(7)] _ w'] by blast
  qed
  then have "\<forall>(a, d, b) \<in> set (FILES (e_kver env)). \<exists>body. e_assets env a = Some body \<and> su_fs w' d = Some (Text body, b)"
    by blast
  moreover have "do_install env journal w = (Inr (), w')"
    using assms(1) w1(1) w' by (simp add: do_install_def io_bind_cases su_sh_unchecked)
  ultimately show ?thesis by blast
qed

lemma install_file_conf:
  "x \<in> set (FILES kver) \<Longrightarrow> io_keeps (\<lambda>w. su_fs w CONF = v) (install_file env x)"
  by (cases x) (auto simp: io_keeps_def install_file_cases FILES_def module_path_def CONF_def split: option.split)

lemma install_files_conf:
  "io_keeps (\<lambda>w. su_fs w CONF = v) (io_fold (\<lambda>x _. install_file env x) (FILES kver) ())"
  by (intro keeps_fold install_file_conf)

lemma activate_conf: "quiet env (managed (e_kver env)) \<Longrightarrow> io_keeps (\<lambda>w. su_fs w CONF = v) (activate env)"
  by (rule activate_keeps [OF _ managed_simps(4)]) (simp_all add: CONF_def)

lemma settings_conf:
  "write_settings env journal (remove_files leftovers m) CONF =
    (case m CONF of None \<Rightarrow> Some (Json (default_conf journal), e_mode env) | Some c \<Rightarrow> Some c)"
  by (simp add: write_settings_def Let_def remove_files_at leftovers_def CONF_def CONF_DIR_def write_file_def split: option.split)

lemma finish_conf:
  assumes "quiet env (managed (e_kver env))"
  shows "su_fs (snd (finish_install env journal w)) CONF =
    (case su_fs w CONF of None \<Rightarrow> Some (Json (default_conf journal), e_mode env) | Some c \<Rightarrow> Some c)"
proof -
  let ?w = "w\<lparr>su_fs := write_settings env journal (remove_files leftovers (su_fs w))\<rparr>"
  have "su_fs (snd (activate env ?w)) CONF = su_fs ?w CONF"
    using activate_conf [OF assms] by (simp add: io_keeps_def)
  then show ?thesis by (simp add: finish_install_def su_files_def io_modify_def settings_conf)
qed

text \<open>What \<^verbatim>\<open>--remove\<close> does to the files.\<close>

definition removed :: "string \<Rightarrow> fs \<Rightarrow> fs" where
  "removed kver m = remove_files [''/etc/udev/rules.d/99-rkcdp.rules'', CONF_DIR @ ''/initramfs.conf'']
     (rmtree ''/etc/systemd/system/rkcdpd.service.d''
       (remove_files (filter (\<lambda>p. take 13 p \<noteq> ''/lib/modules/'') (map (fst \<circ> snd) (FILES kver))) m))"

lemma removed_files:
  "filter (\<lambda>p. take 13 p \<noteq> ''/lib/modules/'') (map (fst \<circ> snd) (FILES kver)) = map (fst \<circ> snd) (tl (FILES kver))"
  by (simp add: FILES_def module_path_def)

lemma removed_keeps: "removed kver m (module_path kver) = m (module_path kver)" "removed kver m CONF = m CONF"
  by (simp_all add: removed_def removed_files remove_files_at rmtree_def FILES_def module_path_def CONF_def CONF_DIR_def)

lemma removed_cong: "m p = m' p \<Longrightarrow> removed kver m p = removed kver m' p"
  by (simp add: removed_def remove_files_at rmtree_def)

lemma remove_at:
  assumes "do_remove env w = (Inr u, w')" "quiet env (managed (e_kver env))" "p \<in> set (managed (e_kver env))"
  shows "su_fs w' p = removed (e_kver env) (su_fs w) p"
proof -
  let ?m = "snd (e_shell env ''systemctl disable --now rkcdpd >/dev/null 2>&1'' (su_fs w))"
  let ?w1 = "w\<lparr>su_fs := removed (e_kver env) ?m\<rparr>"
  obtain w2 w3 where w: "su_sh env ''update-initramfs -u'' True ?w1 = (Inr w2, w3)" "su_fs w' = su_fs (snd (su_sh env ''systemctl daemon-reload'' True w3))"
    using assms(1) by (auto simp: do_remove_def io_bind_def su_sh_unchecked su_files_def io_modify_def removed_def split: sum.splits prod.splits)
  have "su_fs w' p = su_fs ?w1 p"
    using w su_sh_fs [OF assms(2,3), of "''update-initramfs -u''" True ?w1] su_sh_fs [OF assms(2,3)] by simp
  then show ?thesis using removed_cong [of ?m p] quiet_at [OF assms(2,3)] by simp
qed

subsection \<open>Properties\<close>

text \<open>
  (C32) Run by root with all assets embedded and with the four commands that are checked
  succeeding, \<^verbatim>\<open>rkcdp-setup\<close> returns 0 with every file of \<^verbatim>\<open>FILES\<close> at its destination, with the
  contents of the asset and its permissions; and once the initramfs carries the module,
  \<^verbatim>\<open>rkcdp-setup --check\<close> returns 0.
\<close>

theorem install_then_check:
  assumes "e_euid env = 0" and "\<forall>(a, d, b) \<in> set (FILES (e_kver env)). e_assets env a \<noteq> None"
    and "succeeds env ''findmnt -n -o SOURCE /''" "succeeds env ''depmod -a''" "succeeds env ''update-initramfs -u''"
    "succeeds env ''systemctl daemon-reload''" and "quiet env (managed (e_kver env))"
    and "\<forall>m. py_strip (fst (snd (fst (e_shell env (initrd_cmd (e_kver env)) m)))) \<notin> {[], ''0''}"
  shows "\<exists>w'. setup_main env [] w = (Inr 0, w') \<and>
    (\<forall>(a, d, b) \<in> set (FILES (e_kver env)). \<exists>body. e_assets env a = Some body \<and> su_fs w' d = Some (Text body, b)) \<and>
    fst (setup_main env [''--check''] w') = Inr 0"
proof -
  obtain w' where w': "do_install env JOURNAL_DEFAULT w = (Inr (), w')"
      "\<forall>(a, d, b) \<in> set (FILES (e_kver env)). \<exists>body. e_assets env a = Some body \<and> su_fs w' d = Some (Text body, b)"
    using install_result [OF assms(1-7)] by blast
  have "su_fs w' (module_path (e_kver env)) \<noteq> None" "su_fs w' ''/opt/rkcdp/rkcdpd'' \<noteq> None"
      "su_fs w' ''/etc/initramfs-tools/scripts/local-top/rkcdp'' \<noteq> None"
    using w'(2) by (auto simp: FILES_def)
  then have "fst (do_check env w') = Inr 0" using check_result [OF assms(7)] assms(8) by simp
  with w' show ?thesis by (intro exI [of _ w']) (simp add: setup_main_def)
qed

definition sample_setup :: setup_env where
  "sample_setup = \<lparr>e_euid = 0, e_kver = ''6.1'', e_assets = (\<lambda>a. Some a), e_realpath = (\<lambda>p. p), e_mode = 420,
     e_shell = (\<lambda>cmd m. ((0, (if take 11 cmd = ''lsinitramfs'' then ''1'' else []), []), m))\<rparr>"

lemma sample_setup_ok: "succeeds sample_setup cmd" "quiet sample_setup ps"
  by (simp_all add: succeeds_def quiet_def sample_setup_def)

theorem install_then_check_witness:
  "\<exists>w'. setup_main sample_setup [] \<lparr>su_fs = (\<lambda>_. None), su_out = []\<rparr> = (Inr 0, w') \<and>
    (\<forall>(a, d, b) \<in> set (FILES (e_kver sample_setup)). \<exists>body. e_assets sample_setup a = Some body \<and> su_fs w' d = Some (Text body, b)) \<and>
    fst (setup_main sample_setup [''--check''] w') = Inr 0"
  by (rule install_then_check [OF _ _ sample_setup_ok(1) sample_setup_ok(1) sample_setup_ok(1) sample_setup_ok(1) sample_setup_ok(2)])
    (auto simp: sample_setup_def initrd_cmd_def py_strip_def py_space_def)

text \<open>
  An upgrade keeps the configuration of the node: whatever \<^verbatim>\<open>rkcdp-setup\<close> does and however
  it ends, an existing \<^verbatim>\<open>/etc/rkcdp/rkcdp.conf\<close> stays as it is.
\<close>

theorem install_keeps_conf:
  assumes "quiet env (managed (e_kver env))" and "su_fs w CONF = Some c"
  shows "su_fs (snd (do_install env journal w)) CONF = Some c"
proof -
  have finish: "io_keeps (\<lambda>w. su_fs w CONF = Some c) (finish_install env journal)"
    using finish_conf [OF assms(1)] by (simp add: io_keeps_def)
  have "io_keeps (\<lambda>w. su_fs w CONF = Some c) (do_install env journal)"
    unfolding do_install_def
    using keeps_sh [OF assms(1) managed_simps(4)] finish
    by (auto intro!: io_keeps_bind io_keeps_lift install_files_conf)
  with assms(2) show ?thesis by (simp add: io_keeps_def)
qed

theorem install_keeps_conf_witness:
  "su_fs (snd (do_install sample_setup ''/j'' \<lparr>su_fs = [CONF \<mapsto> (Text ''mine'', 384)], su_out = []\<rparr>)) CONF = Some (Text ''mine'', 384)"
  by (rule install_keeps_conf [OF sample_setup_ok(2)]) simp

text \<open>
  (C39) A first installation gives the daemon its defaults: the configuration that is written,
  as text, read back by \<^verbatim>\<open>json.load\<close> and merged by \<^verbatim>\<open>load_conf\<close>, is the built-in one with the
  journal of the command line and with seeding required.
\<close>

theorem fresh_conf_loads:
  assumes "do_install env journal w = (Inr u, w')" and "su_fs w CONF = None" and "quiet env (managed (e_kver env))"
    and "prints_ok num (JNum 1)" and "prints_ok num (JNum 15)"
  shows "\<exists>kvs. su_fs w' CONF = Some (Json kvs, e_mode env) \<and>
    json_loads (json_dumps num (Some 1) (JObj kvs) @ nl) = Inr (JObj kvs) \<and>
    load_conf host (Some kvs) = (load_conf host None)(''journal'' \<mapsto> JStr journal, ''seed_required'' \<mapsto> JBool True)"
proof -
  let ?w0 = "w\<lparr>su_fs := snd (e_shell env ''apt-get install -y -q kpartx dmsetup >/dev/null 2>&1'' (su_fs w))\<rparr>"
  obtain w1 where w1: "io_fold (\<lambda>x _. install_file env x) (FILES (e_kver env)) () ?w0 = (Inr (), w1)"
      "finish_install env journal w1 = (Inr u, w')"
    using assms(1) by (auto simp: do_install_def io_bind_def su_sh_unchecked split: if_splits sum.splits prod.splits)
  have "su_fs ?w0 CONF = None" using assms(2) quiet_at [OF assms(3)] by simp
  then have none: "su_fs w1 CONF = None"
    using io_keeps_snd [OF install_files_conf _ w1(1)] by blast
  have "su_fs w' CONF = Some (Json (default_conf journal), e_mode env)"
    using finish_conf [OF assms(3), of journal w1] w1(2) none by simp
  moreover have "json_loads (json_dumps num (Some 1) (JObj (default_conf journal)) @ nl) = Inr (JObj (default_conf journal))"
    using assms(4,5) by (intro loads_dumps) (simp_all add: default_conf_def nl_def json_space_def)
  ultimately show ?thesis
    by (intro exI [of _ "default_conf journal"]) (auto simp: load_conf_def default_conf_def dict_of_def fun_eq_iff)
qed

theorem fresh_conf_loads_witness:
  "\<exists>w' kvs. do_install sample_setup ''/j'' \<lparr>su_fs = Map.empty, su_out = []\<rparr> = (Inr (), w') \<and>
    su_fs w' CONF = Some (Json kvs, 420) \<and> json_loads (json_dumps sample_num (Some 1) (JObj kvs) @ nl) = Inr (JObj kvs) \<and>
    load_conf ''n1'' (Some kvs) = (load_conf ''n1'' None)(''journal'' \<mapsto> JStr ''/j'', ''seed_required'' \<mapsto> JBool True)"
proof -
  obtain w' where run: "do_install sample_setup ''/j'' \<lparr>su_fs = Map.empty, su_out = []\<rparr> = (Inr (), w')"
    using install_result [OF _ _ sample_setup_ok(1) sample_setup_ok(1) sample_setup_ok(1) sample_setup_ok(1) sample_setup_ok(2)]
    by (force simp: sample_setup_def)
  have "prints_ok sample_num (JNum 1)" "prints_ok sample_num (JNum 15)" by code_simp+
  from fresh_conf_loads [OF run _ sample_setup_ok(2) this, of "''n1''"] run show ?thesis
    by (auto simp: sample_setup_def)
qed

text \<open>
  The verdict of \<^verbatim>\<open>rkcdp-setup --check\<close>: it returns 0 exactly when the module, the
  \<^verbatim>\<open>local-top\<close> script and the daemon exist and the initramfs lists the module, and 1
  otherwise. The other files of \<^verbatim>\<open>FILES\<close> play no part in it.
\<close>

theorem check_verdict:
  assumes "quiet env (managed (e_kver env))"
  shows "fst (setup_main env [''--check''] w) = Inr (if su_fs w (module_path (e_kver env)) \<noteq> None \<and>
      su_fs w ''/etc/initramfs-tools/scripts/local-top/rkcdp'' \<noteq> None \<and> su_fs w ''/opt/rkcdp/rkcdpd'' \<noteq> None \<and>
      py_strip (fst (snd (fst (e_shell env (initrd_cmd (e_kver env)) (su_fs w))))) \<notin> {[], ''0''} then 0 else 1)"
  using check_result [OF assms, of w] by (simp add: setup_main_def)

theorem check_verdict_witness:
  "fst (setup_main sample_setup [''--check''] \<lparr>su_fs = [module_path ''6.1'' \<mapsto> (Text [], 420),
      ''/etc/initramfs-tools/scripts/local-top/rkcdp'' \<mapsto> (Text [], 493), ''/opt/rkcdp/rkcdpd'' \<mapsto> (Text [], 493)], su_out = []\<rparr>) = Inr 0"
  by (subst check_verdict [OF sample_setup_ok(2)])
    (simp add: sample_setup_def module_path_def initrd_cmd_def py_strip_def py_space_def)

text \<open>
  \<^verbatim>\<open>rkcdp-setup --remove\<close> takes away what the installer put there, but for the module and
  the configuration: when it returns, no other file of \<^verbatim>\<open>FILES\<close> exists.
\<close>

theorem remove_removes:
  assumes "setup_main env [''--remove''] w = (Inr code, w')" and "quiet env (managed (e_kver env))"
  shows "code = 0 \<and> su_fs w' (module_path (e_kver env)) = su_fs w (module_path (e_kver env)) \<and> su_fs w' CONF = su_fs w CONF \<and>
    (\<forall>(a, d, b) \<in> set (tl (FILES (e_kver env))). su_fs w' d = None)"
proof -
  have code: "code = 0" and run: "do_remove env w = (Inr (), w')"
    using assms(1) by (auto simp: setup_main_def io_bind_def split: sum.splits prod.splits)
  note at = remove_at [OF run assms(2)]
  have "su_fs w' d = None" if "(a, d, b) \<in> set (tl (FILES (e_kver env)))" for a d b
  proof -
    have "d \<in> set (managed (e_kver env))" using that by (auto simp: managed_def FILES_def)
    moreover have "removed (e_kver env) (su_fs w) d = None"
      using that by (auto simp: removed_def removed_files remove_files_at rmtree_def image_iff)
    ultimately show ?thesis by (simp add: at)
  qed
  then have gone: "\<forall>(a, d, b) \<in> set (tl (FILES (e_kver env))). su_fs w' d = None" by blast
  from code at [OF managed_simps(1)] at [OF managed_simps(4)] gone show ?thesis by (simp only: removed_keeps)
qed

theorem remove_removes_witness:
  "\<exists>w'. setup_main sample_setup [''--remove''] \<lparr>su_fs = [''/opt/rkcdp/rkcdp-seed'' \<mapsto> (Text [], 493)], su_out = []\<rparr> = (Inr 0, w') \<and>
    (\<forall>(a, d, b) \<in> set (tl (FILES (e_kver sample_setup))). su_fs w' d = None)"
proof -
  obtain w' where run: "setup_main sample_setup [''--remove''] \<lparr>su_fs = [''/opt/rkcdp/rkcdp-seed'' \<mapsto> (Text [], 493)], su_out = []\<rparr> = (Inr 0, w')"
    by (simp add: setup_main_def do_remove_def io_bind_cases su_sh_unchecked su_sh_def sample_setup_def su_files_def io_modify_def)
  from remove_removes [OF run sample_setup_ok(2)] run show ?thesis by blast
qed

text \<open>
  Mistakes on the command line change nothing: \<^verbatim>\<open>--journal\<close> as the last word raises
  \<^verbatim>\<open>IndexError\<close>, with \<^verbatim>\<open>--check\<close> and \<^verbatim>\<open>--remove\<close> too, and installing without being root ends with
  a message; in both cases no command was run and no file written.
\<close>

theorem setup_refuses:
  assumes "''--journal'' \<notin> set a"
  shows "setup_main env (a @ [''--journal'']) w = (Inl IndexError, w) \<and>
    (e_euid env \<noteq> 0 \<longrightarrow> ''--check'' \<notin> set a \<longrightarrow> ''--remove'' \<notin> set a \<longrightarrow>
      setup_main env a w = (Inl (SystemExit ''rkcdp-setup: run as root''), w))"
proof -
  have "arg_after ''--journal'' (a @ [''--journal'']) = Inl IndexError" using assms by (induction a) auto
  with assms show ?thesis by (simp add: setup_main_def do_install_def)
qed

theorem setup_refuses_witness:
  "setup_main sample_setup [''--check'', ''--journal''] \<lparr>su_fs = Map.empty, su_out = []\<rparr> = (Inl IndexError, \<lparr>su_fs = Map.empty, su_out = []\<rparr>) \<and>
   setup_main (sample_setup\<lparr>e_euid := 1000\<rparr>) [] \<lparr>su_fs = Map.empty, su_out = []\<rparr> =
     (Inl (SystemExit ''rkcdp-setup: run as root''), \<lparr>su_fs = Map.empty, su_out = []\<rparr>)"
  using setup_refuses [of "[''--check'']" sample_setup "\<lparr>su_fs = Map.empty, su_out = []\<rparr>"]
    setup_refuses [of "[]" "sample_setup\<lparr>e_euid := 1000\<rparr>" "\<lparr>su_fs = Map.empty, su_out = []\<rparr>"] by simp

end
