(* ===== verification/Spec2Isabelle.thy ===== *)
theory Spec2Isabelle
  imports Snapshot Durability Lifecycle Json_Torn Recovery_File Seed_Tool Web_Service Setup
begin

text \<open>
  \<^bold>\<open>Continuous data protection of a Linux disk: the user-space programs of \<^verbatim>\<open>rkcdp\<close>.\<close>

  A kernel driver (\<^verbatim>\<open>dm-cdp\<close>) sits under the root disk of a node, puts every write into a ring
  and keeps a bitmap of what the ring could not hold. The programs under \<^verbatim>\<open>src/rkcdp\<close> turn this
  into a replica of the disk in a shared directory, one directory per node:

  \<^item> \<^verbatim>\<open>rkcdpd.py\<close>, the daemon, reads the ring, applies the records to \<^verbatim>\<open>replica.raw\<close>, parks them
    in \<^verbatim>\<open>pending.bin\<close> while a rebuild holds the lock, copies the disk once (base copy) or adopts a
    seed, repairs gaps from the bitmap, marks consistent points and writes \<^verbatim>\<open>status.json\<close>;
  \<^item> \<^verbatim>\<open>rkcdp-seed.py\<close> lets the hypervisor copy the disk of the running machine into the replica and
    hands it to the daemon through \<^verbatim>\<open>manifest.json\<close>;
  \<^item> \<^verbatim>\<open>rkcdp-rebuild.py\<close> makes a new machine from a copy of the replica, or of its seed-time state;
  \<^item> \<^verbatim>\<open>api_rkcdp.py\<close> lists the nodes and starts rebuilds; \<^verbatim>\<open>rkcdp-setup.py\<close> installs all of it.

  \<^bold>\<open>Theories\<close>, in the order of their imports.

  \<^item> \<open>Cdp_Prelude\<close>: exceptions and results, byte images, \<^verbatim>\<open>struct\<close>, sparse files with \<^verbatim>\<open>pread\<close>,
    \<^verbatim>\<open>pwrite\<close>, \<^verbatim>\<open>SEEK_DATA\<close> and \<^verbatim>\<open>SEEK_HOLE\<close>; the locale \<open>byte_store\<close> (a write changes exactly the
    bytes it covers) with its interpretations on images and files.
  \<^item> \<open>Dmcdp\<close>: \<^verbatim>\<open>dmcdp.py\<close>: record header, \<^verbatim>\<open>pack_rec\<close>, \<^verbatim>\<open>iter_records\<close>, \<^verbatim>\<open>status\<close>, \<^verbatim>\<open>read_bitmap\<close>,
    \<^verbatim>\<open>bitmap_extents\<close>. Round trip of the record stream, its independence of how it is cut, when the
    iterator does not end, and that the extents are exactly the dirty sectors.
  \<^item> \<open>Seed_Layer\<close>: \<^verbatim>\<open>data_regions\<close> and the class \<^verbatim>\<open>SeedLayer\<close>; the locale \<open>snapshot_layer\<close>. The
    seed-time content stays recoverable, saved chunks are written once, a restart rebuilds the bits.
  \<^item> \<open>Replica\<close>: the class \<^verbatim>\<open>Replica\<close>; the locale \<open>record_sink\<close> of anything that records are applied
    to. A write refines the effect of its record on the image of the disk.
  \<^item> \<open>Daemon\<close>: the state of \<^verbatim>\<open>Daemon\<close> with \<^verbatim>\<open>apply_one\<close>, \<^verbatim>\<open>consume\<close> and \<^verbatim>\<open>apply_pending\<close>: applying,
    parking, and parking followed by applying.
  \<^item> \<open>Copy_Engine\<close>: \<^verbatim>\<open>Throttle\<close>, \<^verbatim>\<open>copy_chunk\<close>, \<^verbatim>\<open>base_copy\<close>, \<^verbatim>\<open>start_recovery\<close> and \<^verbatim>\<open>recover\<close>.
  \<^item> \<open>Copy_Protocol\<close>: the interleavings of the copying thread, the main thread and the writes to the
    disk as a step relation; the locale \<open>step_invariant\<close>. With a guard stricter than the one of the
    code the replica converges; with the code's guard two runs lose an update.
  \<^item> \<open>Py_Values\<close>: the Python values, strings and numbers the rest uses, and actions on a world that end
    with a value or an exception.
  \<^item> \<open>Startup\<close>: \<^verbatim>\<open>load_conf\<close>, \<^verbatim>\<open>ensure_target\<close> and the constructor of \<^verbatim>\<open>Daemon\<close>.
  \<^item> \<open>Main_Loop\<close>: \<^verbatim>\<open>mark_consistent\<close>, \<^verbatim>\<open>check_seed\<close>, \<^verbatim>\<open>write_status\<close>, \<^verbatim>\<open>node_json\<close> and one turn of
    \<^verbatim>\<open>main\<close> with everything it calls. A consistent point is what it says it is, a call that comes back
    has thawed the file system, when a call comes back, and that one may hang with it frozen.
  \<^item> \<open>Lifecycle\<close>: the status thread, the end of \<^verbatim>\<open>main\<close>, the whole program, and a stop followed by a
    restart: the chunks in flight still land, an interrupted recovery is taken up again, a queued gap is
    forgotten, a reboot is not noticed.
  \<^item> \<open>Durability\<close>: \<^verbatim>\<open>fsync\<close> and power failures during a base copy or a recovery: what is recorded as done
    is on the medium.
  \<^item> \<open>Snapshot\<close>: a rebuild that copies the replica while the daemon runs, as a step relation. With
    guards stronger than the code's the copy is the replica of one moment; with those of the code
    two runs give a copy that the replica never was.
  \<^item> \<open>Host_Ssh\<close>: and \<open>Rebuild\<close> \<^verbatim>\<open>rkcdp-rebuild.py\<close>: \<^verbatim>\<open>ssh_script\<close>; progress, overlay, copy, the six
    steps of \<^verbatim>\<open>main\<close> with its handler and clean-up. How a run can end and what it leaves.
  \<^item> \<open>Json_Files\<close>: \<^verbatim>\<open>write_json\<close> step by step; readers and power failures in between.
  \<^item> \<open>Json_Text\<close>: what \<^verbatim>\<open>json.dump\<close> writes and \<^verbatim>\<open>json.load\<close> reads, and the \<^verbatim>\<open>load_json\<close> of the four
    programs: what they load while a file is being replaced. \<open>Json_Torn\<close>: a file that was cut short is
    never taken for a complete one. \<open>Recovery_File\<close>: \<^verbatim>\<open>recovery.json\<close> as text, from \<^verbatim>\<open>start_recovery\<close> to
    the next daemon. The writer and the reader of JSON are those of Python's library; they are
    written out because what the programs do with a torn or replaced file depends on them.
  \<^item> \<open>Seed_Tool\<close>: \<^verbatim>\<open>rkcdp-seed.py\<close>: locating the machine, the resumable copy, the seed point, the wait
    for the daemon. How a run can end, and that it ends when the daemon gets there.
  \<^item> \<open>Api\<close>: \<^verbatim>\<open>api_rkcdp.py\<close>: the state of a node, the list, its cache, and the request for a rebuild.
  \<^item> \<open>Argparse\<close>: the command lines of \<^verbatim>\<open>rkcdp-rebuild\<close> and \<^verbatim>\<open>rkcdp-seed\<close>.
  \<^item> \<open>Web_Service\<close>: the endpoints, the refresh thread and the rebuilds they start as one state under any
    sequence of requests, and how \<^verbatim>\<open>rkcdp-rebuild\<close> understands the command it is started with.
  \<^item> \<open>Setup\<close>: \<^verbatim>\<open>rkcdp-setup.py\<close> on a map of paths: install, check and remove.

  This theory holds what spans the programs: seeding followed by the daemon, and what the web
  service shows of a seed.

  \<^bold>\<open>Correspondence.\<close> A class is a record of its attributes, a method a function from the record to
  the record, an exception the left side of a sum; a definition has the name of the function it
  models, or a prefix where a name is taken (\<open>rp_write\<close>, \<open>pg_step\<close>, \<open>setup_root_disk\<close>). The bodies
  of long functions are cut at their comments and composed again (\<open>rb_check\<close> \<dots> \<open>rb_boot\<close> in
  \<open>rb_body\<close>). Files are sizes, contents and allocation; JSON files are records where one of the
  programs writes them and arbitrary JSON values where they are read from outside. What other
  programs do (\<^verbatim>\<open>dmsetup\<close>, \<^verbatim>\<open>fsfreeze\<close>, \<^verbatim>\<open>ssh\<close>, \<^verbatim>\<open>dd\<close>, \<^verbatim>\<open>cp\<close>, \<^verbatim>\<open>systemctl\<close>) is an argument; where a
  theorem needs their documented behaviour it is a hypothesis with a name (\<open>dd_sparse\<close>,
  \<open>punches_holes\<close>, \<open>quiet\<close>, \<open>succeeds\<close>).

  \<^bold>\<open>Loops.\<close> Loops over data recurse on it with a measure. The loops that wait take what they will
  read as a function of the turn: the wait of \<^verbatim>\<open>rkcdp-seed\<close> is a partial function whose result is
  \<open>None\<close> when it never ends, and \<open>seed_reaches_protection\<close> shows when it does; \<open>drain\<close> in
  \<open>Main_Loop\<close> likewise, where not returning also is that one \<^verbatim>\<open>consume\<close> never does, with
  \<open>mark_consistent_returns\<close> and \<open>mark_consistent_hangs\<close>. Elsewhere the value \<open>Diverges\<close> stands for a call that
  never comes back; nothing in the model catches it. The 30 turns of quiescing and the 150
  pings are the bounds of the code. The reader of JSON recurses with fuel, more than twice the length
  of the text, and \<open>json_fuel_enough\<close> shows that more changes nothing.

  \<^bold>\<open>Not modelled.\<close> The kernel driver and the C tools (their data formats are the interface); the
  interleaving of threads outside \<open>Copy_Protocol\<close>, \<open>Snapshot\<close> and \<open>Durability\<close>; logging and sleeping; the web framework, the user check and the database connection, which are parameters; the
  rounding of floating-point numbers, which are rational here, so that a percentage may differ by
  one; characters above 255; file permissions other than the installer's, and full disks.
\<close>

subsection \<open>Seeding and the daemon\<close>

text \<open>
  (C40) \<^verbatim>\<open>rkcdp-seed\<close> and the daemon work in the same directory: reading the same configuration
  file on the same host, without \<^verbatim>\<open>--journal\<close>, both arrive at the same path or the same
  exception, unless the file has an empty \<^verbatim>\<open>node\<close>.
\<close>

theorem same_directory:
  assumes "\<forall>v. load_conf hostname conf_file ''node'' = Some v \<longrightarrow> truthy v"
  shows "seed_dir None hostname conf_file = node_root (load_conf hostname conf_file)"
proof -
  have k: "seed_conf hostname conf_file k = load_conf hostname conf_file k" if "k = ''journal'' \<or> k = ''node''" for k
    using that by (auto simp: seed_conf_def load_conf_def Let_def map_add_def split: option.splits)
  have "\<exists>v. load_conf hostname conf_file ''node'' = Some v"
    by (auto simp: load_conf_def Let_def map_add_def split: option.splits)
  with assms obtain v where "load_conf hostname conf_file ''node'' = Some v" "truthy v" by blast
  then have "as_path (get_or (seed_conf hostname conf_file) ''node'' (JStr hostname)) = conf_str (load_conf hostname conf_file) ''node''"
    using k [of "''node''"] by (simp add: as_path_def conf_str_def split: jval.split)
  moreover have "conf_str (seed_conf hostname conf_file) ''journal'' = conf_str (load_conf hostname conf_file) ''journal''"
    using k [of "''journal''"] by (simp add: conf_str_def)
  ultimately show ?thesis by (simp add: seed_dir_def node_root_def Let_def)
qed

theorem same_directory_witness:
  "seed_dir None ''n1'' (Some [(''journal'', JStr ''/j'')]) = node_root (load_conf ''n1'' (Some [(''journal'', JStr ''/j'')])) \<and>
    node_root (load_conf ''n1'' (Some [(''journal'', JStr ''/j'')])) = Inr ''/j/n1''"
  using same_directory [of "''n1''" "Some [(''journal'', JStr ''/j'')]"]
  by (simp add: node_root_def load_conf_def conf_str_def dict_of_def path_join_def)

text \<open>The daemon works on the files that \<^verbatim>\<open>rkcdp-seed\<close> leaves in the directory of the node.\<close>

definition sees :: "daemon \<Rightarrow> seed_world \<Rightarrow> bool" where
  "sees d z \<longleftrightarrow> z_replica z = Some (rp_file (d_replica d)) \<and> nd_manifest (d_dir d) = z_manifest z \<and>
     nd_seed_raw (d_dir d) = z_seed_raw z"

text \<open>
  (C7) Seeding end to end. \<^verbatim>\<open>rkcdp-seed\<close> copies the disk of the machine chunk by chunk while the
  machine runs; when the copy of every chunk differs from the present disk only in bytes whose
  bit is set in the kernel bitmap, and the waiting daemon of the same boot then finds the files,
  adopting the seed, the recovery that its main loop starts and running that to the end leave a
  replica that equals the disk, with the base recorded.
\<close>

theorem seeding_end_to_end:
  assumes "dd_sparse (y_dd y) disk tot" and "empty_replica tot z" and "z_resume z = None"
    and "z_seed_raw z = None" and "0 < y_blk y" and "y_blk y dvd SEED_CHUNK"
    and "locate y = Inr (host, vmid, vol, tot)" and "seed_body y z = (Inr u, z1)" and "sees d z1"
    and "wf_daemon d" and "d_size d = tot" and "d_copying d = None" and "d_seed_required d"
    and "\<not> recovery_active d" and "d_base_progress d = None" and "d_recovery_queue d = []"
    and "d_boot_id d = Some (y_boot y)"
    and "read_bitmap st_buf ioctl_bitmap True = Inr (bm, chunk, nbits)" and "nbits \<le> 8 * length bm" and "0 < chunk"
    and "\<forall>i. \<forall>x < tot. disk i x \<noteq> dev x \<longrightarrow> x div 512 div chunk < nbits \<and> bit_at bm (x div 512 div chunk)"
  shows "\<exists>d1 d2 rec d3. iter_seed now d = Inr d1 \<and> mf_base_end_seq (d_manifest d1) = Some 0 \<and> \<not> d_seed_required d1 \<and>
    iter_recovery st_buf ioctl_bitmap now d1 = Inr d2 \<and> d_recovery d2 = Some rec \<and>
    recover fa dev tot (\<lambda>_. False) rec d2 = Inr d3 \<and> nd_recovery (d_dir d3) = None \<and>
    (\<forall>x < tot. d_image d3 x = dev x)"
proof -
  obtain z0 z2 where run: "z_resume z0 = None" "same_files z z0" "seed_copy y host vmid tot z0 = (Inr (), z2)"
      "same_files (seed_point y tot z2) z1"
    using seed_body_run [OF assms(8,7)] assms(3) by auto
  have "empty_replica tot z0" using assms(2) run(2) by (simp add: empty_replica_def same_files_def)
  from seed_copy_covers [OF assms(1) this run(1) assms(21) run(3)] obtain g where
    g: "z_replica z2 = Some g" "\<forall>x < tot. f_dat g x \<noteq> dev x \<longrightarrow> x div 512 div chunk < nbits \<and> bit_at bm (x div 512 div chunk)"
    by blast
  have raw: "z_seed_raw z2 = None" using seed_copy_keeps [OF run(3)] run(2) assms(4) by (simp add: same_files_def)
  obtain m where m: "nd_manifest (d_dir d) = Some m"
      "mf_seeded m = Some \<lparr>sd_boot_id = Some (y_boot y), sd_time = Some (y_clock y 4)\<rparr>"
    using run(4) assms(9) by (auto simp: same_files_def sees_def seed_point_def Let_def)
  have "seed_raw_ok tot (d_dir d)"
    using run(4) assms(5,6,9) raw
    by (auto simp: same_files_def sees_def seed_point_def seed_raw_ok_def os_truncated_def wf_file_def Let_def)
  moreover have "d_image d = f_dat g" using run(4) g(1) assms(9) by (auto simp: same_files_def sees_def seed_point_def Let_def)
  ultimately show ?thesis
    using seed_adopted_replica_current [OF assms(10-16) m _ assms(17) _ assms(18-20), of dev now fa] g(2) by simp
qed

text \<open>An empty disk of 2048 bytes is copied, then two sectors change.\<close>

definition empty_disk_env :: seed_env where
  "empty_disk_env = sample_seed_env\<lparr>y_dd := (\<lambda>_ f. f),
     y_ssh := (\<lambda>h c. if take 8 c = ''blockdev'' then Inr (0, ''2048'', []) else sample_ssh h c)\<rparr>"

lemma empty_disk_locate: "locate empty_disk_env = Inr (''h1'', 101, ''local:vm-101'', 2048)"
  by code_simp

lemma empty_disk_run:
  "\<exists>z1. seed_body empty_disk_env sample_seed_world = (Inr (), z1) \<and>
    sees (seeded_daemon\<lparr>d_dir := sample_dir\<lparr>nd_manifest := z_manifest z1, nd_seed_raw := z_seed_raw z1\<rparr>\<rparr>) z1"
proof -
  have "0 < (2048 :: nat)" "y_rc empty_disk_env = 0" by (simp_all add: empty_disk_env_def sample_seed_env_def)
  from seed_copy_returns [OF this, of "''h1''" 101] have "\<exists>z1. seed_body empty_disk_env sample_seed_world = (Inr (), z1)"
    by (auto simp: seed_body_def z_progress_def io_bind_cases empty_disk_locate split: sum.split) (metis fst_conv sum.distinct(1))
  then obtain z1 where z1: "seed_body empty_disk_env sample_seed_world = (Inr (), z1)" by blast
  obtain z0 z2 where run: "same_files sample_seed_world z0" "seed_copy empty_disk_env ''h1'' 101 2048 z0 = (Inr (), z2)"
      "same_files (seed_point empty_disk_env 2048 z2) z1"
    using seed_body_run [OF z1 empty_disk_locate] by blast
  have "fold (\<lambda>_ f. f) is f = f" for f :: sfile and "is" :: "nat list" by (induction "is") auto
  then have "z_replica z2 = Some (os_truncated 4096 2048)"
    using seed_copy_replica [OF run(2)] run(1)
    by (simp add: same_files_def sample_seed_world_def empty_disk_env_def sample_seed_env_def)
  with run(3) z1 show ?thesis
    by (auto simp: sees_def same_files_def seed_point_def Let_def seeded_daemon_def sample_daemon_def sample_rp_def)
qed

theorem seeding_end_to_end_witness:
  "\<exists>z1 d d1 d2 rec d3. seed_body empty_disk_env sample_seed_world = (Inr (), z1) \<and> sees d z1 \<and>
    iter_seed 7 d = Inr d1 \<and> mf_base_end_seq (d_manifest d1) = Some 0 \<and> \<not> d_seed_required d1 \<and>
    iter_recovery sample_status_bytes sample_ioctl 7 d1 = Inr d2 \<and> d_recovery d2 = Some rec \<and>
    recover no_fallocate seeded_dev 2048 (\<lambda>_. False) rec d2 = Inr d3 \<and> nd_recovery (d_dir d3) = None \<and>
    (\<forall>x < 2048. d_image d3 x = seeded_dev x)"
proof -
  obtain z1 where z1: "seed_body empty_disk_env sample_seed_world = (Inr (), z1)"
      "sees (seeded_daemon\<lparr>d_dir := sample_dir\<lparr>nd_manifest := z_manifest z1, nd_seed_raw := z_seed_raw z1\<rparr>\<rparr>) z1"
    using empty_disk_run by blast
  let ?d = "seeded_daemon\<lparr>d_dir := sample_dir\<lparr>nd_manifest := z_manifest z1, nd_seed_raw := z_seed_raw z1\<rparr>\<rparr>"
  have d: "wf_daemon ?d" "d_size ?d = 2048" "d_copying ?d = None" "d_seed_required ?d" "\<not> recovery_active ?d"
      "d_base_progress ?d = None" "d_recovery_queue ?d = []" "d_boot_id ?d = Some (y_boot empty_disk_env)"
    using sample_daemon_ok(1)
    by (simp_all add: seeded_daemon_def sample_daemon_def sample_dir_def wf_daemon_def recovery_active_def
        empty_disk_env_def sample_seed_env_def)
  have env: "dd_sparse (y_dd empty_disk_env) (\<lambda>_ _. 0) 2048" "empty_replica 2048 sample_seed_world"
      "z_resume sample_seed_world = None" "z_seed_raw sample_seed_world = None" "0 < y_blk empty_disk_env"
      "y_blk empty_disk_env dvd SEED_CHUNK"
    by (simp_all add: dd_sparse_def empty_disk_env_def empty_replica_def sample_seed_world_def sample_seed_env_def SEED_CHUNK_def)
  have "\<forall>i :: nat. \<forall>x < 2048. (0 :: 8 word) \<noteq> seeded_dev x \<longrightarrow> x div 512 div 2 < 2 \<and> bit_at [2] (x div 512 div 2)"
    using seeded_dev_dirty by auto
  from seeding_end_to_end [OF env empty_disk_locate z1 d sample_bitmap_read _ _ this, of 7 no_fallocate] z1
  show ?thesis by simp blast
qed

subsection \<open>Seeding and the web service\<close>

text \<open>The fields of \<^verbatim>\<open>seed.json\<close> that the web service reads; the text of an exception is left out.\<close>

definition json_of_seed :: "seed_info \<Rightarrow> dict" where
  "json_of_seed j = [(''phase'', JStr (si_phase j)),
     (''percent'', case si_percent j of None \<Rightarrow> JNull | Some p \<Rightarrow> JNum (of_nat p)), (''msg'', JStr (si_msg j))]"

text \<open>
  (C27) What the node list shows of a finished \<^verbatim>\<open>rkcdp-seed\<close>: for a node whose daemon reports, the
  list does not say \<^verbatim>\<open>seeding\<close> after a run that succeeded; after one that failed it says so
  exactly when the run stopped in the phase \<^verbatim>\<open>locate\<close>.
\<close>

theorem finished_seed_shown:
  assumes "seed_main y z = Some (code, z')" and "nf_seed f = map_option (JObj \<circ> json_of_seed) (z_json z')"
    and "nf_status f = Some (JObj sts)" and "status_age now sts = Inr (Some age)" and "age \<le> 60"
    and "make_row now f = Inr row"
  shows "nr_state row = ASeeding \<longleftrightarrow> code = 1 \<and> map_option si_phase (z_json z') = Some ''locate''"
proof -
  obtain j where j: "z_json z' = Some j" "seed_end y z' j code" using seed_main_result [OF assms(1)] by blast
  have "load_dict (nf_seed f) = Inr (json_of_seed j)" and "load_dict (nf_status f) = Inr sts"
    using assms(2,3) j(1) by (simp_all add: load_dict_def)
  note read = this(2) seed_dict_load [OF this(1)]
  obtain m where row: "nr_state row = classify (Some age) m sts (json_of_seed j)"
    using assms(4,6) read by (auto simp: make_row_def bind_result_Inr_iff)
  have "dget (json_of_seed j) ''phase'' = Some (JStr (si_phase j))"
    by (simp add: json_of_seed_def dget_def dict_of_def)
  with row j assms(5) show ?thesis
    by (auto simp: classify_def seed_end_def is_str_def STALE_SEC_def Let_def)
qed

theorem finished_seed_shown_witness:
  "\<exists>z' row. seed_main (sample_seed_env\<lparr>y_ssh := (\<lambda>h c. if take 2 c = ''qm'' then Inr (1, [], ''no such VM'') else sample_ssh h c)\<rparr>)
      sample_seed_world = Some (1, z') \<and> map_option si_phase (z_json z') = Some ''locate'' \<and>
    make_row 8 ((sample_files (JObj [(''time'', JNum 7)]))\<lparr>nf_seed := map_option (JObj \<circ> json_of_seed) (z_json z')\<rparr>) = Inr row \<and>
    nr_state row = ASeeding"
proof -
  let ?y = "sample_seed_env\<lparr>y_ssh := (\<lambda>h c. if take 2 c = ''qm'' then Inr (1, [], ''no such VM'') else sample_ssh h c)\<rparr>"
  have "locate ?y = Inl (SystemExit ''cannot find boot disk of VM 101 on h1: no such VM'')" by code_simp
  then obtain z' where z': "seed_main ?y sample_seed_world = Some (1, z')" "map_option si_phase (z_json z') = Some ''locate''"
    by (simp add: seed_main_def seed_body_def z_progress_def Let_def io_bind_cases progress_def)
  let ?f = "(sample_files (JObj [(''time'', JNum 7)]))\<lparr>nf_seed := map_option (JObj \<circ> json_of_seed) (z_json z')\<rparr>"
  from z'(2) have "load_dict (map_option (JObj \<circ> json_of_seed) (z_json z')) = Inr (json_of_seed (the (z_json z')))"
    by (auto simp: load_dict_def)
  then have "seed_dict (Some 1) (map_option (JObj \<circ> json_of_seed) (z_json z')) = Inr (json_of_seed (the (z_json z')))"
    by (rule seed_dict_load)
  then obtain row where row: "make_row 8 ?f = Inr row"
    by (auto simp: make_row_def sample_files_def load_dict_def status_age_def dget_def dict_of_def is_running_def)
  have "nr_state row = ASeeding \<longleftrightarrow> (1 :: nat) = 1 \<and> map_option si_phase (z_json z') = Some ''locate''"
    by (rule finished_seed_shown [OF z'(1) _ _ _ _ row, where sts = "[(''time'', JNum 7)]" and age = 1])
      (simp_all add: sample_files_def status_age_def dget_def dict_of_def)
  with z' row show ?thesis by blast
qed

end
